(* ===== verification/Prelude.thy ===== *)
theory Prelude
  imports Main "HOL-Library.Word" "HOL-Library.Multiset"
begin

text \<open>
  Shared vocabulary of the development: the C types of an LP64 host as words, the result
  type of code that can fault, reading and writing one byte of an object, and the generic
  lemmas on words and results that the component theories use.

  A C function that may stop the program or leave the defined part of C is modelled with a
  result in \<open>c_fault + 'a\<close>: \<open>Inl\<close> is the fault, \<open>Inr\<close> the value. Memory objects are
  lists; a pointer into an object is the object and an offset, and an access outside of the
  object is the fault \<open>Out_of_bounds\<close>.
\<close>

unbundle bit_operations_syntax

named_theorems isa_defs \<open>definitions of the macros of the instruction set\<close>

subsection \<open>C types\<close>

type_synonym bfd_byte = "8 word"
type_synonym insn_t = "32 word"
type_synonym c_uint = "32 word"
type_synonym bfd_vma = "64 word"
type_synonym bytes = "bfd_byte list"

subsection \<open>Faults and results\<close>

datatype c_fault =
    Out_of_bounds      \<comment> \<open>an access outside of the object a pointer points into\<close>
  | Null_pointer       \<comment> \<open>a null pointer is dereferenced or printed\<close>
  | Abort              \<comment> \<open>\<open>abort ()\<close> or a failed \<open>gas_assert\<close>\<close>
  | Fatal string       \<comment> \<open>\<open>as_fatal\<close>: the message is printed and the program exits\<close>
  | Undefined_shift    \<comment> \<open>a shift by the width of the type or more\<close>
  | Division_by_zero   \<comment> \<open>a division or remainder by zero\<close>
  | No_return          \<comment> \<open>a loop that does not end\<close>
  | Freed_object       \<comment> \<open>an object is used after it was given back\<close>

type_synonym 'a result = "c_fault + 'a"

definition rbind :: "'a result \<Rightarrow> ('a \<Rightarrow> 'b result) \<Rightarrow> 'b result" where
  "rbind m f = (case m of Inl e \<Rightarrow> Inl e | Inr x \<Rightarrow> f x)"

lemma rbind_simps [simp]:
  "rbind (Inl e) f = Inl e"
  "rbind (Inr x) f = f x"
  by (simp_all add: rbind_def)

lemma rbind_Inr_iff: "rbind m f = Inr y \<longleftrightarrow> (\<exists>x. m = Inr x \<and> f x = Inr y)"
  by (cases m) auto

lemma rbind_Inl_iff: "rbind m f = Inl e \<longleftrightarrow> m = Inl e \<or> (\<exists>x. m = Inr x \<and> f x = Inl e)"
  by (cases m) auto

lemma rbind_assoc: "rbind (rbind m f) g = rbind m (\<lambda>x. rbind (f x) g)"
  by (cases m) auto

lemma rbind_cong [fundef_cong]:
  "m = m' \<Longrightarrow> (\<And>x. m' = Inr x \<Longrightarrow> f x = f' x) \<Longrightarrow> rbind m f = rbind m' f'"
  by (cases m') auto

subsection \<open>Bytes of an object\<close>

definition rd8 :: "'a list \<Rightarrow> nat \<Rightarrow> 'a result" where
  "rd8 p i = (if i < length p then Inr (p ! i) else Inl Out_of_bounds)"

definition wr8 :: "'a list \<Rightarrow> nat \<Rightarrow> 'a \<Rightarrow> 'a list result" where
  "wr8 p i v = (if i < length p then Inr (p[i := v]) else Inl Out_of_bounds)"

lemma rd8_in [simp]: "i < length p \<Longrightarrow> rd8 p i = Inr (p ! i)"
  by (simp add: rd8_def)

lemma wr8_in [simp]: "i < length p \<Longrightarrow> wr8 p i v = Inr (p[i := v])"
  by (simp add: wr8_def)

lemma rd8_Inr_iff: "rd8 p i = Inr v \<longleftrightarrow> i < length p \<and> v = p ! i"
  by (auto simp: rd8_def)

lemma wr8_Inr_iff: "wr8 p i v = Inr q \<longleftrightarrow> i < length p \<and> q = p[i := v]"
  by (auto simp: wr8_def)

lemma rd8_Inl_iff: "rd8 p i = Inl e \<longleftrightarrow> length p \<le> i \<and> e = Out_of_bounds"
  by (auto simp: rd8_def)

lemma wr8_Inl_iff: "wr8 p i v = Inl e \<longleftrightarrow> length p \<le> i \<and> e = Out_of_bounds"
  by (auto simp: wr8_def)

text \<open>Replacing a run of an object, the effect of every successful store.\<close>

definition splice :: "'a list \<Rightarrow> nat \<Rightarrow> 'a list \<Rightarrow> 'a list" where
  "splice p a vs = take a p @ vs @ drop (a + length vs) p"

lemma length_splice [simp]: "a + length vs \<le> length p \<Longrightarrow> length (splice p a vs) = length p"
  by (simp add: splice_def)

lemma splice_Nil [simp]: "splice p a [] = p"
  by (simp add: splice_def)

lemma splice_Cons: "a < length p \<Longrightarrow> splice (p[a := v]) (Suc a) vs = splice p a (v # vs)"
  by (simp add: splice_def take_Suc_conv_app_nth)

lemma splice_snoc:
  "a + length vs < length p \<Longrightarrow> splice (p[a + length vs := v]) a vs = splice p a (vs @ [v])"
  by (simp add: splice_def drop_update_swap Cons_nth_drop_Suc [symmetric])

lemma nth_splice:
  "a + length vs \<le> length p \<Longrightarrow> i < length p \<Longrightarrow>
   splice p a vs ! i = (if a \<le> i \<and> i < a + length vs then vs ! (i - a) else p ! i)"
  by (auto simp: splice_def nth_append min_def)

lemma splice_update1: "a < length p \<Longrightarrow> p[a := v] = splice p a [v]"
  by (simp add: splice_def upd_conv_take_nth_drop)

lemma splice_same: "a + n \<le> length p \<Longrightarrow> splice p a (take n (drop a p)) = p"
proof -
  assume "a + n \<le> length p"
  then have "take n (drop a p) @ drop (a + n) p = drop a p"
    by (metis append_take_drop_id add.commute drop_drop)
  with \<open>a + n \<le> length p\<close> show ?thesis
    by (simp add: splice_def)
qed

lemma take_drop_splice: "a + length vs \<le> length p \<Longrightarrow> take (length vs) (drop a (splice p a vs)) = vs"
  by (simp add: splice_def)

lemma splice_splice:
  "a + length vs \<le> length p \<Longrightarrow> length ws = length vs \<Longrightarrow> splice (splice p a vs) a ws = splice p a ws"
  by (simp add: splice_def)

lemma take_drop_splice_disjoint:
  assumes "a + length vs \<le> length p" and "b + n \<le> a \<or> a + length vs \<le> b"
  shows "take n (drop b (splice p a vs)) = take n (drop b p)"
proof (rule nth_equalityI)
  from assms(1) show "length (take n (drop b (splice p a vs))) = length (take n (drop b p))"
    by simp
next
  fix i assume "i < length (take n (drop b (splice p a vs)))"
  with assms show "take n (drop b (splice p a vs)) ! i = take n (drop b p) ! i"
    by (auto simp: nth_splice)
qed

text \<open>Loading and storing a run of bytes at a pointer.\<close>

definition ld :: "'a list \<Rightarrow> nat \<Rightarrow> nat \<Rightarrow> 'a list result" where
  "ld p a n = (if a + n \<le> length p then Inr (take n (drop a p)) else Inl Out_of_bounds)"

definition st :: "'a list \<Rightarrow> nat \<Rightarrow> 'a list \<Rightarrow> 'a list result" where
  "st p a vs = (if a + length vs \<le> length p then Inr (splice p a vs) else Inl Out_of_bounds)"

lemma ld_Inr_iff: "ld p a n = Inr vs \<longleftrightarrow> a + n \<le> length p \<and> vs = take n (drop a p)"
  by (auto simp: ld_def)

lemma st_Inr_iff: "st p a vs = Inr q \<longleftrightarrow> a + length vs \<le> length p \<and> q = splice p a vs"
  by (auto simp: st_def)

lemma ld_in: "a + n \<le> length p \<Longrightarrow> ld p a n = Inr (take n (drop a p))"
  by (simp add: ld_def)

lemma ld_length: "ld p a n = Inr vs \<Longrightarrow> length vs = n"
  by (auto simp: ld_def split: if_splits)

lemma ld_splice: "a + length vs \<le> length p \<Longrightarrow> n = length vs \<Longrightarrow> ld (splice p a vs) a n = Inr vs"
  by (simp add: ld_def take_drop_splice)

subsection \<open>C strings\<close>

text \<open>
  The memory behind a \<open>const char *\<close> is a list of characters; the string it holds ends before
  the first NUL. A string passed by name is given without its NUL.
\<close>

definition NUL :: char where "NUL = CHR 0x00"

definition c_str :: "string \<Rightarrow> string" where
  "c_str key = takeWhile (\<lambda>c. c \<noteq> NUL) key"

definition strlen :: "string \<Rightarrow> nat" where
  "strlen key = length (c_str key)"

lemma c_str_NUL [simp]: "NUL \<notin> set (c_str key)"
  using set_takeWhileD [of NUL "\<lambda>c. c \<noteq> NUL" key] by (auto simp: c_str_def)

lemma c_str_id: "NUL \<notin> set key \<Longrightarrow> c_str key = key"
  by (auto simp: c_str_def takeWhile_eq_all_conv)

lemma take_strlen: "take (strlen key) (key @ rest) = c_str key" "strlen key \<le> length key"
  by (simp_all add: strlen_def c_str_def takeWhile_eq_take [symmetric] length_takeWhile_le take_append)

subsection \<open>Tables of chains\<close>

lemma mset_concat_update: "i < length L \<Longrightarrow> mset (concat (L[i := xs])) + mset (L ! i) = mset xs + mset (concat L)"
proof (induction L arbitrary: i)
  case (Cons ys L)
  then show ?case by (cases i) (auto simp: ac_simps)
qed simp

subsection \<open>Equality of words, bit by bit\<close>

text \<open>
  The macros of the instruction set are masks and shifts by numerals. Their equations are
  decided by listing the bits: the simplifier computes each one with \<open>bit_simps\<close>.
\<close>

lemma upt_2: "[0..<2] = [0,1]"
  by (simp add: upt_rec)

lemma word2_eq_bits: "(x :: 2 word) = y \<longleftrightarrow> list_all (\<lambda>n. bit x n = bit y n) [0,1]"
  unfolding upt_2 [symmetric] by (auto simp: bit_eq_iff list_all_iff dest: bit_imp_le_length)

lemma upt_4: "[0..<4] = [0,1,2,3]"
  by (simp add: upt_rec)

lemma word4_eq_bits: "(x :: 4 word) = y \<longleftrightarrow> list_all (\<lambda>n. bit x n = bit y n) [0,1,2,3]"
  unfolding upt_4 [symmetric] by (auto simp: bit_eq_iff list_all_iff dest: bit_imp_le_length)

lemma upt_5: "[0..<5] = [0,1,2,3,4]"
  by (simp add: upt_rec)

lemma word5_eq_bits: "(x :: 5 word) = y \<longleftrightarrow> list_all (\<lambda>n. bit x n = bit y n) [0,1,2,3,4]"
  unfolding upt_5 [symmetric] by (auto simp: bit_eq_iff list_all_iff dest: bit_imp_le_length)

lemma upt_7: "[0..<7] = [0,1,2,3,4,5,6]"
  by (simp add: upt_rec)

lemma word7_eq_bits: "(x :: 7 word) = y \<longleftrightarrow> list_all (\<lambda>n. bit x n = bit y n) [0,1,2,3,4,5,6]"
  unfolding upt_7 [symmetric] by (auto simp: bit_eq_iff list_all_iff dest: bit_imp_le_length)

lemma upt_12: "[0..<12] = [0,1,2,3,4,5,6,7,8,9,10,11]"
  by (simp add: upt_rec)

lemma word12_eq_bits: "(x :: 12 word) = y \<longleftrightarrow> list_all (\<lambda>n. bit x n = bit y n) [0,1,2,3,4,5,6,7,8,9,10,11]"
  unfolding upt_12 [symmetric] by (auto simp: bit_eq_iff list_all_iff dest: bit_imp_le_length)

lemma upt_14: "[0..<14] = [0,1,2,3,4,5,6,7,8,9,10,11,12,13]"
  by (simp add: upt_rec)

lemma word14_eq_bits: "(x :: 14 word) = y \<longleftrightarrow> list_all (\<lambda>n. bit x n = bit y n) [0,1,2,3,4,5,6,7,8,9,10,11,12,13]"
  unfolding upt_14 [symmetric] by (auto simp: bit_eq_iff list_all_iff dest: bit_imp_le_length)

lemma upt_21: "[0..<21] = [0,1,2,3,4,5,6,7,8,9,10,11,12,13,14,15,16,17,18,19,20]"
  by (simp add: upt_rec)

lemma word21_eq_bits: "(x :: 21 word) = y \<longleftrightarrow> list_all (\<lambda>n. bit x n = bit y n) [0,1,2,3,4,5,6,7,8,9,10,11,12,13,14,15,16,17,18,19,20]"
  unfolding upt_21 [symmetric] by (auto simp: bit_eq_iff list_all_iff dest: bit_imp_le_length)

lemma upt_8:
  "[0..<8] =
     [0,1,2,3,4,5,6,7]"
  by (simp add: upt_rec)

lemma word8_eq_bits:
  "(x :: 8 word) = y \<longleftrightarrow> list_all (\<lambda>n. bit x n = bit y n)
     [0,1,2,3,4,5,6,7]"
  unfolding upt_8 [symmetric] by (auto simp: bit_eq_iff list_all_iff dest: bit_imp_le_length)

lemma upt_16:
  "[0..<16] =
     [0,1,2,3,4,5,6,7,8,9,10,11,12,13,14,15]"
  by (simp add: upt_rec)

lemma word16_eq_bits:
  "(x :: 16 word) = y \<longleftrightarrow> list_all (\<lambda>n. bit x n = bit y n)
     [0,1,2,3,4,5,6,7,8,9,10,11,12,13,14,15]"
  unfolding upt_16 [symmetric] by (auto simp: bit_eq_iff list_all_iff dest: bit_imp_le_length)

lemma upt_32:
  "[0..<32] =
     [0,1,2,3,4,5,6,7,8,9,10,11,12,13,14,15,16,17,18,19,20,21,22,23,24,25,26,27,28,29,30,31]"
  by (simp add: upt_rec)

lemma word32_eq_bits:
  "(x :: 32 word) = y \<longleftrightarrow> list_all (\<lambda>n. bit x n = bit y n)
     [0,1,2,3,4,5,6,7,8,9,10,11,12,13,14,15,16,17,18,19,20,21,22,23,24,25,26,27,28,29,30,31]"
  unfolding upt_32 [symmetric] by (auto simp: bit_eq_iff list_all_iff dest: bit_imp_le_length)

lemma upt_64:
  "[0..<64] =
     [0,1,2,3,4,5,6,7,8,9,10,11,12,13,14,15,16,17,18,19,20,21,22,23,24,25,26,27,28,29,30,31,
      32,33,34,35,36,37,38,39,40,41,42,43,44,45,46,47,48,49,50,51,52,53,54,55,56,57,58,59,60,
      61,62,63]"
  by (simp add: upt_rec)

lemma word64_eq_bits:
  "(x :: 64 word) = y \<longleftrightarrow> list_all (\<lambda>n. bit x n = bit y n)
     [0,1,2,3,4,5,6,7,8,9,10,11,12,13,14,15,16,17,18,19,20,21,22,23,24,25,26,27,28,29,30,31,
      32,33,34,35,36,37,38,39,40,41,42,43,44,45,46,47,48,49,50,51,52,53,54,55,56,57,58,59,60,
      61,62,63]"
  unfolding upt_64 [symmetric] by (auto simp: bit_eq_iff list_all_iff dest: bit_imp_le_length)

text \<open>The loops of the library stop because a right shift makes a number smaller.\<close>

lemma unat_drop_bit_less: "drop_bit n x \<noteq> 0 \<Longrightarrow> 0 < n \<Longrightarrow> unat (drop_bit n x) < unat (x :: 'a::len word)"
proof -
  assume "drop_bit n x \<noteq> 0" "0 < n"
  then have "x \<noteq> 0" by auto
  then have "0 < unat x" by (simp add: unat_gt_0)
  moreover from \<open>0 < n\<close> have "(1::nat) < 2 ^ n"
    using one_less_power [of "2::nat" n] by simp
  ultimately show ?thesis
    unfolding unat_drop_bit_eq by (simp add: drop_bit_eq_div div_less_dividend)
qed

lemma unat_ucast_up:
  "LENGTH('a) \<le> LENGTH('b) \<Longrightarrow> unat (ucast (v :: 'a::len word) :: 'b::len word) = unat v"
proof -
  assume "LENGTH('a) \<le> LENGTH('b)"
  then have "unat v < 2 ^ LENGTH('b)"
    using unsigned_less [of v, where ?'a = nat] by (meson one_le_numeral order_less_le_trans power_increasing)
  then show ?thesis
    by (simp add: unsigned_ucast_eq take_bit_nat_eq_self)
qed

lemma sint_scast_up:
  "LENGTH('a) \<le> LENGTH('b) \<Longrightarrow> sint (scast (x :: 'a::len word) :: 'b::len word) = sint x"
  by (simp add: sint_up_scast is_up)

lemma bit_beyond: "LENGTH('a) \<le> n \<Longrightarrow> \<not> bit (x :: 'a::len word) n"
  by (auto dest: bit_imp_le_length)

lemma bit_small_Suc: "bit x (Suc (Suc 0)) = bit x 2" "bit x (Suc (Suc (Suc 0))) = bit x 3"
  by (simp_all add: numeral_2_eq_2 numeral_3_eq_3)

lemmas word_bits =
  word2_eq_bits word4_eq_bits word5_eq_bits word7_eq_bits word12_eq_bits word14_eq_bits word21_eq_bits
  word8_eq_bits word16_eq_bits word32_eq_bits word64_eq_bits bit_simps bit_beyond bit_small_Suc

subsection \<open>Lists of lists\<close>

lemma distinct_concat_nth:
  assumes "\<And>i. i < length xss \<Longrightarrow> distinct (xss ! i)"
    and "\<And>i j. i < length xss \<Longrightarrow> j < length xss \<Longrightarrow> i \<noteq> j \<Longrightarrow> set (xss ! i) \<inter> set (xss ! j) = {}"
  shows "distinct (concat xss)"
  using assms
proof (induction xss)
  case (Cons xs xss)
  have "distinct (concat xss)"
    using Cons.prems(1) [of "Suc _"] Cons.prems(2) [of "Suc _" "Suc _"] by (intro Cons.IH) auto
  moreover have "set xs \<inter> set (concat xss) = {}"
    using Cons.prems(2) [of 0 "Suc _"] by (fastforce simp: in_set_conv_nth)
  ultimately show ?case using Cons.prems(1) [of 0] by simp
qed simp

end
