(* ===== verification/Bfd_Bytes.thy ===== *)
theory Bfd_Bytes
  imports Prelude
begin

text \<open>
  Byte order and number encodings: the get and put routines, \<open>bfd_put_bits\<close>,
  \<open>bfd_get_bits\<close>, \<open>bfd_log2\<close> and the LEB128 readers of \<^verbatim>\<open>bfd/libbfd.c\<close>, and the LEB128
  writers of \<^verbatim>\<open>gas/read.c\<close>. The interface \<open>byte_access\<close> states what a relocation
  routine relies on; every get/put pair of the library is an instance of it.
\<close>

subsection \<open>Sign extension\<close>

definition COERCE16 :: "bfd_vma \<Rightarrow> bfd_vma" where
  "COERCE16 x = (x XOR 0x8000) - 0x8000"

definition COERCE32 :: "bfd_vma \<Rightarrow> bfd_vma" where
  "COERCE32 x = (x XOR 0x80000000) - 0x80000000"

definition COERCE64 :: "bfd_vma \<Rightarrow> bfd_vma" where
  "COERCE64 x = (x XOR push_bit 63 1) - push_bit 63 1"

subsection \<open>Get and put routines\<close>

definition bfd_getb16 :: "bytes \<Rightarrow> nat \<Rightarrow> bfd_vma result" where
  "bfd_getb16 p a = rbind (ld p a 2) (\<lambda>addr.
     Inr (push_bit 8 (ucast (addr ! 0)) OR ucast (addr ! 1)))"

definition bfd_getl16 :: "bytes \<Rightarrow> nat \<Rightarrow> bfd_vma result" where
  "bfd_getl16 p a = rbind (ld p a 2) (\<lambda>addr.
     Inr (push_bit 8 (ucast (addr ! 1)) OR ucast (addr ! 0)))"

definition bfd_getb_signed_16 :: "bytes \<Rightarrow> nat \<Rightarrow> bfd_vma result" where
  "bfd_getb_signed_16 p a = rbind (ld p a 2) (\<lambda>addr.
     Inr (COERCE16 (push_bit 8 (ucast (addr ! 0)) OR ucast (addr ! 1))))"

definition bfd_getl_signed_16 :: "bytes \<Rightarrow> nat \<Rightarrow> bfd_vma result" where
  "bfd_getl_signed_16 p a = rbind (ld p a 2) (\<lambda>addr.
     Inr (COERCE16 (push_bit 8 (ucast (addr ! 1)) OR ucast (addr ! 0))))"

definition bfd_putb16 :: "bfd_vma \<Rightarrow> bytes \<Rightarrow> nat \<Rightarrow> bytes result" where
  "bfd_putb16 data p a = st p a [ucast (drop_bit 8 data AND 0xff), ucast (data AND 0xff)]"

definition bfd_putl16 :: "bfd_vma \<Rightarrow> bytes \<Rightarrow> nat \<Rightarrow> bytes result" where
  "bfd_putl16 data p a = st p a [ucast (data AND 0xff), ucast (drop_bit 8 data AND 0xff)]"

definition bfd_getb32 :: "bytes \<Rightarrow> nat \<Rightarrow> bfd_vma result" where
  "bfd_getb32 p a = rbind (ld p a 4) (\<lambda>addr.
     let v = push_bit 24 (ucast (addr ! 0));
         v = v OR push_bit 16 (ucast (addr ! 1));
         v = v OR push_bit 8 (ucast (addr ! 2));
         v = v OR ucast (addr ! 3)
     in Inr v)"

definition bfd_getl32 :: "bytes \<Rightarrow> nat \<Rightarrow> bfd_vma result" where
  "bfd_getl32 p a = rbind (ld p a 4) (\<lambda>addr.
     let v = ucast (addr ! 0);
         v = v OR push_bit 8 (ucast (addr ! 1));
         v = v OR push_bit 16 (ucast (addr ! 2));
         v = v OR push_bit 24 (ucast (addr ! 3))
     in Inr v)"

definition bfd_getb_signed_32 :: "bytes \<Rightarrow> nat \<Rightarrow> bfd_vma result" where
  "bfd_getb_signed_32 p a = rbind (ld p a 4) (\<lambda>addr.
     let v = push_bit 24 (ucast (addr ! 0));
         v = v OR push_bit 16 (ucast (addr ! 1));
         v = v OR push_bit 8 (ucast (addr ! 2));
         v = v OR ucast (addr ! 3)
     in Inr (COERCE32 v))"

definition bfd_getl_signed_32 :: "bytes \<Rightarrow> nat \<Rightarrow> bfd_vma result" where
  "bfd_getl_signed_32 p a = rbind (ld p a 4) (\<lambda>addr.
     let v = ucast (addr ! 0);
         v = v OR push_bit 8 (ucast (addr ! 1));
         v = v OR push_bit 16 (ucast (addr ! 2));
         v = v OR push_bit 24 (ucast (addr ! 3))
     in Inr (COERCE32 v))"

definition bfd_getb64 :: "bytes \<Rightarrow> nat \<Rightarrow> bfd_vma result" where
  "bfd_getb64 p a = rbind (ld p a 8) (\<lambda>addr.
     let v = ucast (addr ! 0); v = push_bit 8 v;
         v = v OR ucast (addr ! 1); v = push_bit 8 v;
         v = v OR ucast (addr ! 2); v = push_bit 8 v;
         v = v OR ucast (addr ! 3); v = push_bit 8 v;
         v = v OR ucast (addr ! 4); v = push_bit 8 v;
         v = v OR ucast (addr ! 5); v = push_bit 8 v;
         v = v OR ucast (addr ! 6); v = push_bit 8 v;
         v = v OR ucast (addr ! 7)
     in Inr v)"

definition bfd_getl64 :: "bytes \<Rightarrow> nat \<Rightarrow> bfd_vma result" where
  "bfd_getl64 p a = rbind (ld p a 8) (\<lambda>addr.
     let v = ucast (addr ! 7); v = push_bit 8 v;
         v = v OR ucast (addr ! 6); v = push_bit 8 v;
         v = v OR ucast (addr ! 5); v = push_bit 8 v;
         v = v OR ucast (addr ! 4); v = push_bit 8 v;
         v = v OR ucast (addr ! 3); v = push_bit 8 v;
         v = v OR ucast (addr ! 2); v = push_bit 8 v;
         v = v OR ucast (addr ! 1); v = push_bit 8 v;
         v = v OR ucast (addr ! 0)
     in Inr v)"

definition bfd_getb_signed_64 :: "bytes \<Rightarrow> nat \<Rightarrow> bfd_vma result" where
  "bfd_getb_signed_64 p a = rbind (ld p a 8) (\<lambda>addr.
     let v = ucast (addr ! 0); v = push_bit 8 v;
         v = v OR ucast (addr ! 1); v = push_bit 8 v;
         v = v OR ucast (addr ! 2); v = push_bit 8 v;
         v = v OR ucast (addr ! 3); v = push_bit 8 v;
         v = v OR ucast (addr ! 4); v = push_bit 8 v;
         v = v OR ucast (addr ! 5); v = push_bit 8 v;
         v = v OR ucast (addr ! 6); v = push_bit 8 v;
         v = v OR ucast (addr ! 7)
     in Inr (COERCE64 v))"

definition bfd_getl_signed_64 :: "bytes \<Rightarrow> nat \<Rightarrow> bfd_vma result" where
  "bfd_getl_signed_64 p a = rbind (ld p a 8) (\<lambda>addr.
     let v = ucast (addr ! 7); v = push_bit 8 v;
         v = v OR ucast (addr ! 6); v = push_bit 8 v;
         v = v OR ucast (addr ! 5); v = push_bit 8 v;
         v = v OR ucast (addr ! 4); v = push_bit 8 v;
         v = v OR ucast (addr ! 3); v = push_bit 8 v;
         v = v OR ucast (addr ! 2); v = push_bit 8 v;
         v = v OR ucast (addr ! 1); v = push_bit 8 v;
         v = v OR ucast (addr ! 0)
     in Inr (COERCE64 v))"

definition bfd_putb32 :: "bfd_vma \<Rightarrow> bytes \<Rightarrow> nat \<Rightarrow> bytes result" where
  "bfd_putb32 data p a = st p a
     [ucast (drop_bit 24 data AND 0xff), ucast (drop_bit 16 data AND 0xff),
      ucast (drop_bit 8 data AND 0xff), ucast (data AND 0xff)]"

definition bfd_putl32 :: "bfd_vma \<Rightarrow> bytes \<Rightarrow> nat \<Rightarrow> bytes result" where
  "bfd_putl32 data p a = st p a
     [ucast (data AND 0xff), ucast (drop_bit 8 data AND 0xff),
      ucast (drop_bit 16 data AND 0xff), ucast (drop_bit 24 data AND 0xff)]"

definition bfd_putb64 :: "bfd_vma \<Rightarrow> bytes \<Rightarrow> nat \<Rightarrow> bytes result" where
  "bfd_putb64 data p a = st p a
     [ucast (drop_bit (7*8) data AND 0xff), ucast (drop_bit (6*8) data AND 0xff),
      ucast (drop_bit (5*8) data AND 0xff), ucast (drop_bit (4*8) data AND 0xff),
      ucast (drop_bit (3*8) data AND 0xff), ucast (drop_bit (2*8) data AND 0xff),
      ucast (drop_bit (1*8) data AND 0xff), ucast (drop_bit (0*8) data AND 0xff)]"

definition bfd_putl64 :: "bfd_vma \<Rightarrow> bytes \<Rightarrow> nat \<Rightarrow> bytes result" where
  "bfd_putl64 data p a = st p a
     [ucast (drop_bit (0*8) data AND 0xff), ucast (drop_bit (1*8) data AND 0xff),
      ucast (drop_bit (2*8) data AND 0xff), ucast (drop_bit (3*8) data AND 0xff),
      ucast (drop_bit (4*8) data AND 0xff), ucast (drop_bit (5*8) data AND 0xff),
      ucast (drop_bit (6*8) data AND 0xff), ucast (drop_bit (7*8) data AND 0xff)]"

definition bfd_get_8 :: "bytes \<Rightarrow> nat \<Rightarrow> bfd_vma result" where
  "bfd_get_8 p a = rbind (rd8 p a) (\<lambda>b. Inr (ucast b AND 0xff))"

definition bfd_put_8 :: "bfd_vma \<Rightarrow> bytes \<Rightarrow> nat \<Rightarrow> bytes result" where
  "bfd_put_8 val p a = wr8 p a (ucast (val AND 0xff))"

text \<open>
  Reads and writes of \<open>bits\<close> bits. \<open>bits\<close> is a C \<open>int\<close>; a number that is not a multiple
  of eight aborts, and the loops run \<open>bits / 8\<close> times, so not at all for a negative one.
\<close>

function put_bits_loop :: "nat \<Rightarrow> nat \<Rightarrow> bfd_vma \<Rightarrow> bytes \<Rightarrow> nat \<Rightarrow> bool \<Rightarrow> bytes result" where
  "put_bits_loop bytes i data p a big_p =
     (if i < bytes then
        let addr_index = (if big_p then bytes - i - 1 else i) in
        rbind (wr8 p (a + addr_index) (ucast (data AND 0xff))) (\<lambda>p.
        put_bits_loop bytes (i + 1) (drop_bit 8 data) p a big_p)
      else Inr p)"
  by pat_completeness auto
termination
  by (relation "measure (\<lambda>(bytes, i, data, p, a, big_p). bytes - i)") auto

declare put_bits_loop.simps [simp del]

definition bfd_put_bits :: "bfd_vma \<Rightarrow> bytes \<Rightarrow> nat \<Rightarrow> int \<Rightarrow> bool \<Rightarrow> bytes result" where
  "bfd_put_bits data p a bits big_p =
     (if bits mod 8 \<noteq> 0 then Inl Abort
      else put_bits_loop (nat (bits div 8)) 0 data p a big_p)"

function get_bits_loop :: "nat \<Rightarrow> nat \<Rightarrow> bfd_vma \<Rightarrow> bytes \<Rightarrow> nat \<Rightarrow> bool \<Rightarrow> bfd_vma result" where
  "get_bits_loop bytes i data p a big_p =
     (if i < bytes then
        let addr_index = (if big_p then i else bytes - i - 1) in
        rbind (rd8 p (a + addr_index)) (\<lambda>b.
        get_bits_loop bytes (i + 1) (push_bit 8 data OR ucast b) p a big_p)
      else Inr data)"
  by pat_completeness auto
termination
  by (relation "measure (\<lambda>(bytes, i, data, p, a, big_p). bytes - i)") auto

declare get_bits_loop.simps [simp del]

definition bfd_get_bits :: "bytes \<Rightarrow> nat \<Rightarrow> int \<Rightarrow> bool \<Rightarrow> bfd_vma result" where
  "bfd_get_bits p a bits big_p =
     (if bits mod 8 \<noteq> 0 then Inl Abort
      else get_bits_loop (nat (bits div 8)) 0 0 p a big_p)"

subsection \<open>Logarithm\<close>

text \<open>The loop \<open>do ++result; while ((x >>= 1) != 0);\<close>.\<close>

function log2_loop :: "bfd_vma \<Rightarrow> nat \<Rightarrow> nat" where
  "log2_loop x result =
     (let result = result + 1; x = drop_bit 1 x
      in if x \<noteq> 0 then log2_loop x result else result)"
  by pat_completeness auto
termination
  by (relation "measure (\<lambda>(x, result). unat x)") (auto intro!: unat_drop_bit_less)

declare log2_loop.simps [simp del]

definition bfd_log2 :: "bfd_vma \<Rightarrow> nat" where
  "bfd_log2 x = (if x \<le> 1 then 0 else log2_loop (x - 1) 0)"

subsection \<open>LEB128: the readers\<close>

text \<open>
  The readers walk the bytes from a pointer on, here the list of those bytes. A byte is
  shifted by \<open>shift\<close> into a 64-bit result; a shift of 64 or more is undefined in C and is
  the fault \<open>Undefined_shift\<close>.
\<close>

fun uleb128_loop :: "bytes \<Rightarrow> bfd_vma \<Rightarrow> nat \<Rightarrow> nat \<Rightarrow> (bfd_byte \<times> bfd_vma \<times> nat \<times> nat) result" where
  "uleb128_loop [] result shift num_read = Inl Out_of_bounds"
| "uleb128_loop (byte # buf) result shift num_read =
     (if 64 \<le> shift then Inl Undefined_shift
      else
        let num_read = num_read + 1;
            result = result OR push_bit shift (ucast byte AND 0x7f);
            shift = shift + 7
        in if byte AND 0x80 \<noteq> 0 then uleb128_loop buf result shift num_read
           else Inr (byte, result, shift, num_read))"

definition bfd_read_unsigned_leb128 :: "bytes \<Rightarrow> (bfd_vma \<times> nat) result" where
  "bfd_read_unsigned_leb128 buf =
     rbind (uleb128_loop buf 0 0 0) (\<lambda>(byte, result, shift, num_read). Inr (result, num_read))"

definition bfd_read_signed_leb128 :: "bytes \<Rightarrow> (bfd_vma \<times> nat) result" where
  "bfd_read_signed_leb128 buf =
     rbind (uleb128_loop buf 0 0 0) (\<lambda>(byte, result, shift, num_read).
     let result = (if shift < 64 \<and> byte AND 0x40 \<noteq> 0
                   then result OR push_bit shift (- 1) else result)
     in Inr (result, num_read))"

text \<open>\<open>_bfd_safe_read_leb128\<close>: the list holds the bytes from \<open>data\<close> up to \<open>end\<close>.\<close>

fun safe_leb128_loop :: "bytes \<Rightarrow> bfd_byte \<Rightarrow> bfd_vma \<Rightarrow> nat \<Rightarrow> nat \<Rightarrow> (bfd_byte \<times> bfd_vma \<times> nat \<times> nat) result" where
  "safe_leb128_loop [] byte result shift num_read = Inr (byte, result, shift, num_read)"
| "safe_leb128_loop (byte # data) byte0 result shift num_read =
     (if 64 \<le> shift then Inl Undefined_shift
      else
        let num_read = num_read + 1;
            result = result OR push_bit shift (ucast (byte AND 0x7f));
            shift = shift + 7
        in if byte AND 0x80 = 0 then Inr (byte, result, shift, num_read)
           else safe_leb128_loop data byte result shift num_read)"

definition bfd_safe_read_leb128 :: "bytes \<Rightarrow> bool \<Rightarrow> (bfd_vma \<times> nat) result" where
  "bfd_safe_read_leb128 data sign =
     rbind (safe_leb128_loop data 0 0 0 0) (\<lambda>(byte, result, shift, num_read).
     let result = (if sign \<and> shift < 64 \<and> byte AND 0x40 \<noteq> 0
                   then result OR - push_bit shift 1 else result)
     in Inr (result, num_read))"

subsection \<open>LEB128: the writers\<close>

text \<open>
  The writers store the bytes at \<open>p\<close> and return how many there are; the model returns the
  bytes. \<open>offsetT\<close> is a signed 64-bit integer, its right shift arithmetic, so that
  \<open>~(-(offsetT)1 >> 7)\<close> is zero.
\<close>

function output_uleb128 :: "bfd_vma \<Rightarrow> bytes" where
  "output_uleb128 val =
     (let byte = val AND 0x7f; val = drop_bit 7 val
      in if val \<noteq> 0 then ucast (byte OR 0x80) # output_uleb128 val else [ucast byte])"
  by pat_completeness auto
termination
  by (relation "measure unat") (auto intro!: unat_drop_bit_less)

declare output_uleb128.simps [simp del]

definition sleb128_more :: "bfd_vma \<Rightarrow> bfd_vma \<Rightarrow> bool" where
  "sleb128_more val byte \<longleftrightarrow>
     \<not> (val = 0 \<and> byte AND 0x40 = 0 \<or> val = - 1 \<and> byte AND 0x40 \<noteq> 0)"

definition sleb128_shift :: "bfd_vma \<Rightarrow> bfd_vma" where
  "sleb128_shift val = signed_drop_bit 7 val OR NOT (signed_drop_bit 7 (- 1))"

definition sleb128_measure :: "bfd_vma \<Rightarrow> nat" where
  "sleb128_measure v = nat (if sint v < 0 then - sint v - 1 else sint v)"

lemma sint_sleb128_shift: "sint (sleb128_shift v) = sint v div 128"
  by (simp add: sleb128_shift_def sint_signed_drop_bit_eq drop_bit_eq_div)

lemma sleb128_shift_less:
  assumes "sleb128_more (sleb128_shift v) (v AND 0x7f)"
  shows "sleb128_measure (sleb128_shift v) < sleb128_measure v"
proof -
  have "v \<noteq> 0" "v \<noteq> - 1"
    using assms by (auto simp: sleb128_more_def sleb128_shift_def)
  then have "sint v \<noteq> 0" "sint v \<noteq> - 1"
    by (metis sint_0 signed_word_eqI, metis sint_n1 signed_word_eqI)
  then show ?thesis
    by (auto simp: sleb128_measure_def sint_sleb128_shift)
qed

function output_sleb128 :: "bfd_vma \<Rightarrow> bytes" where
  "output_sleb128 val =
     (let byte = val AND 0x7f; val = sleb128_shift val
      in if sleb128_more val byte then ucast (byte OR 0x80) # output_sleb128 val
         else [ucast byte])"
  by pat_completeness auto
termination
  by (relation "measure sleb128_measure") (auto intro!: sleb128_shift_less)

declare output_sleb128.simps [simp del]

definition output_leb128 :: "bfd_vma \<Rightarrow> bool \<Rightarrow> bytes" where
  "output_leb128 val sign = (if sign then output_sleb128 val else output_uleb128 val)"

function sizeof_uleb128_loop :: "bfd_vma \<Rightarrow> nat \<Rightarrow> nat" where
  "sizeof_uleb128_loop val sz =
     (let val = drop_bit 7 val; sz = sz + 1
      in if val \<noteq> 0 then sizeof_uleb128_loop val sz else sz)"
  by pat_completeness auto
termination
  by (relation "measure (\<lambda>(val, sz). unat val)") (auto intro!: unat_drop_bit_less)

declare sizeof_uleb128_loop.simps [simp del]

definition sizeof_uleb128 :: "bfd_vma \<Rightarrow> nat" where
  "sizeof_uleb128 val = sizeof_uleb128_loop val 0"

function sizeof_sleb128_loop :: "bfd_vma \<Rightarrow> nat \<Rightarrow> nat" where
  "sizeof_sleb128_loop val sz =
     (let byte = val AND 0x7f; val = sleb128_shift val; sz = sz + 1
      in if sleb128_more val byte then sizeof_sleb128_loop val sz else sz)"
  by pat_completeness auto
termination
  by (relation "measure (\<lambda>(val, sz). sleb128_measure val)") (auto intro!: sleb128_shift_less)

declare sizeof_sleb128_loop.simps [simp del]

definition sizeof_sleb128 :: "bfd_vma \<Rightarrow> nat" where
  "sizeof_sleb128 val = sizeof_sleb128_loop val 0"

definition sizeof_leb128 :: "bfd_vma \<Rightarrow> bool \<Rightarrow> nat" where
  "sizeof_leb128 val sign = (if sign then sizeof_sleb128 val else sizeof_uleb128 val)"

subsection \<open>Reference definitions\<close>

text \<open>
  The bytes \<open>i, \<dots>, n - 1\<close> of a number, least significant first; the value of bytes given
  most significant first; the order of the bytes in memory; what the signed LEB128 reader
  does after its loop; and the signed numbers that fit above a shift of \<open>s\<close>.
\<close>

definition le_bytes :: "nat \<Rightarrow> nat \<Rightarrow> bfd_vma \<Rightarrow> bytes" where
  "le_bytes i n d = map (\<lambda>k. ucast (drop_bit (8 * k) d)) [i..<n]"

definition be_value :: "bfd_vma \<Rightarrow> bytes \<Rightarrow> bfd_vma" where
  "be_value d vs = foldl (\<lambda>d b. push_bit 8 d OR ucast b) d vs"

definition order_bytes :: "bool \<Rightarrow> bytes \<Rightarrow> bytes" where
  "order_bytes big_p vs = (if big_p then rev vs else vs)"

definition sleb_finish :: "bfd_byte \<times> bfd_vma \<times> nat \<times> nat \<Rightarrow> (bfd_vma \<times> nat) result" where
  "sleb_finish = (\<lambda>(byte, result, shift, num_read).
     let result = (if shift < 64 \<and> byte AND 0x40 \<noteq> 0
                   then result OR push_bit shift (- 1) else result)
     in Inr (result, num_read))"

definition sfits :: "nat \<Rightarrow> bfd_vma \<Rightarrow> bool" where
  "sfits s v \<longleftrightarrow> (\<forall>i < 64. 63 \<le> i + s \<longrightarrow> bit v i = bit v 63)"

section \<open>Properties\<close>

subsection \<open>The interface of a get/put pair\<close>

text \<open>
  A field of \<open>n\<close> bytes: \<open>get\<close> and \<open>put\<close> are defined exactly inside the object, a value
  that was put is read back up to its width, a value that was read can be put back without
  an effect, and a put changes the bytes of the field only.
\<close>

locale byte_access =
  fixes get :: "bytes \<Rightarrow> nat \<Rightarrow> bfd_vma result"
    and put :: "bfd_vma \<Rightarrow> bytes \<Rightarrow> nat \<Rightarrow> bytes result"
    and n :: nat
    and decode :: "bytes \<Rightarrow> bfd_vma"
    and encode :: "bfd_vma \<Rightarrow> bytes"
  assumes get_eq: "get p a = rbind (ld p a n) (\<lambda>vs. Inr (decode vs))"
    and put_eq: "put v p a = st p a (encode v)"
    and length_encode: "length (encode v) = n"
    and decode_encode: "decode (encode v) = take_bit (8 * n) v"
    and encode_decode: "length vs = n \<Longrightarrow> encode (decode vs) = vs"
begin

lemma get_in: "a + n \<le> length p \<Longrightarrow> get p a = Inr (decode (take n (drop a p)))"
  by (simp add: get_eq ld_def)

lemma get_fault: "length p < a + n \<Longrightarrow> get p a = Inl Out_of_bounds"
  by (simp add: get_eq ld_def)

lemma get_Inr_iff: "get p a = Inr v \<longleftrightarrow> a + n \<le> length p \<and> v = decode (take n (drop a p))"
  by (auto simp: get_eq ld_def split: if_splits)

lemma put_in: "a + n \<le> length p \<Longrightarrow> put v p a = Inr (splice p a (encode v))"
  by (simp add: put_eq st_def length_encode)

lemma put_fault: "length p < a + n \<Longrightarrow> put v p a = Inl Out_of_bounds"
  by (simp add: put_eq st_def length_encode)

lemma put_Inr_iff: "put v p a = Inr q \<longleftrightarrow> a + n \<le> length p \<and> q = splice p a (encode v)"
  by (auto simp: put_eq st_def length_encode split: if_splits)

lemma put_length: "put v p a = Inr q \<Longrightarrow> length q = length p"
  by (auto simp: put_Inr_iff length_encode)

lemma get_put: "put v p a = Inr q \<Longrightarrow> get q a = Inr (take_bit (8 * n) v)"
  by (auto simp: put_Inr_iff get_eq ld_splice length_encode decode_encode)

lemma put_back: "get p a = Inr v \<Longrightarrow> put v p a = Inr p"
  by (auto simp: get_Inr_iff put_Inr_iff encode_decode splice_same)

lemma put_disjoint:
  "put v p a = Inr q \<Longrightarrow> b + m \<le> a \<or> a + n \<le> b \<Longrightarrow> take m (drop b q) = take m (drop b p)"
  by (auto simp: put_Inr_iff length_encode take_drop_splice_disjoint)

lemma put_nth: "put v p a = Inr q \<Longrightarrow> i < a \<or> a + n \<le> i \<Longrightarrow> i < length p \<Longrightarrow> q ! i = p ! i"
  by (auto simp: put_Inr_iff length_encode nth_splice)

end

lemmas getput_defs =
  bfd_getb16_def bfd_getl16_def bfd_getb32_def bfd_getl32_def bfd_getb64_def bfd_getl64_def
  bfd_putb16_def bfd_putl16_def bfd_putb32_def bfd_putl32_def bfd_putb64_def bfd_putl64_def

lemma list_2_nth: "length xs = 2 \<Longrightarrow> \<exists>a b. xs = [a, b]"
  by (auto simp: numeral_2_eq_2 length_Suc_conv)

lemma list_4_nth: "length xs = 4 \<Longrightarrow> \<exists>a b c d. xs = [a, b, c, d]"
  by (auto simp: eval_nat_numeral length_Suc_conv)

lemma list_8_nth: "length xs = 8 \<Longrightarrow> \<exists>a b c d e f g h. xs = [a, b, c, d, e, f, g, h]"
  by (auto simp: eval_nat_numeral length_Suc_conv)

subsection \<open>Fields of any number of bytes\<close>

lemma length_le_bytes [simp]: "length (le_bytes i n d) = n - i"
  by (simp add: le_bytes_def)

lemma le_bytes_Cons: "i < n \<Longrightarrow> le_bytes i n d = ucast (drop_bit (8 * i) d) # le_bytes (Suc i) n d"
  by (simp add: le_bytes_def upt_rec)

lemma ucast_and_ff: "(ucast (x AND 0xff :: bfd_vma) :: bfd_byte) = ucast x"
  by (simp add: word_bits)

lemma put_bits_loop_little:
  "i \<le> n \<Longrightarrow> a + n \<le> length p \<Longrightarrow>
   put_bits_loop n i (drop_bit (8 * i) d) p a False = Inr (splice p (a + i) (le_bytes i n d))"
proof (induction "n - i" arbitrary: i p)
  case 0
  then show ?case by (simp add: put_bits_loop.simps le_bytes_def)
next
  case (Suc k)
  then have "i < n" by simp
  with Suc have "put_bits_loop n i (drop_bit (8 * i) d) p a False =
      put_bits_loop n (i + 1) (drop_bit (8 * (i + 1)) d) (p[a + i := ucast (drop_bit (8 * i) d)]) a False"
    by (subst put_bits_loop.simps) (simp add: ucast_and_ff)
  also have "\<dots> = Inr (splice p (a + i) (le_bytes i n d))"
    using Suc \<open>i < n\<close> by (subst Suc(1)) (auto simp: splice_Cons le_bytes_Cons)
  finally show ?case .
qed

lemma put_bits_loop_big:
  "i \<le> n \<Longrightarrow> a + n \<le> length p \<Longrightarrow>
   put_bits_loop n i (drop_bit (8 * i) d) p a True = Inr (splice p a (rev (le_bytes i n d)))"
proof (induction "n - i" arbitrary: i p)
  case 0
  then show ?case by (simp add: put_bits_loop.simps le_bytes_def)
next
  case (Suc k)
  then have "i < n" by simp
  have "put_bits_loop n i (drop_bit (8 * i) d) p a True =
      put_bits_loop n (i + 1) (drop_bit (8 * (i + 1)) d) (p[a + (n - Suc i) := ucast (drop_bit (8 * i) d)]) a True"
    using Suc \<open>i < n\<close> by (subst put_bits_loop.simps) (simp add: ucast_and_ff)
  also have "\<dots> = Inr (splice p a (rev (le_bytes i n d)))"
    using Suc \<open>i < n\<close> splice_snoc [of a "rev (le_bytes (Suc i) n d)" p]
    by (subst Suc(1)) (auto simp: le_bytes_Cons)
  finally show ?case .
qed

lemma put_bits_loop_fault:
  "i < n \<Longrightarrow> length p < a + n - (if big_p then i else 0) \<Longrightarrow> put_bits_loop n i d p a big_p = Inl Out_of_bounds"
proof (induction "n - i" arbitrary: i p d)
  case (Suc k)
  show ?case
  proof (cases "i + 1 < n \<and> \<not> big_p")
    case True
    with Suc show ?thesis by (subst put_bits_loop.simps) (auto simp: wr8_def)
  next
    case False
    with Suc have "length p \<le> a + (if big_p then n - i - 1 else i)" by auto
    with Suc show ?thesis by (subst put_bits_loop.simps) (simp add: wr8_def)
  qed
qed simp

lemma bfd_put_bits_eq:
  assumes "0 < n"
  shows "bfd_put_bits d p a (8 * int n) big_p = st p a (order_bytes big_p (le_bytes 0 n d))"
proof (cases "a + n \<le> length p")
  case True
  with put_bits_loop_little [of 0 n a p d] put_bits_loop_big [of 0 n a p d] show ?thesis
    by (simp add: bfd_put_bits_def order_bytes_def st_def)
next
  case False
  with assms show ?thesis
    by (simp add: bfd_put_bits_def order_bytes_def st_def put_bits_loop_fault)
qed

lemma get_bits_loop_big:
  "i \<le> n \<Longrightarrow> a + n \<le> length p \<Longrightarrow>
   get_bits_loop n i d p a True = Inr (be_value d (take (n - i) (drop (a + i) p)))"
proof (induction "n - i" arbitrary: i d)
  case 0
  then show ?case by (simp add: get_bits_loop.simps be_value_def)
next
  case (Suc k)
  then have "i < n" by simp
  with Suc have "take (n - i) (drop (a + i) p) = p ! (a + i) # take (n - Suc i) (drop (a + Suc i) p)"
    by (simp add: take_Cons' Cons_nth_drop_Suc [symmetric])
  with Suc \<open>i < n\<close> show ?case by (subst get_bits_loop.simps) (simp add: be_value_def)
qed

lemma get_bits_loop_little:
  "i \<le> n \<Longrightarrow> a + n \<le> length p \<Longrightarrow>
   get_bits_loop n i d p a False = Inr (be_value d (rev (take (n - i) (drop a p))))"
proof (induction "n - i" arbitrary: i d)
  case 0
  then show ?case by (simp add: get_bits_loop.simps be_value_def)
next
  case (Suc k)
  then have "i < n" by simp
  with Suc have "take (n - i) (drop a p) = take (n - Suc i) (drop a p) @ [p ! (a + (n - Suc i))]"
    using take_Suc_conv_app_nth [of "n - Suc i" "drop a p"] by (simp add: Suc_diff_Suc)
  with Suc \<open>i < n\<close> show ?case by (subst get_bits_loop.simps) (simp add: be_value_def)
qed

lemma get_bits_loop_fault:
  "i < n \<Longrightarrow> length p < a + n - (if big_p then 0 else i) \<Longrightarrow> get_bits_loop n i d p a big_p = Inl Out_of_bounds"
proof (induction "n - i" arbitrary: i d)
  case (Suc k)
  show ?case
  proof (cases "i + 1 < n \<and> big_p")
    case True
    with Suc show ?thesis by (subst get_bits_loop.simps) (auto simp: rd8_def)
  next
    case False
    with Suc have "length p \<le> a + (if big_p then i else n - i - 1)" by auto
    with Suc show ?thesis by (subst get_bits_loop.simps) (simp add: rd8_def)
  qed
qed simp

lemma bfd_get_bits_eq:
  assumes "0 < n"
  shows "bfd_get_bits p a (8 * int n) big_p =
     rbind (ld p a n) (\<lambda>vs. Inr (be_value 0 (order_bytes (\<not> big_p) vs)))"
proof (cases "a + n \<le> length p")
  case True
  then show ?thesis
    by (cases big_p) (simp_all add: bfd_get_bits_def order_bytes_def ld_def
       get_bits_loop_big get_bits_loop_little)
next
  case False
  with assms show ?thesis
    by (simp add: bfd_get_bits_def ld_def get_bits_loop_fault)
qed

lemma be_value_le_bytes:
  "i \<le> n \<Longrightarrow> be_value 0 (rev (le_bytes i n d)) = take_bit (8 * (n - i)) (drop_bit (8 * i) d)"
proof (induction "n - i" arbitrary: i)
  case 0
  then show ?case by (simp add: le_bytes_def be_value_def)
next
  case (Suc k)
  have IH: "be_value 0 (rev (le_bytes (Suc i) n d)) = take_bit (8 * (n - Suc i)) (drop_bit (8 * Suc i) d)"
    by (rule Suc) (use Suc in auto)
  from Suc have "be_value 0 (rev (le_bytes i n d)) =
     push_bit 8 (be_value 0 (rev (le_bytes (Suc i) n d))) OR ucast (ucast (drop_bit (8 * i) d) :: bfd_byte)"
    by (simp add: le_bytes_Cons be_value_def)
  also have "\<dots> = take_bit (8 * (n - i)) (drop_bit (8 * i) d)"
    unfolding IH
  proof (rule bit_word_eqI)
    fix j assume "j < LENGTH(64)"
    with Suc show "bit (push_bit 8 (take_bit (8 * (n - Suc i)) (drop_bit (8 * Suc i) d)) OR
       ucast (ucast (drop_bit (8 * i) d) :: bfd_byte)) j = bit (take_bit (8 * (n - i)) (drop_bit (8 * i) d)) j"
      by (cases "8 \<le> j") (auto simp: bit_simps elim!: le_Suc_ex [elim_format])
  qed
  finally show ?case .
qed

lemma le_bytes_small:
  "le_bytes 0 (Suc 0) d = [ucast d]"
  "le_bytes 0 2 d = [ucast d, ucast (drop_bit 8 d)]"
  "le_bytes 0 4 d = [ucast d, ucast (drop_bit 8 d), ucast (drop_bit 16 d), ucast (drop_bit 24 d)]"
  "le_bytes 0 8 d = [ucast d, ucast (drop_bit 8 d), ucast (drop_bit 16 d), ucast (drop_bit 24 d),
    ucast (drop_bit 32 d), ucast (drop_bit 40 d), ucast (drop_bit 48 d), ucast (drop_bit 56 d)]"
  by (simp_all add: le_bytes_def upt_rec)

lemma put_bits_special:
  "bfd_put_bits d p a 8 big_p = bfd_put_8 d p a"
  "bfd_put_bits d p a 16 big_p = (if big_p then bfd_putb16 d p a else bfd_putl16 d p a)"
  "bfd_put_bits d p a 32 big_p = (if big_p then bfd_putb32 d p a else bfd_putl32 d p a)"
  "bfd_put_bits d p a 64 big_p = (if big_p then bfd_putb64 d p a else bfd_putl64 d p a)"
  using bfd_put_bits_eq [of 1 d p a big_p] bfd_put_bits_eq [of 2 d p a big_p]
    bfd_put_bits_eq [of 4 d p a big_p] bfd_put_bits_eq [of 8 d p a big_p]
  by (cases big_p; simp add: le_bytes_small order_bytes_def getput_defs ucast_and_ff bfd_put_8_def st_def
     wr8_def splice_update1 Suc_le_eq)+

lemma be_value_small:
  "be_value 0 [b0] = ucast b0"
  "be_value 0 [b0,b1] = push_bit 8 (ucast b0) OR ucast b1"
  "be_value 0 [b0,b1,b2,b3] = push_bit 24 (ucast b0) OR push_bit 16 (ucast b1) OR push_bit 8 (ucast b2) OR ucast b3"
  "be_value 0 [b0,b1,b2,b3,b4,b5,b6,b7] = push_bit 56 (ucast b0) OR push_bit 48 (ucast b1) OR push_bit 40 (ucast b2)
     OR push_bit 32 (ucast b3) OR push_bit 24 (ucast b4) OR push_bit 16 (ucast b5) OR push_bit 8 (ucast b6) OR ucast b7"
  by (simp_all add: be_value_def push_bit_or or.assoc)

lemma get_bits_special:
  "bfd_get_bits p a 8 big_p = bfd_get_8 p a"
  "bfd_get_bits p a 16 big_p = (if big_p then bfd_getb16 p a else bfd_getl16 p a)"
  "bfd_get_bits p a 32 big_p = (if big_p then bfd_getb32 p a else bfd_getl32 p a)"
  "bfd_get_bits p a 64 big_p = (if big_p then bfd_getb64 p a else bfd_getl64 p a)"
proof -
  show "bfd_get_bits p a 8 big_p = bfd_get_8 p a"
    using bfd_get_bits_eq [of 1 p a big_p]
    by (cases "a + 1 \<le> length p") (auto simp: ld_def order_bytes_def bfd_get_8_def rd8_def be_value_def take_Suc_conv_app_nth
       word_bits)
  show "bfd_get_bits p a 16 big_p = (if big_p then bfd_getb16 p a else bfd_getl16 p a)"
    using bfd_get_bits_eq [of 2 p a big_p]
    by (cases "ld p a 2") (auto simp: order_bytes_def getput_defs be_value_small dest!: ld_length list_2_nth)
  show "bfd_get_bits p a 32 big_p = (if big_p then bfd_getb32 p a else bfd_getl32 p a)"
    using bfd_get_bits_eq [of 4 p a big_p]
    by (cases "ld p a 4") (auto simp: order_bytes_def getput_defs Let_def be_value_small or.assoc or.commute or.left_commute
      dest!: ld_length list_4_nth)
  show "bfd_get_bits p a 64 big_p = (if big_p then bfd_getb64 p a else bfd_getl64 p a)"
    using bfd_get_bits_eq [of 8 p a big_p]
    by (cases "ld p a 8") (auto simp: order_bytes_def getput_defs Let_def be_value_small push_bit_or or.assoc
      dest!: ld_length list_8_nth)
qed

subsection \<open>Every get and put pair is an instance\<close>

lemma be_value_snoc: "be_value d (vs @ [v]) = push_bit 8 (be_value d vs) OR ucast v"
  by (simp add: be_value_def)

lemma be_value_small_bound: "length vs \<le> 8 \<Longrightarrow> take_bit (8 * length vs) (be_value 0 vs) = be_value 0 vs"
proof (induction vs rule: rev_induct)
  case Nil
  then show ?case by (simp add: be_value_def)
next
  case (snoc v vs)
  then have IH: "take_bit (8 * length vs) (be_value 0 vs) = be_value 0 vs" by simp
  have b: "bit (be_value 0 vs) i \<Longrightarrow> i < 8 * length vs" for i
    by (metis IH bit_take_bit_iff)
  show ?case
    unfolding be_value_snoc
    by (rule bit_word_eqI) (auto simp: bit_simps dest: b bit_imp_le_length)
qed

lemma le_bytes_be_value: "length vs \<le> 8 \<Longrightarrow> le_bytes 0 (length vs) (be_value 0 (rev vs)) = vs"
proof (induction vs)
  case Nil
  then show ?case by (simp add: le_bytes_def)
next
  case (Cons v vs)
  let ?x = "be_value 0 (rev vs)"
  have "take_bit (8 * length vs) ?x = ?x"
    using be_value_small_bound [of "rev vs"] Cons by simp
  moreover have "8 * length vs \<le> 56" using Cons by simp
  ultimately have b: "bit ?x i \<Longrightarrow> i < 56" for i
    by (metis bit_take_bit_iff order_less_le_trans)
  have 1: "ucast (push_bit 8 ?x OR ucast v) = v"
    by (rule bit_word_eqI) (auto simp: bit_simps)
  have 2: "drop_bit 8 (push_bit 8 ?x OR ucast v) = ?x"
    by (rule bit_word_eqI) (auto simp: bit_simps dest: b bit_imp_le_length)
  have "le_bytes 0 (Suc (length vs)) d = ucast d # le_bytes 0 (length vs) (drop_bit 8 d)" for d
    unfolding le_bytes_def upt_conv_Cons [OF zero_less_Suc] map_Suc_upt [symmetric]
    by (simp add: comp_def add.commute del: upt_Suc)
  with Cons show ?case
    by (simp add: be_value_snoc 1 2 del: drop_bit_or)
qed

lemma order_order: "order_bytes (\<not> b) (order_bytes b vs) = rev vs" "rev (order_bytes (\<not> b) vs) = order_bytes b vs"
  "length (order_bytes b vs) = length vs" "order_bytes b (order_bytes b vs) = vs"
  by (simp_all add: order_bytes_def)

lemma byte_access_bits:
  assumes "0 < n" "n \<le> 8"
  shows "byte_access (\<lambda>p a. bfd_get_bits p a (8 * int n) big) (\<lambda>v p a. bfd_put_bits v p a (8 * int n) big) n
     (\<lambda>vs. be_value 0 (order_bytes (\<not> big) vs)) (\<lambda>v. order_bytes big (le_bytes 0 n v))"
proof
  fix p :: bytes and vs :: bytes and a v
  show "bfd_get_bits p a (8 * int n) big = rbind (ld p a n) (\<lambda>vs. Inr (be_value 0 (order_bytes (\<not> big) vs)))"
    by (rule bfd_get_bits_eq [OF assms(1)])
  show "bfd_put_bits v p a (8 * int n) big = st p a (order_bytes big (le_bytes 0 n v))"
    by (rule bfd_put_bits_eq [OF assms(1)])
  show "length (order_bytes big (le_bytes 0 n v)) = n" by (simp add: order_order)
  show "be_value 0 (order_bytes (\<not> big) (order_bytes big (le_bytes 0 n v))) = take_bit (8 * n) v"
    using be_value_le_bytes [of 0 n v] by (simp add: order_order)
  assume "length vs = n"
  then show "order_bytes big (le_bytes 0 n (be_value 0 (order_bytes (\<not> big) vs))) = vs"
    using le_bytes_be_value [of "order_bytes big vs"] assms
    by (simp add: order_order) (simp add: order_bytes_def split: if_splits)
qed

interpretation x8: byte_access bfd_get_8 bfd_put_8 1 "\<lambda>vs. be_value 0 vs" "\<lambda>v. rev (le_bytes 0 1 v)"
  using byte_access_bits [of 1 True]
  by (simp add: get_bits_special [abs_def] put_bits_special [abs_def] order_bytes_def)

interpretation b16: byte_access bfd_getb16 bfd_putb16 2
  "\<lambda>vs. be_value 0 (vs)" "\<lambda>v. rev (le_bytes 0 2 v)"
  using byte_access_bits [of 2 True]
  by (simp add: get_bits_special [abs_def] put_bits_special [abs_def] order_bytes_def)

interpretation l16: byte_access bfd_getl16 bfd_putl16 2
  "\<lambda>vs. be_value 0 (rev vs)" "\<lambda>v. le_bytes 0 2 v"
  using byte_access_bits [of 2 False]
  by (simp add: get_bits_special [abs_def] put_bits_special [abs_def] order_bytes_def)

interpretation b32: byte_access bfd_getb32 bfd_putb32 4
  "\<lambda>vs. be_value 0 (vs)" "\<lambda>v. rev (le_bytes 0 4 v)"
  using byte_access_bits [of 4 True]
  by (simp add: get_bits_special [abs_def] put_bits_special [abs_def] order_bytes_def)

interpretation l32: byte_access bfd_getl32 bfd_putl32 4
  "\<lambda>vs. be_value 0 (rev vs)" "\<lambda>v. le_bytes 0 4 v"
  using byte_access_bits [of 4 False]
  by (simp add: get_bits_special [abs_def] put_bits_special [abs_def] order_bytes_def)

interpretation b64: byte_access bfd_getb64 bfd_putb64 8
  "\<lambda>vs. be_value 0 (vs)" "\<lambda>v. rev (le_bytes 0 8 v)"
  using byte_access_bits [of 8 True]
  by (simp add: get_bits_special [abs_def] put_bits_special [abs_def] order_bytes_def)

interpretation l64: byte_access bfd_getl64 bfd_putl64 8
  "\<lambda>vs. be_value 0 (rev vs)" "\<lambda>v. le_bytes 0 8 v"
  using byte_access_bits [of 8 False]
  by (simp add: get_bits_special [abs_def] put_bits_special [abs_def] order_bytes_def)

subsection \<open>Sign extension and logarithm\<close>

lemma coerce:
  assumes "take_bit (Suc k) x = x" "k < 64"
  shows "(x XOR push_bit k 1) - push_bit k 1 = signed_take_bit k (x :: bfd_vma)"
proof -
  have small: "bit x i \<Longrightarrow> i \<le> k" for i
    by (metis assms(1) bit_take_bit_iff less_Suc_eq_le)
  show ?thesis
  proof (cases "bit x k")
    case False
    then have "x AND push_bit k 1 = 0"
      by (intro bit_word_eqI) (auto simp: bit_simps)
    then have "(x XOR push_bit k 1) - push_bit k 1 = x"
      by (simp add: disjunctive_xor_eq_or flip: disjunctive_add_eq_or)
    moreover have "signed_take_bit k x = x"
      using False small by (intro bit_word_eqI) (auto simp: bit_simps min_def, (metis le_antisym)?)
    ultimately show ?thesis by simp
  next
    case True
    have "- push_bit k 1 = (NOT (mask k) :: bfd_vma)"
      by (simp add: minus_exp_eq_not_mask push_bit_eq_mult)
    moreover have "(x XOR push_bit k 1) AND NOT (mask k) = 0"
      using True small by (intro bit_word_eqI) (auto simp: bit_simps not_less intro: le_antisym)
    ultimately have "(x XOR push_bit k 1) - push_bit k 1 = (x XOR push_bit k 1) OR NOT (mask k)"
      by (metis disjunctive_add_eq_or diff_conv_add_uminus)
    also have "\<dots> = signed_take_bit k x"
      using True small by (intro bit_word_eqI) (auto simp: bit_simps min_def dest: le_antisym) 
    finally show ?thesis .
  qed
qed

lemma coerce16: "take_bit 16 x = x \<Longrightarrow> COERCE16 x = signed_take_bit 15 x"
  using coerce [of 15 x] by (simp add: COERCE16_def)
lemma coerce32: "take_bit 32 x = x \<Longrightarrow> COERCE32 x = signed_take_bit 31 x"
  using coerce [of 31 x] by (simp add: COERCE32_def)
lemma top_bit: "63 \<le> n \<Longrightarrow> n < 64 \<Longrightarrow> n = (63 :: nat)"
  by linarith

lemma coerce64: "COERCE64 x = x"
proof -
  have "signed_take_bit 63 x = x"
    by (rule bit_word_eqI) (auto simp: bit_signed_take_bit_iff min_def dest: top_bit)
  then show ?thesis
    using coerce [of 63 x] by (simp add: COERCE64_def take_bit_word_eq_self)
qed

lemma log2_loop_bounds:
  "y \<noteq> 0 \<Longrightarrow> \<exists>k. log2_loop y r = r + Suc k \<and> 2 ^ k \<le> unat y \<and> unat y < 2 ^ Suc k"
proof (induction y r rule: log2_loop.induct)
  case (1 y r)
  have d: "unat (drop_bit 1 y) = unat y div 2"
    by (simp only: unat_drop_bit_eq) (simp only: drop_bit_eq_div power_one_right)
  show ?case
  proof (cases "drop_bit 1 y = 0")
    case True
    then have "unat y div 2 = 0" using d by simp
    moreover have "unat y \<noteq> 0" using 1(2) by (simp add: unat_eq_0)
    ultimately have "log2_loop y r = r + Suc 0 \<and> 2 ^ 0 \<le> unat y \<and> unat y < 2 ^ Suc 0"
      using True by (subst log2_loop.simps) (auto simp: Let_def)
    then show ?thesis by blast
  next
    case False
    from 1(1) [OF refl refl False False] obtain k where
      "log2_loop (drop_bit 1 y) (r + 1) = r + 1 + Suc k" "2 ^ k \<le> unat y div 2" "unat y div 2 < 2 ^ Suc k"
      unfolding d by blast
    with False have "log2_loop y r = r + Suc (Suc k) \<and> 2 ^ Suc k \<le> unat y \<and> unat y < 2 ^ Suc (Suc k)"
      by (subst log2_loop.simps) (auto simp: Let_def)
    then show ?thesis by blast
  qed
qed

subsection \<open>LEB128\<close>

lemma and_7f: "v AND 0x7f = take_bit 7 (v :: bfd_vma)"
  by (simp add: take_bit_eq_mask mask_eq_exp_minus_1)

lemma leb_split: "push_bit s (take_bit 7 v) OR push_bit (s + 7) (drop_bit 7 v) = push_bit s (v :: bfd_vma)"
proof (rule bit_word_eqI)
  fix i assume "i < LENGTH(64)"
  then show "bit (push_bit s (take_bit 7 v) OR push_bit (s + 7) (drop_bit 7 v)) i = bit (push_bit s v) i"
    by (cases "s + 7 \<le> i"; cases "s \<le> i") (auto simp: bit_simps elim!: le_Suc_ex [elim_format])
qed

lemma leb_payload:
  "take_bit 7 (ucast (ucast (take_bit 7 x OR 0x80 :: bfd_vma) :: bfd_byte)) = take_bit 7 x"
  "take_bit 7 (ucast (ucast (take_bit 7 x :: bfd_vma) :: bfd_byte)) = take_bit 7 x"
  by (simp_all add: word_bits)

lemma leb_continue:
  "(ucast (take_bit 7 x OR 0x80 :: bfd_vma) :: bfd_byte) AND 0x80 \<noteq> 0"
  "(ucast (take_bit 7 x :: bfd_vma) :: bfd_byte) AND 0x80 = 0"
  by (simp_all add: word_bits)

lemmas leb_step = and_7f leb_payload leb_continue

lemma drop_bit_7_room: 
  assumes "take_bit (64 - s) v = (v::bfd_vma)" "drop_bit 7 v \<noteq> 0" "s < 64"
  shows "s + 7 < 64" "take_bit (64 - (s + 7)) (drop_bit 7 v) = drop_bit 7 v"
proof -
  have b: "bit v i \<Longrightarrow> i < 64 - s" for i
    by (metis assms(1) bit_take_bit_iff)
  obtain i where "bit (drop_bit 7 v) i" using assms(2) by (metis bit_eqI bit_0_eq bot_apply bot_bool_def)
  then have "bit v (i + 7)" by (simp add: bit_simps add.commute)
  then show "s + 7 < 64" using b [of "i + 7"] by simp
  show "take_bit (64 - (s + 7)) (drop_bit 7 v) = drop_bit 7 v"
    by (rule bit_word_eqI) (use b in \<open>force simp: bit_simps\<close>)
qed

lemma uleb128_loop_output:
  "take_bit (64 - s) v = v \<Longrightarrow> s < 64 \<Longrightarrow>
   \<exists>b. uleb128_loop (output_uleb128 v @ rest) r s k =
     Inr (b, r OR push_bit s v, s + 7 * length (output_uleb128 v), k + length (output_uleb128 v))"
proof (induction v arbitrary: r s k rule: output_uleb128.induct)
  case (1 v)
  show ?case
  proof (cases "drop_bit 7 v = 0")
    case True
    then have "push_bit s (take_bit 7 v) = push_bit s v"
      using leb_split [of s v] by simp
    with True 1 show ?thesis
      by (simp add: output_uleb128.simps [of v] Let_def leb_step)
  next
    case False
    note room = drop_bit_7_room [OF 1(2) False 1(3)]
    from 1(1) [OF refl refl False room(2,1), of "r OR push_bit s (take_bit 7 v)" "k + 1"]
    show ?thesis using False 1(3) leb_split [of s v]
      by (simp add: output_uleb128.simps [of v] Let_def leb_step or.assoc algebra_simps)
  qed
qed

lemma bit_sleb128_shift: "i < 64 \<Longrightarrow> bit (sleb128_shift v) i = bit v (if i < 57 then i + 7 else 63)"
proof -
  assume "i < 64"
  moreover have "LENGTH(64) - Suc 0 = 63" "LENGTH(64) - 7 = 57" "LENGTH(64) = 64" by simp_all
  ultimately show ?thesis
    unfolding sleb128_shift_def by (simp add: bit_signed_drop_bit_iff bit_or_iff bit_not_iff ac_simps del: len_of_numeral_defs)
qed

lemma sleb_split: "push_bit s (take_bit 7 v) OR push_bit (s + 7) (sleb128_shift v) = push_bit s v"
proof (rule bit_word_eqI)
  fix i assume "i < LENGTH(64)"
  then show "bit (push_bit s (take_bit 7 v) OR push_bit (s + 7) (sleb128_shift v)) i = bit (push_bit s v) i"
    by (cases "s + 7 \<le> i"; cases "s \<le> i") (auto simp: bit_sleb128_shift bit_simps elim!: le_Suc_ex [elim_format])
qed



lemma leb_sign:
  "(ucast (take_bit 7 x OR 0x80 :: bfd_vma) :: bfd_byte) AND 0x40 \<noteq> 0 \<longleftrightarrow> bit x 6"
  "(ucast (take_bit 7 x :: bfd_vma) :: bfd_byte) AND 0x40 \<noteq> 0 \<longleftrightarrow> bit x 6"
  "take_bit 7 x AND 0x40 \<noteq> 0 \<longleftrightarrow> bit x 6"
  by (simp_all add: word_bits)
lemma leb_sign':
  "(ucast (take_bit 7 x :: bfd_vma) :: bfd_byte) AND 0x40 = 0 \<longleftrightarrow> \<not> bit x 6"
  "take_bit 7 x AND 0x40 = 0 \<longleftrightarrow> \<not> bit x 6"
  using leb_sign by blast+

lemma sfitsD: "sfits s v \<Longrightarrow> i < 64 \<Longrightarrow> 63 \<le> i + s \<Longrightarrow> bit v i = bit v 63"
  unfolding sfits_def by blast

lemma sfits_shift: "sfits s v \<Longrightarrow> sfits (s + 7) (sleb128_shift v)"
  unfolding sfits_def [of "s + 7"]
proof (intro allI impI)
  fix i :: nat assume fit: "sfits s v" and i: "i < 64" "63 \<le> i + (s + 7)"
  have "i < 57 \<Longrightarrow> bit v (i + 7) = bit v 63"
    by (rule sfitsD [OF fit]) (use i in linarith)+
  with i(1) show "bit (sleb128_shift v) i = bit (sleb128_shift v) 63"
    by (simp add: bit_sleb128_shift)
qed

lemma sfits_room: "sfits s v \<Longrightarrow> sleb128_more (sleb128_shift v) (take_bit 7 v) \<Longrightarrow> s + 7 < 64"
proof (rule ccontr)
  assume fit: "sfits s v" and more: "sleb128_more (sleb128_shift v) (take_bit 7 v)"
     and "\<not> s + 7 < 64"
  then have b: "6 \<le> i \<Longrightarrow> i < 64 \<Longrightarrow> bit v i = bit v 63" for i
    by (intro sfitsD [OF fit]) linarith+
  have "bit (sleb128_shift v) i = bit v 6" if "i < 64" for i
    using that b [of "i + 7"] b [of 6] by (simp add: bit_sleb128_shift)
  then have "sleb128_shift v = (if bit v 6 then - 1 else 0)"
    by (intro bit_word_eqI) simp
  with more show False by (simp add: sleb128_more_def leb_sign' split: if_splits)
qed

lemma push_big: "\<not> s < 57 \<Longrightarrow> push_bit (s + 7) (x::bfd_vma) = 0"
  by (rule bit_word_eqI) (simp add: bit_simps)

lemma sleb128_loop_output:
  "sfits s v \<Longrightarrow> s < 64 \<Longrightarrow>
   rbind (uleb128_loop (output_sleb128 v @ rest) r s k) sleb_finish =
     Inr (r OR push_bit s v, k + length (output_sleb128 v))"
proof (induction v arbitrary: r s k rule: output_sleb128.induct)
  case (1 v)
  show ?case
  proof (cases "sleb128_more (sleb128_shift v) (take_bit 7 v)")
    case False
    from False have "sleb128_shift v = (if bit v 6 then - 1 else 0)"
      by (auto simp: sleb128_more_def leb_sign')
    then have "push_bit s v = push_bit s (take_bit 7 v) OR (if bit v 6 \<and> s + 7 < 64 then push_bit (s + 7) (- 1) else 0)"
      using sleb_split [of s v, symmetric] by (cases "s + 7 < 64") (simp_all add: push_big)
    with False 1 show ?thesis
      by (simp add: output_sleb128.simps [of v] Let_def leb_step leb_sign' sleb_finish_def or.assoc)
  next
    case True
    note room = sfits_room [OF 1(2) True]
    from 1(1) [OF refl refl True [folded and_7f] sfits_shift [OF 1(2)] room, of "r OR push_bit s (take_bit 7 v)" "k + 1"]
    show ?thesis using True 1(3)
      by (simp add: output_sleb128.simps [of v] Let_def leb_step or.assoc sleb_split)
  qed
qed

lemma sfits_0: "sfits 0 v"
proof -
  have "i = 63" if "i < 64" "63 \<le> i + (0 :: nat)" for i
    using that by linarith
  then show ?thesis
    unfolding sfits_def by blast
qed

lemma safe_loop:
  "uleb128_loop buf r s k = Inr x \<Longrightarrow> safe_leb128_loop buf b r s k = Inr x"
  by (induction buf r s k arbitrary: b rule: uleb128_loop.induct)
     (auto simp: Let_def unsigned_and_eq split: if_splits)

lemma sizeof_uleb_loop: "sizeof_uleb128_loop v n = n + length (output_uleb128 v)"
proof (induction v arbitrary: n rule: output_uleb128.induct)
  case (1 v)
  then show ?case
    by (subst sizeof_uleb128_loop.simps, subst output_uleb128.simps) (simp add: Let_def)
qed

lemma sizeof_sleb_loop: "sizeof_sleb128_loop v n = n + length (output_sleb128 v)"
proof (induction v arbitrary: n rule: output_sleb128.induct)
  case (1 v)
  then show ?case
    by (subst sizeof_sleb128_loop.simps, subst output_sleb128.simps) (simp add: Let_def)
qed

lemma uleb128_read: "bfd_read_unsigned_leb128 (output_uleb128 v @ rest) = Inr (v, length (output_uleb128 v))"
  using uleb128_loop_output [of 0 v rest 0 0] by (auto simp: bfd_read_unsigned_leb128_def take_bit_word_eq_self)

lemma sleb128_read: "bfd_read_signed_leb128 (output_sleb128 v @ rest) = Inr (v, length (output_sleb128 v))"
  using sleb128_loop_output [OF sfits_0, of v rest 0 0]
  by (simp add: bfd_read_signed_leb128_def sleb_finish_def)

lemma safe_read_unsigned:
  "bfd_read_unsigned_leb128 buf = Inr x \<Longrightarrow> bfd_safe_read_leb128 buf False = Inr x"
  by (auto simp: bfd_read_unsigned_leb128_def bfd_safe_read_leb128_def rbind_Inr_iff
    dest!: safe_loop [where b = 0])

lemma safe_read_signed:
  "bfd_read_signed_leb128 buf = Inr x \<Longrightarrow> bfd_safe_read_leb128 buf True = Inr x"
  by (cases "uleb128_loop buf 0 0 0")
     (auto simp: bfd_read_signed_leb128_def bfd_safe_read_leb128_def safe_loop
        minus_exp_eq_not_mask push_bit_eq_mult [of _ 1])

lemma uleb128_loop_too_long:
  "list_all (\<lambda>b. b AND 0x80 \<noteq> 0) bs \<Longrightarrow> 64 \<le> s + 7 * length bs \<Longrightarrow>
   uleb128_loop (bs @ b # rest) r s k = Inl Undefined_shift"
  by (induction bs arbitrary: r s k) (auto simp: Let_def)

section \<open>Properties of the encodings\<close>

text \<open>
  C20: a number stored with \<open>bfd_put_bits\<close> in any positive number of bytes, in either byte
  order, is read back by \<open>bfd_get_bits\<close> at the same place, cut to the width of the field.
\<close>

theorem bits_roundtrip:
  assumes "0 < n" and "bfd_put_bits d p a (8 * int n) big_p = Inr q"
  shows "bfd_get_bits q a (8 * int n) big_p = Inr (take_bit (8 * n) d)"
  using assms be_value_le_bytes [of 0 n d]
  by (auto simp: bfd_put_bits_eq bfd_get_bits_eq st_Inr_iff ld_splice order_bytes_def)

theorem bits_roundtrip_witness:
  "bfd_put_bits 0x123456 [1, 2, 3, 4] 1 24 True = Inr [1, 0x12, 0x34, 0x56] \<and>
   bfd_get_bits [1, 0x12, 0x34, 0x56] 1 24 True = Inr 0x123456"
proof -
  have put: "bfd_put_bits 0x123456 [1, 2, 3, 4] 1 (8 * int 3) True = Inr [1, 0x12, 0x34, 0x56]"
    unfolding bfd_put_bits_eq [OF zero_less_numeral]
    by (simp add: order_bytes_def le_bytes_def upt_rec st_def splice_def)
  from bits_roundtrip [OF _ put] put show ?thesis
    by (simp add: take_bit_eq_mask mask_eq_exp_minus_1)
qed

text \<open>
  C21: at the widths of 16, 32 and 64 bits the generic loops agree with the unrolled
  routines of the same byte order, faults included.
\<close>

theorem bits_agree_with_unrolled:
  "bfd_get_bits p a 16 True = bfd_getb16 p a \<and> bfd_get_bits p a 16 False = bfd_getl16 p a \<and>
   bfd_get_bits p a 32 True = bfd_getb32 p a \<and> bfd_get_bits p a 32 False = bfd_getl32 p a \<and>
   bfd_get_bits p a 64 True = bfd_getb64 p a \<and> bfd_get_bits p a 64 False = bfd_getl64 p a \<and>
   bfd_put_bits d p a 16 True = bfd_putb16 d p a \<and> bfd_put_bits d p a 16 False = bfd_putl16 d p a \<and>
   bfd_put_bits d p a 32 True = bfd_putb32 d p a \<and> bfd_put_bits d p a 32 False = bfd_putl32 d p a \<and>
   bfd_put_bits d p a 64 True = bfd_putb64 d p a \<and> bfd_put_bits d p a 64 False = bfd_putl64 d p a"
  by (simp add: get_bits_special put_bits_special)

text \<open>
  C22: every signed read is the sign extension of the unsigned read of the same bytes.
\<close>

theorem signed_gets_sign_extend:
  "bfd_getb_signed_16 p a = rbind (bfd_getb16 p a) (\<lambda>v. Inr (signed_take_bit 15 v)) \<and>
   bfd_getl_signed_16 p a = rbind (bfd_getl16 p a) (\<lambda>v. Inr (signed_take_bit 15 v)) \<and>
   bfd_getb_signed_32 p a = rbind (bfd_getb32 p a) (\<lambda>v. Inr (signed_take_bit 31 v)) \<and>
   bfd_getl_signed_32 p a = rbind (bfd_getl32 p a) (\<lambda>v. Inr (signed_take_bit 31 v)) \<and>
   bfd_getb_signed_64 p a = bfd_getb64 p a \<and> bfd_getl_signed_64 p a = bfd_getl64 p a"
proof (intro conjI)
  show "bfd_getb_signed_16 p a = rbind (bfd_getb16 p a) (\<lambda>v. Inr (signed_take_bit 15 v))"
    by (cases "ld p a 2") (simp_all add: bfd_getb_signed_16_def bfd_getb16_def coerce16 word_bits)
  show "bfd_getl_signed_16 p a = rbind (bfd_getl16 p a) (\<lambda>v. Inr (signed_take_bit 15 v))"
    by (cases "ld p a 2") (simp_all add: bfd_getl_signed_16_def bfd_getl16_def coerce16 word_bits)
  show "bfd_getb_signed_32 p a = rbind (bfd_getb32 p a) (\<lambda>v. Inr (signed_take_bit 31 v))"
    by (cases "ld p a 4") (simp_all add: bfd_getb_signed_32_def bfd_getb32_def Let_def coerce32 word_bits)
  show "bfd_getl_signed_32 p a = rbind (bfd_getl32 p a) (\<lambda>v. Inr (signed_take_bit 31 v))"
    by (cases "ld p a 4") (simp_all add: bfd_getl_signed_32_def bfd_getl32_def Let_def coerce32 word_bits)
qed (simp_all add: bfd_getb_signed_64_def bfd_getl_signed_64_def bfd_getb64_def bfd_getl64_def coerce64)

text \<open>
  C22: \<open>bfd_log2\<close> is the logarithm rounded up: \<open>2 ^ bfd_log2 x\<close> is the least power of two
  that is not below \<open>x\<close>.
\<close>

theorem bfd_log2_spec: "unat x \<le> 2 ^ bfd_log2 x \<and> (1 < x \<longrightarrow> 2 ^ (bfd_log2 x - 1) < unat x)"
proof (cases "x \<le> 1")
  case True
  then show ?thesis by (auto simp: bfd_log2_def word_le_nat_alt word_less_nat_alt)
next
  case False
  then have "1 < unat x" by (simp add: word_le_nat_alt)
  then have "x \<noteq> 0" "x \<noteq> 1" by auto
  then have "x - 1 \<noteq> 0" "unat (x - 1) = unat x - 1"
    by (simp_all add: unat_minus_one)
  with False \<open>1 < unat x\<close> log2_loop_bounds [of "x - 1" 0] show ?thesis
    by (auto simp: bfd_log2_def)
qed

theorem bfd_log2_spec_witness:
  "unat (5 :: bfd_vma) \<le> 2 ^ bfd_log2 5 \<and> 1 < (5 :: bfd_vma) \<and> 2 ^ (bfd_log2 5 - 1) < unat (5 :: bfd_vma)"
  using bfd_log2_spec [of 5] by simp

text \<open>
  C23: what the assembler writes as \<open>.uleb128\<close> or \<open>.sleb128\<close>, every reader of the library
  reads back, whatever bytes follow, and consumes exactly the bytes written.
\<close>

theorem leb128_roundtrip:
  "bfd_read_unsigned_leb128 (output_leb128 v False @ rest) = Inr (v, length (output_leb128 v False)) \<and>
   bfd_read_signed_leb128 (output_leb128 v True @ rest) = Inr (v, length (output_leb128 v True)) \<and>
   bfd_safe_read_leb128 (output_leb128 v sign @ rest) sign = Inr (v, length (output_leb128 v sign))"
  by (cases sign) (simp_all add: output_leb128_def uleb128_read sleb128_read safe_read_unsigned safe_read_signed)

text \<open>
  The size the assembler reserves for a LEB128 number is the number of bytes it later
  writes.
\<close>

theorem sizeof_leb128_exact:
  "sizeof_leb128 val sign = length (output_leb128 val sign)"
  by (simp add: sizeof_leb128_def output_leb128_def sizeof_uleb128_def sizeof_sleb128_def
    sizeof_uleb_loop sizeof_sleb_loop)

text \<open>
  C34: the readers have no bound on the shift: ten or more continuation bytes, which a
  malformed input can hold, make both readers shift a 64-bit number by 64 or more.
\<close>

theorem leb128_overlong_undefined:
  assumes "list_all (\<lambda>b. b AND 0x80 \<noteq> 0) bs" and "10 \<le> length bs"
  shows "bfd_read_unsigned_leb128 (bs @ b # rest) = Inl Undefined_shift \<and>
         bfd_read_signed_leb128 (bs @ b # rest) = Inl Undefined_shift"
  using assms uleb128_loop_too_long [of bs 0 b rest 0 0]
  by (simp add: bfd_read_unsigned_leb128_def bfd_read_signed_leb128_def)

theorem leb128_overlong_undefined_witness:
  "bfd_read_unsigned_leb128 (replicate 10 0x80 @ 0 # []) = Inl Undefined_shift \<and>
   bfd_read_signed_leb128 (replicate 10 0x80 @ 0 # []) = Inl Undefined_shift"
  by (rule leb128_overlong_undefined) (simp_all add: list_all_length)

end
