(* ===== verification/Bfd_Reloc.thy ===== *)
theory Bfd_Reloc
  imports Bfd_Bytes
begin

text \<open>
  The generic relocation engine of \<^verbatim>\<open>bfd/reloc.c\<close>: the overflow check, the range check, and
  the four routines that apply a relocation to the contents of a section
  (\<open>bfd_perform_relocation\<close>, \<open>bfd_install_relocation\<close>, \<open>_bfd_final_link_relocate\<close> with
  \<open>_bfd_relocate_contents\<close>, and \<open>_bfd_clear_contents\<close>), with \<open>bfd_elf_generic_reloc\<close> of
  \<^verbatim>\<open>bfd/elf.c\<close>, the special function of every Fusion relocation.

  Contents are the bytes of a section; a routine returns its status with the contents (and
  the relocation entry) as it leaves them. Of a \<open>bfd\<close> the model keeps what these routines
  ask it for.
\<close>

subsection \<open>Data\<close>

datatype bfd_reloc_status_type =
    bfd_reloc_ok | bfd_reloc_overflow | bfd_reloc_outofrange | bfd_reloc_continue
  | bfd_reloc_notsupported | bfd_reloc_other | bfd_reloc_undefined | bfd_reloc_dangerous

datatype complain_overflow =
    complain_overflow_dont | complain_overflow_bitfield | complain_overflow_signed
  | complain_overflow_unsigned

datatype special_function_type = bfd_elf_generic_reloc_fn

record reloc_howto_type =
  howto_type :: nat
  howto_rightshift :: nat
  howto_size :: int
  howto_bitsize :: nat
  howto_pc_relative :: bool
  howto_bitpos :: nat
  howto_complain :: complain_overflow
  howto_special :: "special_function_type option"
  howto_name :: "string option"
  howto_partial_inplace :: bool
  howto_src_mask :: bfd_vma
  howto_dst_mask :: bfd_vma
  howto_pcrel_offset :: bool

datatype section_kind = Sec_normal | Sec_und | Sec_abs | Sec_com

datatype sec_info_type_t = SEC_INFO_TYPE_NONE | SEC_INFO_TYPE_MERGE | SEC_INFO_TYPE_JUST_SYMS | SEC_INFO_TYPE_OTHER

text \<open>
  The output section of a section is kept as its address, with whether it is the absolute
  section; \<open>None\<close> is the null pointer.
\<close>

record asection =
  sec_name :: string
  sec_kind :: section_kind
  sec_output_vma :: "bfd_vma option"
  sec_output_is_abs :: bool
  sec_output_offset :: bfd_vma
  sec_size :: bfd_vma
  sec_rawsize :: bfd_vma
  sec_debugging :: bool
  sec_merge :: bool
  sec_info_type :: sec_info_type_t

record asymbol =
  sym_value :: bfd_vma
  sym_weak :: bool
  sym_section_sym :: bool
  sym_keep :: bool
  sym_section :: asection

record arelent =
  rel_sym :: asymbol
  rel_address :: bfd_vma
  rel_addend :: bfd_vma
  rel_howto :: "reloc_howto_type option"

record bfd_t =
  bfd_big_endian :: bool
  bfd_bits_per_address :: nat
  bfd_octets_per_byte :: bfd_vma
  bfd_write_direction :: bool
  bfd_coff_not_intel :: bool
  bfd_coff_z8k :: bool

subsection \<open>Access by the byte order of the target\<close>

definition bfd_get_16 :: "bfd_t \<Rightarrow> bytes \<Rightarrow> nat \<Rightarrow> bfd_vma result" where
  "bfd_get_16 abfd p a = (if bfd_big_endian abfd then bfd_getb16 p a else bfd_getl16 p a)"

definition bfd_put_16 :: "bfd_t \<Rightarrow> bfd_vma \<Rightarrow> bytes \<Rightarrow> nat \<Rightarrow> bytes result" where
  "bfd_put_16 abfd v p a = (if bfd_big_endian abfd then bfd_putb16 v p a else bfd_putl16 v p a)"

definition bfd_get_32 :: "bfd_t \<Rightarrow> bytes \<Rightarrow> nat \<Rightarrow> bfd_vma result" where
  "bfd_get_32 abfd p a = (if bfd_big_endian abfd then bfd_getb32 p a else bfd_getl32 p a)"

definition bfd_put_32 :: "bfd_t \<Rightarrow> bfd_vma \<Rightarrow> bytes \<Rightarrow> nat \<Rightarrow> bytes result" where
  "bfd_put_32 abfd v p a = (if bfd_big_endian abfd then bfd_putb32 v p a else bfd_putl32 v p a)"

definition bfd_get_64 :: "bfd_t \<Rightarrow> bytes \<Rightarrow> nat \<Rightarrow> bfd_vma result" where
  "bfd_get_64 abfd p a = (if bfd_big_endian abfd then bfd_getb64 p a else bfd_getl64 p a)"

definition bfd_put_64 :: "bfd_t \<Rightarrow> bfd_vma \<Rightarrow> bytes \<Rightarrow> nat \<Rightarrow> bytes result" where
  "bfd_put_64 abfd v p a = (if bfd_big_endian abfd then bfd_putb64 v p a else bfd_putl64 v p a)"

definition bfd_get :: "nat \<Rightarrow> bfd_t \<Rightarrow> bytes \<Rightarrow> nat \<Rightarrow> bfd_vma result" where
  "bfd_get bits abfd p a =
     (if bits = 8 then bfd_get_8 p a
      else if bits = 16 then bfd_get_16 abfd p a
      else if bits = 32 then bfd_get_32 abfd p a
      else if bits = 64 then bfd_get_64 abfd p a
      else Inl Abort)"

definition bfd_put :: "nat \<Rightarrow> bfd_t \<Rightarrow> bfd_vma \<Rightarrow> bytes \<Rightarrow> nat \<Rightarrow> bytes result" where
  "bfd_put bits abfd v p a =
     (if bits = 8 then bfd_put_8 v p a
      else if bits = 16 then bfd_put_16 abfd v p a
      else if bits = 32 then bfd_put_32 abfd v p a
      else if bits = 64 then bfd_put_64 abfd v p a
      else Inl Abort)"

definition bfd_get_reloc_size :: "reloc_howto_type \<Rightarrow> nat result" where
  "bfd_get_reloc_size howto =
     (if howto_size howto = 0 then Inr 1
      else if howto_size howto = 1 then Inr 2
      else if howto_size howto = 2 then Inr 4
      else if howto_size howto = 3 then Inr 0
      else if howto_size howto = 4 then Inr 8
      else if howto_size howto = 8 then Inr 16
      else if howto_size howto = - 1 then Inr 2
      else if howto_size howto = - 2 then Inr 4
      else Inl Abort)"

subsection \<open>The overflow check\<close>

definition shr :: "bfd_vma \<Rightarrow> nat \<Rightarrow> bfd_vma result" where
  "shr x n = (if n < 64 then Inr (drop_bit n x) else Inl Undefined_shift)"

definition shl :: "bfd_vma \<Rightarrow> nat \<Rightarrow> bfd_vma result" where
  "shl x n = (if n < 64 then Inr (push_bit n x) else Inl Undefined_shift)"

definition N_ONES :: "nat \<Rightarrow> bfd_vma result" where
  "N_ONES n = (if n = 0 then Inl Undefined_shift
     else rbind (shl 1 (n - 1)) (\<lambda>b. Inr (push_bit 1 (b - 1) OR 1)))"

definition bfd_check_overflow ::
  "complain_overflow \<Rightarrow> nat \<Rightarrow> nat \<Rightarrow> nat \<Rightarrow> bfd_vma \<Rightarrow> bfd_reloc_status_type result" where
  "bfd_check_overflow how bitsize rightshift addrsize relocation =
     rbind (N_ONES bitsize) (\<lambda>fieldmask.
     rbind (N_ONES addrsize) (\<lambda>ones.
     rbind (shl fieldmask rightshift) (\<lambda>fm.
     let signmask = NOT fieldmask; addrmask = ones OR fm in
     rbind (shr (relocation AND addrmask) rightshift) (\<lambda>a.
     rbind (shr addrmask rightshift) (\<lambda>am.
     case how of
       complain_overflow_dont \<Rightarrow> Inr bfd_reloc_ok
     | complain_overflow_signed \<Rightarrow>
         (let signmask = NOT (drop_bit 1 fieldmask); ss = a AND signmask
          in Inr (if ss \<noteq> 0 \<and> ss \<noteq> am AND signmask then bfd_reloc_overflow else bfd_reloc_ok))
     | complain_overflow_bitfield \<Rightarrow>
         (let ss = a AND signmask
          in Inr (if ss \<noteq> 0 \<and> ss \<noteq> am AND signmask then bfd_reloc_overflow else bfd_reloc_ok))
     | complain_overflow_unsigned \<Rightarrow>
         Inr (if a AND signmask \<noteq> 0 then bfd_reloc_overflow else bfd_reloc_ok))))))"

subsection \<open>The range check\<close>

definition bfd_get_section_limit_octets :: "bfd_t \<Rightarrow> asection \<Rightarrow> bfd_vma" where
  "bfd_get_section_limit_octets abfd sec =
     (if \<not> bfd_write_direction abfd \<and> sec_rawsize sec \<noteq> 0 then sec_rawsize sec else sec_size sec)"

definition reloc_offset_in_range :: "reloc_howto_type \<Rightarrow> bfd_t \<Rightarrow> asection \<Rightarrow> bfd_vma \<Rightarrow> bool result" where
  "reloc_offset_in_range howto abfd section octet =
     (let octet_end = bfd_get_section_limit_octets abfd section in
      rbind (bfd_get_reloc_size howto) (\<lambda>reloc_size.
      Inr (octet \<le> octet_end \<and> octet + of_nat reloc_size \<le> octet_end)))"

subsection \<open>Relocating the contents at a location\<close>

definition contents_overflow ::
  "reloc_howto_type \<Rightarrow> bfd_t \<Rightarrow> bfd_vma \<Rightarrow> bfd_vma \<Rightarrow> bfd_reloc_status_type result" where
  "contents_overflow howto input_bfd relocation x =
     (if howto_complain howto = complain_overflow_dont then Inr bfd_reloc_ok
      else
        rbind (N_ONES (howto_bitsize howto)) (\<lambda>fieldmask.
        rbind (N_ONES (bfd_bits_per_address input_bfd)) (\<lambda>ones.
        rbind (shl fieldmask (howto_rightshift howto)) (\<lambda>fm.
        let signmask = NOT fieldmask; addrmask = ones OR fm; src = howto_src_mask howto in
        rbind (shr (relocation AND addrmask) (howto_rightshift howto)) (\<lambda>a.
        rbind (shr (x AND src AND addrmask) (howto_bitpos howto)) (\<lambda>b.
        rbind (shr addrmask (howto_rightshift howto)) (\<lambda>addrmask.
        let signed_check = (\<lambda>signmask.
              let ss = a AND signmask;
                  flag1 = ss \<noteq> 0 \<and> ss \<noteq> addrmask AND signmask;
                  ss = drop_bit (howto_bitpos howto) (drop_bit 1 (NOT src) AND src);
                  b = (b XOR ss) - ss;
                  sum = a + b;
                  flag2 = (NOT (a XOR b) AND (a XOR sum)) AND signmask AND addrmask \<noteq> 0
              in if flag1 \<or> flag2 then bfd_reloc_overflow else bfd_reloc_ok)
        in case howto_complain howto of
             complain_overflow_dont \<Rightarrow> Inl Abort
           | complain_overflow_signed \<Rightarrow> Inr (signed_check (NOT (drop_bit 1 fieldmask)))
           | complain_overflow_bitfield \<Rightarrow> Inr (signed_check signmask)
           | complain_overflow_unsigned \<Rightarrow>
               (let sum = (a + b) AND addrmask
                in Inr (if (a OR b OR sum) AND signmask \<noteq> 0 then bfd_reloc_overflow else bfd_reloc_ok)))))))))"

definition insert_relocation :: "reloc_howto_type \<Rightarrow> bfd_vma \<Rightarrow> bfd_vma \<Rightarrow> bfd_vma" where
  "insert_relocation howto relocation x =
     (x AND NOT (howto_dst_mask howto))
       OR (((x AND howto_src_mask howto) + relocation) AND howto_dst_mask howto)"

definition bfd_relocate_contents ::
  "reloc_howto_type \<Rightarrow> bfd_t \<Rightarrow> bfd_vma \<Rightarrow> bytes \<Rightarrow> nat \<Rightarrow> (bfd_reloc_status_type \<times> bytes) result" where
  "bfd_relocate_contents howto input_bfd relocation p location =
     (let relocation = (if howto_size howto < 0 then - relocation else relocation) in
      rbind (bfd_get_reloc_size howto) (\<lambda>sz.
      if sz = 0 then Inr (bfd_reloc_ok, p)
      else
        rbind (bfd_get (8 * sz) input_bfd p location) (\<lambda>x.
        rbind (contents_overflow howto input_bfd relocation x) (\<lambda>flag.
        rbind (shr relocation (howto_rightshift howto)) (\<lambda>relocation.
        rbind (shl relocation (howto_bitpos howto)) (\<lambda>relocation.
        rbind (bfd_put (8 * sz) input_bfd (insert_relocation howto relocation x) p location) (\<lambda>p.
        Inr (flag, p))))))))"

definition bfd_final_link_relocate ::
  "reloc_howto_type \<Rightarrow> bfd_t \<Rightarrow> asection \<Rightarrow> bytes \<Rightarrow> bfd_vma \<Rightarrow> bfd_vma \<Rightarrow> bfd_vma
     \<Rightarrow> (bfd_reloc_status_type \<times> bytes) result" where
  "bfd_final_link_relocate howto input_bfd input_section contents address val addend =
     (let octets = address * bfd_octets_per_byte input_bfd in
      rbind (reloc_offset_in_range howto input_bfd input_section octets) (\<lambda>ok.
      if \<not> ok then Inr (bfd_reloc_outofrange, contents)
      else
        let relocation = val + addend in
        rbind (if howto_pc_relative howto then
                 case sec_output_vma input_section of
                   None \<Rightarrow> Inl Null_pointer
                 | Some vma \<Rightarrow>
                     (let relocation = relocation - (vma + sec_output_offset input_section)
                      in Inr (if howto_pcrel_offset howto then relocation - address else relocation))
               else Inr relocation) (\<lambda>relocation.
        bfd_relocate_contents howto input_bfd relocation contents (unat octets))))"

definition bfd_clear_contents ::
  "reloc_howto_type \<Rightarrow> bfd_t \<Rightarrow> asection \<Rightarrow> bytes \<Rightarrow> nat \<Rightarrow> bytes result" where
  "bfd_clear_contents howto input_bfd input_section p location =
     rbind (bfd_get_reloc_size howto) (\<lambda>sz.
     if sz = 0 then Inr p
     else
       rbind (bfd_get (8 * sz) input_bfd p location) (\<lambda>x.
       let x = x AND NOT (howto_dst_mask howto);
           x = (if sec_name input_section = ''.debug_ranges'' \<and> howto_dst_mask howto AND 1 \<noteq> 0
                then x OR 1 else x)
       in bfd_put (8 * sz) input_bfd x p location))"

subsection \<open>Relocating with a relocation entry\<close>

definition bfd_elf_generic_reloc ::
  "arelent \<Rightarrow> reloc_howto_type \<Rightarrow> asymbol \<Rightarrow> asection \<Rightarrow> bool \<Rightarrow> bfd_reloc_status_type \<times> arelent" where
  "bfd_elf_generic_reloc reloc_entry howto symbol input_section output_bfd =
     (if output_bfd \<and> \<not> sym_section_sym symbol \<and>
         (\<not> howto_partial_inplace howto \<or> rel_addend reloc_entry = 0)
      then (bfd_reloc_ok, reloc_entry\<lparr>rel_address := rel_address reloc_entry + sec_output_offset input_section\<rparr>)
      else (bfd_reloc_continue, reloc_entry))"

text \<open>
  The macro \<open>DOIT\<close> and the switch around it: the field is read into a \<open>char\<close>, \<open>short\<close>, \<open>long\<close>
  or \<open>bfd_vma\<close>, so that it is sign-extended in the computation, and cut back to its type
  before it is stored. The two routines differ in the sizes they know.
\<close>

definition doit_field ::
  "reloc_howto_type \<Rightarrow> bfd_t \<Rightarrow> bfd_vma \<Rightarrow> bool \<Rightarrow> bytes \<Rightarrow> nat \<Rightarrow> bytes result option" where
  "doit_field howto abfd relocation minus1 p a =
     (if howto_size howto = 0 then
        Some (rbind (bfd_get_8 p a) (\<lambda>v.
          let x = (ucast v :: 8 word); x = (ucast (insert_relocation howto relocation (scast x)) :: 8 word)
          in bfd_put_8 (scast x) p a))
      else if howto_size howto = 1 then
        Some (rbind (bfd_get_16 abfd p a) (\<lambda>v.
          let x = (ucast v :: 16 word); x = (ucast (insert_relocation howto relocation (scast x)) :: 16 word)
          in bfd_put_16 abfd (scast x) p a))
      else if howto_size howto = 2 then
        Some (rbind (bfd_get_32 abfd p a) (\<lambda>x. bfd_put_32 abfd (insert_relocation howto relocation x) p a))
      else if howto_size howto = - 2 then
        Some (rbind (bfd_get_32 abfd p a) (\<lambda>x. bfd_put_32 abfd (insert_relocation howto (- relocation) x) p a))
      else if howto_size howto = - 1 \<and> minus1 then
        Some (rbind (bfd_get_16 abfd p a) (\<lambda>x. bfd_put_16 abfd (insert_relocation howto (- relocation) x) p a))
      else if howto_size howto = 3 then Some (Inr p)
      else if howto_size howto = 4 then
        Some (rbind (bfd_get_64 abfd p a) (\<lambda>x. bfd_put_64 abfd (insert_relocation howto relocation x) p a))
      else None)"

text \<open>
  The value of the symbol with the addend, as an address or relative to the place of the
  relocation. \<open>base_zero\<close> says that the address of the output section is left out,
  \<open>sub_address\<close> that the position within the section is subtracted.
\<close>

definition symbol_relocation ::
  "arelent \<Rightarrow> reloc_howto_type \<Rightarrow> asection \<Rightarrow> bool \<Rightarrow> bool \<Rightarrow> bfd_vma result" where
  "symbol_relocation reloc_entry howto input_section base_zero sub_address =
     (let symbol = rel_sym reloc_entry;
          relocation = (if sec_kind (sym_section symbol) = Sec_com then 0 else sym_value symbol) in
      rbind (if base_zero then Inr 0
             else case sec_output_vma (sym_section symbol) of
                    None \<Rightarrow> Inl Null_pointer | Some vma \<Rightarrow> Inr vma) (\<lambda>output_base.
      let relocation = relocation + (output_base + sec_output_offset (sym_section symbol));
          relocation = relocation + rel_addend reloc_entry in
      if howto_pc_relative howto then
        case sec_output_vma input_section of
          None \<Rightarrow> Inl Null_pointer
        | Some vma \<Rightarrow>
            (let relocation = relocation - (vma + sec_output_offset input_section)
             in Inr (if howto_pcrel_offset howto \<and> sub_address then relocation - rel_address reloc_entry
                     else relocation))
      else Inr relocation))"

text \<open>The end of both routines: the overflow check, the shifts and the store.\<close>

definition apply_relocation ::
  "reloc_howto_type \<Rightarrow> bfd_t \<Rightarrow> bfd_reloc_status_type \<Rightarrow> bfd_vma \<Rightarrow> bool \<Rightarrow> bytes \<Rightarrow> nat
     \<Rightarrow> (bfd_reloc_status_type \<times> bytes) result" where
  "apply_relocation howto abfd flag relocation minus1 p a =
     rbind (if howto_complain howto \<noteq> complain_overflow_dont \<and> flag = bfd_reloc_ok
            then bfd_check_overflow (howto_complain howto) (howto_bitsize howto) (howto_rightshift howto)
                   (bfd_bits_per_address abfd) relocation
            else Inr flag) (\<lambda>flag.
     rbind (shr relocation (howto_rightshift howto)) (\<lambda>relocation.
     rbind (shl relocation (howto_bitpos howto)) (\<lambda>relocation.
     case doit_field howto abfd relocation minus1 p a of
       None \<Rightarrow> Inr (bfd_reloc_other, p)
     | Some r \<Rightarrow> rbind r (\<lambda>p. Inr (flag, p)))))"

text \<open>
  What a relocatable link makes of the entry of a relocation that is stored in place: the
  value becomes the addend, except for the COFF targets that subtract the addend again
  (and, for one of them in \<open>bfd_install_relocation\<close>, keep it).
\<close>

definition inplace_entry :: "bool \<Rightarrow> bool \<Rightarrow> asection \<Rightarrow> arelent \<Rightarrow> bfd_vma \<Rightarrow> arelent \<times> bfd_vma" where
  "inplace_entry coff keep_addend input_section reloc_entry relocation =
     (let reloc_entry = reloc_entry\<lparr>rel_address := rel_address reloc_entry + sec_output_offset input_section\<rparr> in
      if coff
      then (if keep_addend then reloc_entry else reloc_entry\<lparr>rel_addend := 0\<rparr>,
            relocation - rel_addend reloc_entry)
      else (reloc_entry\<lparr>rel_addend := relocation\<rparr>, relocation))"

definition bfd_perform_relocation ::
  "bfd_t \<Rightarrow> arelent \<Rightarrow> bytes \<Rightarrow> asection \<Rightarrow> bool \<Rightarrow> (bfd_reloc_status_type \<times> arelent \<times> bytes) result" where
  "bfd_perform_relocation abfd reloc_entry data input_section output_bfd =
     (let symbol = rel_sym reloc_entry;
          flag = (if sec_kind (sym_section symbol) = Sec_und \<and> \<not> sym_weak symbol \<and> \<not> output_bfd
                  then bfd_reloc_undefined else bfd_reloc_ok);
          (cont, reloc_entry) =
            (case rel_howto reloc_entry of
               None \<Rightarrow> (bfd_reloc_continue, reloc_entry)
             | Some howto \<Rightarrow>
                 (case howto_special howto of
                    None \<Rightarrow> (bfd_reloc_continue, reloc_entry)
                  | Some bfd_elf_generic_reloc_fn \<Rightarrow>
                      bfd_elf_generic_reloc reloc_entry howto symbol input_section output_bfd)) in
      if cont \<noteq> bfd_reloc_continue then Inr (cont, reloc_entry, data)
      else if sec_kind (sym_section symbol) = Sec_abs \<and> output_bfd then
        Inr (bfd_reloc_ok,
             reloc_entry\<lparr>rel_address := rel_address reloc_entry + sec_output_offset input_section\<rparr>, data)
      else case rel_howto reloc_entry of
        None \<Rightarrow> Inr (bfd_reloc_undefined, reloc_entry, data)
      | Some howto \<Rightarrow>
          (let octets = rel_address reloc_entry * bfd_octets_per_byte abfd in
           rbind (reloc_offset_in_range howto abfd input_section octets) (\<lambda>ok.
           if \<not> ok then Inr (bfd_reloc_outofrange, reloc_entry, data)
           else
             rbind (symbol_relocation reloc_entry howto input_section
                      (output_bfd \<and> \<not> howto_partial_inplace howto \<or> sec_output_vma (sym_section symbol) = None)
                      True) (\<lambda>relocation.
             if output_bfd \<and> \<not> howto_partial_inplace howto then
               Inr (flag, reloc_entry\<lparr>rel_addend := relocation,
                      rel_address := rel_address reloc_entry + sec_output_offset input_section\<rparr>, data)
             else
               let (reloc_entry, relocation) =
                     (if output_bfd then inplace_entry (bfd_coff_not_intel abfd) False input_section reloc_entry relocation
                      else (reloc_entry, relocation)) in
               rbind (apply_relocation howto abfd flag relocation True data (unat octets)) (\<lambda>(flag, data).
               Inr (flag, reloc_entry, data))))))"

text \<open>
  \<open>bfd_install_relocation\<close> is given the bytes from \<open>data_start_offset\<close> on. It has no test of
  the howto for null after the special function: a null howto is dereferenced.
\<close>

definition bfd_install_relocation ::
  "bfd_t \<Rightarrow> arelent \<Rightarrow> bytes \<Rightarrow> bfd_vma \<Rightarrow> asection \<Rightarrow> (bfd_reloc_status_type \<times> arelent \<times> bytes) result" where
  "bfd_install_relocation abfd reloc_entry data_start data_start_offset input_section =
     (let symbol = rel_sym reloc_entry;
          (cont, reloc_entry) =
            (case rel_howto reloc_entry of
               None \<Rightarrow> (bfd_reloc_continue, reloc_entry)
             | Some howto \<Rightarrow>
                 (case howto_special howto of
                    None \<Rightarrow> (bfd_reloc_continue, reloc_entry)
                  | Some bfd_elf_generic_reloc_fn \<Rightarrow>
                      bfd_elf_generic_reloc reloc_entry howto symbol input_section True)) in
      if cont \<noteq> bfd_reloc_continue then Inr (cont, reloc_entry, data_start)
      else if sec_kind (sym_section symbol) = Sec_abs then
        Inr (bfd_reloc_ok,
             reloc_entry\<lparr>rel_address := rel_address reloc_entry + sec_output_offset input_section\<rparr>, data_start)
      else case rel_howto reloc_entry of
        None \<Rightarrow> Inl Null_pointer
      | Some howto \<Rightarrow>
          (let octets = rel_address reloc_entry * bfd_octets_per_byte abfd in
           rbind (reloc_offset_in_range howto abfd input_section octets) (\<lambda>ok.
           if \<not> ok then Inr (bfd_reloc_outofrange, reloc_entry, data_start)
           else
             rbind (symbol_relocation reloc_entry howto input_section (\<not> howto_partial_inplace howto)
                      (howto_partial_inplace howto)) (\<lambda>relocation.
             if \<not> howto_partial_inplace howto then
               Inr (bfd_reloc_ok, reloc_entry\<lparr>rel_addend := relocation,
                      rel_address := rel_address reloc_entry + sec_output_offset input_section\<rparr>, data_start)
             else
               let (reloc_entry, relocation) =
                     inplace_entry (bfd_coff_not_intel abfd) (bfd_coff_z8k abfd) input_section reloc_entry relocation in
               if octets < data_start_offset then Inl Out_of_bounds
               else
                 rbind (apply_relocation howto abfd bfd_reloc_ok relocation False data_start
                          (unat (octets - data_start_offset))) (\<lambda>(flag, data).
                 Inr (flag, reloc_entry, data))))))"

subsection \<open>Reference definitions\<close>

text \<open>
  The relocation value as the overflow check sees it on a machine with addresses of \<open>n\<close>
  bits: shifted right by \<open>r\<close>, read as an unsigned and as a signed number of the
  \<open>n - r\<close> bits left.
\<close>

definition quot_unsigned :: "nat \<Rightarrow> nat \<Rightarrow> bfd_vma \<Rightarrow> int" where
  "quot_unsigned n r v = uint (take_bit (n - r) (drop_bit r v))"

definition quot_signed :: "nat \<Rightarrow> nat \<Rightarrow> bfd_vma \<Rightarrow> int" where
  "quot_signed n r v = signed_take_bit (n - r - 1) (quot_unsigned n r v)"

text \<open>
  The value a final link places: symbol plus addend, for a PC-relative relocation less the
  address of the place; and that value moved to its position in the field.
\<close>

definition link_value :: "reloc_howto_type \<Rightarrow> asection \<Rightarrow> bfd_vma \<Rightarrow> bfd_vma \<Rightarrow> bfd_vma \<Rightarrow> bfd_vma \<Rightarrow> bfd_vma" where
  "link_value howto input_section vma address val addend =
     val + addend - (if howto_pc_relative howto
       then vma + sec_output_offset input_section + (if howto_pcrel_offset howto then address else 0) else 0)"

definition field_value :: "reloc_howto_type \<Rightarrow> bfd_vma \<Rightarrow> bfd_vma" where
  "field_value howto relocation = push_bit (howto_bitpos howto) (drop_bit (howto_rightshift howto) relocation)"

section \<open>Properties\<close>

subsection \<open>Access in the byte order of the target\<close>

lemma target_get_bits:
  "bfd_get_16 abfd p a = bfd_get_bits p a (8 * int 2) (bfd_big_endian abfd)"
  "bfd_get_32 abfd p a = bfd_get_bits p a (8 * int 4) (bfd_big_endian abfd)"
  "bfd_get_64 abfd p a = bfd_get_bits p a (8 * int 8) (bfd_big_endian abfd)"
  "bfd_put_16 abfd v p a = bfd_put_bits v p a (8 * int 2) (bfd_big_endian abfd)"
  "bfd_put_32 abfd v p a = bfd_put_bits v p a (8 * int 4) (bfd_big_endian abfd)"
  "bfd_put_64 abfd v p a = bfd_put_bits v p a (8 * int 8) (bfd_big_endian abfd)"
  by (simp_all add: bfd_get_16_def bfd_get_32_def bfd_get_64_def bfd_put_16_def bfd_put_32_def bfd_put_64_def
      get_bits_special put_bits_special)

interpretation t16: byte_access "bfd_get_16 abfd" "bfd_put_16 abfd" 2
  "\<lambda>vs. be_value 0 (order_bytes (\<not> bfd_big_endian abfd) vs)"
  "\<lambda>v. order_bytes (bfd_big_endian abfd) (le_bytes 0 2 v)"
  for abfd
  using byte_access_bits [of 2 "bfd_big_endian abfd"] by (simp add: target_get_bits [abs_def])

interpretation t32: byte_access "bfd_get_32 abfd" "bfd_put_32 abfd" 4
  "\<lambda>vs. be_value 0 (order_bytes (\<not> bfd_big_endian abfd) vs)"
  "\<lambda>v. order_bytes (bfd_big_endian abfd) (le_bytes 0 4 v)"
  for abfd
  using byte_access_bits [of 4 "bfd_big_endian abfd"] by (simp add: target_get_bits [abs_def])

interpretation t64: byte_access "bfd_get_64 abfd" "bfd_put_64 abfd" 8
  "\<lambda>vs. be_value 0 (order_bytes (\<not> bfd_big_endian abfd) vs)"
  "\<lambda>v. order_bytes (bfd_big_endian abfd) (le_bytes 0 8 v)"
  for abfd
  using byte_access_bits [of 8 "bfd_big_endian abfd"] by (simp add: target_get_bits [abs_def])

subsection \<open>The overflow check\<close>

lemma N_ONES_mask: "0 < n \<Longrightarrow> n \<le> 64 \<Longrightarrow> N_ONES n = Inr (mask n)"
proof -
  assume n: "0 < n" "n \<le> 64"
  have "push_bit 1 (push_bit (n - 1) 1 - 1) OR 1 = (mask n :: bfd_vma)"
    using n by (cases n) (simp_all add: push_bit_eq_mult mask_eq_exp_minus_1 [symmetric] mask_Suc_double or.commute mult.commute flip: push_bit_double)
  with n show ?thesis by (simp add: N_ONES_def shl_def)
qed

lemma check_overflow_masks:
  assumes "0 < b" "b + r \<le> n" "n \<le> 64" 
  shows "bfd_check_overflow how b r n v =
   Inr (let a = take_bit (n - r) (drop_bit r v);
            full = (\<lambda>k. mask (n - r) AND NOT (mask k)) in
       case how of complain_overflow_dont \<Rightarrow> bfd_reloc_ok
     | complain_overflow_signed \<Rightarrow> if a AND NOT (mask (b - 1)) \<in> {0, full (b - 1)} then bfd_reloc_ok else bfd_reloc_overflow
     | complain_overflow_bitfield \<Rightarrow> if a AND NOT (mask b) \<in> {0, full b} then bfd_reloc_ok else bfd_reloc_overflow
     | complain_overflow_unsigned \<Rightarrow> if a AND NOT (mask b) = 0 then bfd_reloc_ok else bfd_reloc_overflow)"
proof -
  have "r < 64" "b \<le> 64" "0 < n" using assms by auto
  have ones: "N_ONES b = Inr (mask b)" "N_ONES n = Inr (mask n)"
    using assms \<open>b \<le> 64\<close> \<open>0 < n\<close> by (simp_all add: N_ONES_mask)
  have m: "mask n OR push_bit r (mask b) = (mask n :: bfd_vma)" "drop_bit 1 (mask b) = (mask (b - 1) :: bfd_vma)"
    using assms by (intro bit_word_eqI; auto simp: bit_simps)+
  have "drop_bit r (mask n) = (mask (n - r) :: bfd_vma)"
    using assms by (intro bit_word_eqI) (auto simp: bit_simps)
  then have sh: "shl (mask b) r = Inr (push_bit r (mask b))" "shr (mask n) r = Inr (mask (n - r))"
      "shr (v AND mask n) r = Inr (take_bit (n - r) (drop_bit r v))"
    using \<open>r < 64\<close> by (simp_all add: shl_def shr_def take_bit_eq_mask [symmetric] drop_bit_take_bit)
  show ?thesis
    unfolding bfd_check_overflow_def ones rbind_simps sh Let_def m by (cases how) simp_all
qed

lemma signed_take_bit_self_bits: "(s :: int) = signed_take_bit k s \<longleftrightarrow> (\<forall>i. k \<le> i \<longrightarrow> bit s i = bit s k)"
  by (auto simp: bit_eq_iff bit_signed_take_bit_iff min_def)

lemma sign_bits_iff:
  fixes a :: bfd_vma
  assumes "take_bit N a = a" "0 < N" "k \<le> N" "N \<le> 64"
  shows "a AND NOT (mask k) \<in> {0, mask N AND NOT (mask k)} \<longleftrightarrow>
     - (2 ^ k) \<le> signed_take_bit (N - 1) (uint a) \<and> signed_take_bit (N - 1) (uint a) < 2 ^ k"
proof -
  let ?s = "signed_take_bit (N - 1) (uint a)"
  have bs: "bit ?s i = bit a (min i (N - 1))" for i
    using assms by (auto simp: bit_signed_take_bit_iff bit_uint_iff min_def dest: bit_imp_le_length)
  have small: "bit a i \<Longrightarrow> i < N" for i
    by (metis assms(1) bit_take_bit_iff)
  have zero: "a AND NOT (mask k) = 0 \<longleftrightarrow> (\<forall>i. k \<le> i \<longrightarrow> i < N \<longrightarrow> \<not> bit a i)"
    using small assms(4) by (auto simp: bit_eq_iff bit_simps not_less)
  have full: "a AND NOT (mask k) = mask N AND NOT (mask k) \<longleftrightarrow> (\<forall>i. k \<le> i \<longrightarrow> i < N \<longrightarrow> bit a i)"
    using small assms(4) by (auto simp: bit_eq_iff bit_simps not_less) (meson order_less_le_trans)
  have "?s = signed_take_bit k ?s \<longleftrightarrow> (\<forall>i. k \<le> i \<longrightarrow> bit ?s i = bit ?s k)"
    by (rule signed_take_bit_self_bits)
  also have "\<dots> \<longleftrightarrow> (\<forall>i. k \<le> i \<longrightarrow> i < N \<longrightarrow> \<not> bit a i) \<or> (\<forall>i. k \<le> i \<longrightarrow> i < N \<longrightarrow> bit a i)"
  proof
    assume *: "\<forall>i. k \<le> i \<longrightarrow> bit ?s i = bit ?s k"
    have "bit a i = bit ?s k" if "k \<le> i" "i < N" for i
    proof -
      have "min i (N - 1) = i" using that by simp
      with * that show ?thesis by (metis bs)
    qed
    then show "(\<forall>i. k \<le> i \<longrightarrow> i < N \<longrightarrow> \<not> bit a i) \<or> (\<forall>i. k \<le> i \<longrightarrow> i < N \<longrightarrow> bit a i)"
      by blast
  next
    assume *: "(\<forall>i. k \<le> i \<longrightarrow> i < N \<longrightarrow> \<not> bit a i) \<or> (\<forall>i. k \<le> i \<longrightarrow> i < N \<longrightarrow> bit a i)"
    show "\<forall>i. k \<le> i \<longrightarrow> bit ?s i = bit ?s k"
    proof (cases "k = N")
      case True
      then show ?thesis unfolding bs by simp
    next
      case False
      have "k \<le> min i (N - 1) \<and> min i (N - 1) < N" if "k \<le> i" for i
        using that False assms by auto
      with * show ?thesis unfolding bs by blast
    qed
  qed
  finally show ?thesis
    using signed_take_bit_int_eq_self_iff [of k ?s] zero full by auto
qed

lemma check_overflow_quot:
  assumes "0 < b" "b + r \<le> n" "n \<le> 64" 
  shows "bfd_check_overflow complain_overflow_signed b r n v =
      Inr (if - (2 ^ (b - 1)) \<le> quot_signed n r v \<and> quot_signed n r v < 2 ^ (b - 1) then bfd_reloc_ok else bfd_reloc_overflow)"
  "bfd_check_overflow complain_overflow_bitfield b r n v =
      Inr (if - (2 ^ b) \<le> quot_signed n r v \<and> quot_signed n r v < 2 ^ b then bfd_reloc_ok else bfd_reloc_overflow)"
  "bfd_check_overflow complain_overflow_unsigned b r n v =
      Inr (if quot_unsigned n r v < 2 ^ b then bfd_reloc_ok else bfd_reloc_overflow)"
proof -
  let ?a = "take_bit (n - r) (drop_bit r v)"
  have a: "take_bit (n - r) ?a = ?a" by simp
  have N: "0 < n - r" "b - 1 \<le> n - r" "b \<le> n - r" "n - r \<le> 64" using assms by auto
  show "bfd_check_overflow complain_overflow_signed b r n v =
      Inr (if - (2 ^ (b - 1)) \<le> quot_signed n r v \<and> quot_signed n r v < 2 ^ (b - 1) then bfd_reloc_ok else bfd_reloc_overflow)"
    using sign_bits_iff [OF a N(1,2,4)] by (simp add: check_overflow_masks [OF assms] quot_signed_def quot_unsigned_def Let_def)
  show "bfd_check_overflow complain_overflow_bitfield b r n v =
      Inr (if - (2 ^ b) \<le> quot_signed n r v \<and> quot_signed n r v < 2 ^ b then bfd_reloc_ok else bfd_reloc_overflow)"
    using sign_bits_iff [OF a N(1,3,4)] by (simp add: check_overflow_masks [OF assms] quot_signed_def quot_unsigned_def Let_def)
  have "?a AND NOT (mask b) = 0 \<longleftrightarrow> take_bit b ?a = ?a"
    by (auto simp: bit_eq_iff bit_simps)
  also have "\<dots> \<longleftrightarrow> take_bit b (uint ?a) = uint ?a"
    by (simp only: unsigned_take_bit_eq [symmetric] word_uint_eq_iff)
  also have "\<dots> \<longleftrightarrow> uint ?a < 2 ^ b"
    by (subst take_bit_int_eq_self_iff) simp
  finally show "bfd_check_overflow complain_overflow_unsigned b r n v =
      Inr (if quot_unsigned n r v < 2 ^ b then bfd_reloc_ok else bfd_reloc_overflow)"
    by (simp add: check_overflow_masks [OF assms] quot_unsigned_def)
qed

lemma contents_overflow_check:
  assumes "howto_src_mask howto = 0" "howto_bitpos howto < 64"
  shows "contents_overflow howto abfd relocation x =
    (if howto_complain howto = complain_overflow_dont then Inr bfd_reloc_ok
     else bfd_check_overflow (howto_complain howto) (howto_bitsize howto) (howto_rightshift howto) (bfd_bits_per_address abfd) relocation)"
proof -
  have and_shr: "drop_bit k (m AND am) OR (drop_bit k (m AND am) AND drop_bit k am) = drop_bit k (m AND am)" for k and m am :: bfd_vma
    by (auto simp: bit_eq_iff bit_simps)
  show ?thesis
    unfolding contents_overflow_def bfd_check_overflow_def assms(1)
    using assms(2)
    by (cases "N_ONES (howto_bitsize howto)"; cases "N_ONES (bfd_bits_per_address abfd)";
        cases "howto_rightshift howto < 64"; cases "howto_complain howto")
       (simp_all add: shr_def shl_def Let_def and_shr del: drop_bit_and drop_bit_or)
qed
subsection \<open>Relocated contents\<close>

lemma bfd_get_32_bits: "bfd_get 32 abfd = bfd_get_32 abfd" "bfd_put 32 abfd = bfd_put_32 abfd"
  by (simp_all add: fun_eq_iff bfd_get_def bfd_put_def)

lemma relocate_contents_32:
  assumes "howto_size howto = 2" and "location + 4 \<le> length p"
    and "howto_rightshift howto < 64" and "howto_bitpos howto < 64"
    and "bfd_get_32 abfd p location = Inr x" and "contents_overflow howto abfd relocation x = Inr flag"
  shows "bfd_relocate_contents howto abfd relocation p location =
    rbind (bfd_put_32 abfd
      (insert_relocation howto (push_bit (howto_bitpos howto) (drop_bit (howto_rightshift howto) relocation)) x)
      p location) (\<lambda>p. Inr (flag, p))"
  using assms
  by (simp add: bfd_relocate_contents_def bfd_get_reloc_size_def bfd_get_32_bits shr_def shl_def)

lemma in_range_32:
  assumes "length contents = unat (bfd_get_section_limit_octets abfd sec)" "length contents < 2 ^ 63"
    and "howto_size howto = 2"
  shows "reloc_offset_in_range howto abfd sec octet = Inr (unat octet + 4 \<le> length contents)"
proof -
  let ?e = "bfd_get_section_limit_octets abfd sec"
  have "octet \<le> ?e \<and> octet + 4 \<le> ?e \<longleftrightarrow> unat octet + 4 \<le> unat ?e"
  proof (cases "octet \<le> ?e")
    case True
    then have "unat octet + 4 < 2 ^ LENGTH(64)"
      using assms by (simp add: word_le_nat_alt)
    then have "unat (octet + 4) = unat octet + 4"
      by (simp add: unat_word_ariths take_bit_nat_eq_self flip: take_bit_eq_mod)
    with True show ?thesis by (simp add: word_le_nat_alt)
  next
    case False
    then show ?thesis by (simp add: word_le_nat_alt)
  qed
  with assms show ?thesis
    by (simp add: reloc_offset_in_range_def bfd_get_reloc_size_def)
qed

lemma N_ONES_total: "0 < n \<Longrightarrow> n \<le> 64 \<Longrightarrow> \<exists>m. N_ONES n = Inr m"
  by (simp add: N_ONES_mask)

lemma contents_overflow_total:
  assumes "howto_rightshift howto < 64" "howto_bitpos howto < 64"
    and "howto_complain howto = complain_overflow_dont \<or> 0 < howto_bitsize howto \<and> howto_bitsize howto \<le> 64 \<and>
       0 < bfd_bits_per_address abfd \<and> bfd_bits_per_address abfd \<le> 64"
  shows "\<exists>flag. contents_overflow howto abfd relocation x = Inr flag"
  using assms
  by (cases "howto_complain howto") (auto simp: contents_overflow_def N_ONES_mask shl_def shr_def Let_def)

lemma final_link_32:
  assumes "howto_size howto = 2" "bfd_octets_per_byte abfd = 1"
    and "length contents = unat (bfd_get_section_limit_octets abfd sec)" "length contents < 2 ^ 63"
    and "howto_rightshift howto < 64" "howto_bitpos howto < 64"
    and "howto_complain howto = complain_overflow_dont \<or> 0 < howto_bitsize howto \<and> howto_bitsize howto \<le> 64 \<and>
       0 < bfd_bits_per_address abfd \<and> bfd_bits_per_address abfd \<le> 64"
    and "sec_output_vma sec = Some vma"
  shows "if length contents < unat address + 4
     then bfd_final_link_relocate howto abfd sec contents address val addend = Inr (bfd_reloc_outofrange, contents)
     else \<exists>flag q x.
       bfd_final_link_relocate howto abfd sec contents address val addend = Inr (flag, q) \<and>
       bfd_get_32 abfd contents (unat address) = Inr x \<and>
       contents_overflow howto abfd (link_value howto sec vma address val addend) x = Inr flag \<and>
       bfd_put_32 abfd (insert_relocation howto (field_value howto (link_value howto sec vma address val addend)) x)
         contents (unat address) = Inr q"
proof (cases "length contents < unat address + 4")
  case True
  with assms show ?thesis
    by (simp add: bfd_final_link_relocate_def in_range_32)
next
  case False
  let ?v = "link_value howto sec vma address val addend"
  obtain x where x: "bfd_get_32 abfd contents (unat address) = Inr x"
    using False t32.get_in [of "unat address" contents abfd] by auto
  obtain flag where flag: "contents_overflow howto abfd ?v x = Inr flag"
    using contents_overflow_total assms by blast
  obtain q where q: "bfd_put_32 abfd (insert_relocation howto (field_value howto ?v) x) contents (unat address) = Inr q"
    using False t32.put_in [of "unat address" contents] by auto
  have "bfd_final_link_relocate howto abfd sec contents address val addend =
     bfd_relocate_contents howto abfd ?v contents (unat address)"
    using False assms by (simp add: bfd_final_link_relocate_def in_range_32 link_value_def diff_diff_eq)
  also have "\<dots> = Inr (flag, q)"
    using relocate_contents_32 [OF assms(1) _ assms(5,6) x flag] False q by (simp add: field_value_def)
  finally show ?thesis using False x flag q by auto
qed
text \<open>
  C29: \<open>bfd_check_overflow\<close> decides by value: for a field of \<open>b\<close> bits of a relocation
  shifted right by \<open>r\<close>, on a machine with addresses of \<open>n\<close> bits, the signed check accepts
  exactly \<open>-2 ^ (b - 1), \<dots>, 2 ^ (b - 1) - 1\<close>, the bitfield check \<open>-2 ^ b, \<dots>, 2 ^ b - 1\<close> and the
  unsigned check the numbers below \<open>2 ^ b\<close>.
\<close>

theorem check_overflow_spec:
  assumes "0 < b" and "b + r \<le> n" and "n \<le> 64"
  shows "bfd_check_overflow complain_overflow_signed b r n v =
      Inr (if - (2 ^ (b - 1)) \<le> quot_signed n r v \<and> quot_signed n r v < 2 ^ (b - 1)
           then bfd_reloc_ok else bfd_reloc_overflow) \<and>
    bfd_check_overflow complain_overflow_bitfield b r n v =
      Inr (if - (2 ^ b) \<le> quot_signed n r v \<and> quot_signed n r v < 2 ^ b
           then bfd_reloc_ok else bfd_reloc_overflow) \<and>
    bfd_check_overflow complain_overflow_unsigned b r n v =
      Inr (if quot_unsigned n r v < 2 ^ b then bfd_reloc_ok else bfd_reloc_overflow)"
  using check_overflow_quot [OF assms] by blast

theorem check_overflow_spec_witness:
  "bfd_check_overflow complain_overflow_signed 14 0 32 0xffffe000 = Inr bfd_reloc_ok \<and>
   bfd_check_overflow complain_overflow_signed 14 0 32 0x2000 = Inr bfd_reloc_overflow"
  using check_overflow_spec [of 14 0 32 "0xffffe000"] check_overflow_spec [of 14 0 32 "0x2000"]
  by (simp add: quot_signed_def quot_unsigned_def signed_take_bit_eq_if_positive)

text \<open>
  The overflow check built into \<open>_bfd_relocate_contents\<close> agrees with
  \<open>bfd_check_overflow\<close> for every relocation that takes no addend from the contents (a zero
  source mask), whatever the contents are; the faults agree too.
\<close>

theorem relocate_contents_overflow_agrees:
  assumes "howto_src_mask howto = 0" and "howto_bitpos howto < 64"
  shows "contents_overflow howto abfd relocation x =
    (if howto_complain howto = complain_overflow_dont then Inr bfd_reloc_ok
     else bfd_check_overflow (howto_complain howto) (howto_bitsize howto) (howto_rightshift howto)
            (bfd_bits_per_address abfd) relocation)"
  using assms by (rule contents_overflow_check)

theorem relocate_contents_overflow_agrees_witness:
  "\<exists>howto abfd. howto_complain howto = complain_overflow_signed \<and> howto_src_mask howto = 0 \<and>
     howto_bitpos howto < 64 \<and>
     contents_overflow howto abfd 0x2000 0xffffffff =
       bfd_check_overflow complain_overflow_signed 14 0 32 0x2000"
proof -
  let ?h = "\<lparr>howto_type = 11, howto_rightshift = 0, howto_size = 2, howto_bitsize = 14,
     howto_pc_relative = True, howto_bitpos = 0, howto_complain = complain_overflow_signed,
     howto_special = None, howto_name = None, howto_partial_inplace = False, howto_src_mask = 0,
     howto_dst_mask = 0x3fff, howto_pcrel_offset = True\<rparr>"
  let ?b = "\<lparr>bfd_big_endian = True, bfd_bits_per_address = 32, bfd_octets_per_byte = 1,
     bfd_write_direction = False, bfd_coff_not_intel = False, bfd_coff_z8k = False\<rparr>"
  have "contents_overflow ?h ?b 0x2000 0xffffffff =
       bfd_check_overflow complain_overflow_signed 14 0 32 0x2000"
    using relocate_contents_overflow_agrees [of ?h ?b "0x2000" "0xffffffff"] by simp
  then show ?thesis
    by (intro exI [of _ ?h] exI [of _ ?b]) simp
qed

text \<open>
  C30: the final link of a four-byte field. A place that does not lie in the section with
  all its four bytes is reported out of range and the contents stay as they are. Otherwise
  the routine returns (never a fault), the word at the place has the relocated value under
  the destination mask and its other bits as they were, and no other byte changes.
\<close>

theorem final_link_relocate_spec:
  assumes "howto_size howto = 2" and "bfd_octets_per_byte abfd = 1"
    and "length contents = unat (bfd_get_section_limit_octets abfd sec)" and "length contents < 2 ^ 63"
    and "howto_rightshift howto < 64" and "howto_bitpos howto < 64"
    and "howto_complain howto = complain_overflow_dont \<or>
         0 < howto_bitsize howto \<and> howto_bitsize howto \<le> 64 \<and>
         0 < bfd_bits_per_address abfd \<and> bfd_bits_per_address abfd \<le> 64"
    and "sec_output_vma sec = Some vma"
  shows "if length contents < unat address + 4
     then bfd_final_link_relocate howto abfd sec contents address val addend =
            Inr (bfd_reloc_outofrange, contents)
     else \<exists>flag q x.
       bfd_final_link_relocate howto abfd sec contents address val addend = Inr (flag, q) \<and>
       bfd_get_32 abfd contents (unat address) = Inr x \<and>
       bfd_get_32 abfd q (unat address) = Inr (take_bit 32
         (insert_relocation howto (field_value howto (link_value howto sec vma address val addend)) x)) \<and>
       length q = length contents \<and>
       (\<forall>i. i < length contents \<longrightarrow> i < unat address \<or> unat address + 4 \<le> i \<longrightarrow> q ! i = contents ! i)"
proof (cases "length contents < unat address + 4")
  case True
  then show ?thesis using final_link_32 [OF assms, of address val addend] by simp
next
  case False
  then obtain flag q x where
    r: "bfd_final_link_relocate howto abfd sec contents address val addend = Inr (flag, q)"
    and x: "bfd_get_32 abfd contents (unat address) = Inr x"
    and q: "bfd_put_32 abfd (insert_relocation howto (field_value howto
        (link_value howto sec vma address val addend)) x) contents (unat address) = Inr q"
    using final_link_32 [OF assms, of address val addend] by auto
  from t32.get_put [OF q] t32.put_length [OF q] t32.put_nth [OF q] r x False show ?thesis
    by auto
qed

theorem final_link_relocate_spec_witness:
  "\<exists>howto abfd sec flag q.
     bfd_final_link_relocate howto abfd sec [0xff, 0xff, 0xff, 0xff, 0xff, 0xff] 2 0x1234 0x10 = Inr (flag, q) \<and>
     bfd_get_32 abfd q 2 = Inr 0xffff1244 \<and> q ! 0 = 0xff \<and> q ! 1 = 0xff"
proof -
  let ?h = "\<lparr>howto_type = 2, howto_rightshift = 0, howto_size = 2, howto_bitsize = 32,
     howto_pc_relative = False, howto_bitpos = 0, howto_complain = complain_overflow_dont,
     howto_special = None, howto_name = None, howto_partial_inplace = False, howto_src_mask = 0,
     howto_dst_mask = 0xffff, howto_pcrel_offset = False\<rparr>"
  let ?b = "\<lparr>bfd_big_endian = True, bfd_bits_per_address = 32, bfd_octets_per_byte = 1,
     bfd_write_direction = False, bfd_coff_not_intel = False, bfd_coff_z8k = False\<rparr>"
  let ?s = "\<lparr>sec_name = ''.text'', sec_kind = Sec_normal, sec_output_vma = Some 0, sec_output_is_abs = False,
     sec_output_offset = 0, sec_size = 6, sec_rawsize = 0, sec_debugging = False, sec_merge = False,
     sec_info_type = SEC_INFO_TYPE_NONE\<rparr>"
  let ?c = "[0xff, 0xff, 0xff, 0xff, 0xff, 0xff] :: bytes"
  have x: "bfd_get_32 ?b ?c 2 = Inr 0xffffffff"
    by (simp add: bfd_get_32_def bfd_getb32_def ld_def Let_def)
  obtain flag q where r: "bfd_final_link_relocate ?h ?b ?s ?c 2 0x1234 0x10 = Inr (flag, q)"
    and g: "bfd_get_32 ?b q 2 = Inr (take_bit 32
         (insert_relocation ?h (field_value ?h (link_value ?h ?s 0 2 0x1234 0x10)) 0xffffffff))"
    and l: "\<forall>i. i < 6 \<longrightarrow> i < 2 \<or> 6 \<le> i \<longrightarrow> q ! i = ?c ! i"
    using final_link_relocate_spec [of ?h ?b ?c ?s 0 2 "0x1234" "0x10"] x
    by (auto simp: bfd_get_section_limit_octets_def)
  have "insert_relocation ?h (field_value ?h (link_value ?h ?s 0 2 0x1234 0x10)) 0xffffffff = 0xffff1244"
    by (simp add: insert_relocation_def field_value_def link_value_def)
  moreover have "q ! 0 = 0xff" "q ! 1 = 0xff"
    using l [rule_format, of 0] l [rule_format, of 1] by simp_all
  ultimately show ?thesis
    using r g by (intro exI conjI) (assumption | simp add: take_bit_eq_mask mask_eq_exp_minus_1)+
qed

end
