(* ===== verification/Fusion_ISA.thy ===== *)
theory Fusion_ISA
  imports Prelude
begin

text \<open>
  The instruction set of the Fusion core: the masks, field readers and recognisers of
  \<^verbatim>\<open>include/opcode/fusion.h\<close> and the field placers and \<open>MAKE_\<close> macros of
  \<^verbatim>\<open>include/opcode/fusion-opc.h\<close>. A macro is a definition over words of any length where
  the code uses it at 32 and at 64 bits; a shift is \<open>push_bit\<close> or \<open>drop_bit\<close>, since every
  argument is unsigned.

  The interface \<open>bitfield\<close> states what a reader, a placer and a mask promise together;
  every field of every format is an instance of it. The codec \<open>encode\<close> / \<open>decode\<close> at the end
  is the abstract view of an instruction word: its format and the contents of its fields.
\<close>

subsection \<open>Operand kinds, formats and coprocessor identifiers\<close>

definition USE_NONE :: "c_uint" where [isa_defs]: "USE_NONE = 0"

definition USE_RDAB :: "c_uint" where [isa_defs]: "USE_RDAB = 1"

definition USE_RDAI :: "c_uint" where [isa_defs]: "USE_RDAI = 2"

definition USE_RDI :: "c_uint" where [isa_defs]: "USE_RDI = 3"

definition USE_RABI :: "c_uint" where [isa_defs]: "USE_RABI = 4"

definition USE_RAI :: "c_uint" where [isa_defs]: "USE_RAI = 5"

definition USE_I :: "c_uint" where [isa_defs]: "USE_I = 6"

definition USE_RDA :: "c_uint" where [isa_defs]: "USE_RDA = 7"

definition USE_RAB :: "c_uint" where [isa_defs]: "USE_RAB = 8"

definition USE_RABI_O :: "c_uint" where [isa_defs]: "USE_RABI_O = 9"

definition USE_RDAI_O :: "c_uint" where [isa_defs]: "USE_RDAI_O = 10"

definition USE_RAI_O :: "c_uint" where [isa_defs]: "USE_RAI_O = 11"

definition MAX_USE_OP :: "c_uint" where [isa_defs]: "MAX_USE_OP = 12"

definition NUM_INSN_R :: "nat" where [isa_defs]: "NUM_INSN_R = 17"

definition NUM_INSN_I :: "nat" where [isa_defs]: "NUM_INSN_I = 16"

definition NUM_INSN_L :: "nat" where [isa_defs]: "NUM_INSN_L = 4"

definition NUM_INSN_LI :: "nat" where [isa_defs]: "NUM_INSN_LI = 32"

definition NUM_INSN_S :: "nat" where [isa_defs]: "NUM_INSN_S = 4"

definition NUM_INSN_J :: "nat" where [isa_defs]: "NUM_INSN_J = 2"

definition NUM_INSN_JL :: "nat" where [isa_defs]: "NUM_INSN_JL = 2"

definition NUM_INSN_B :: "nat" where [isa_defs]: "NUM_INSN_B = 4"

definition NUM_INSN_SYS :: "nat" where [isa_defs]: "NUM_INSN_SYS = 256"

definition NUM_INSN :: nat where
  "NUM_INSN = NUM_INSN_R + NUM_INSN_I + NUM_INSN_L + NUM_INSN_LI + NUM_INSN_S + NUM_INSN_J
     + NUM_INSN_JL + NUM_INSN_SYS"

definition FRMT_R :: "c_uint" where [isa_defs]: "FRMT_R = 0"

definition FRMT_I :: "c_uint" where [isa_defs]: "FRMT_I = 1"

definition FRMT_L :: "c_uint" where [isa_defs]: "FRMT_L = 2"

definition FRMT_LI :: "c_uint" where [isa_defs]: "FRMT_LI = 3"

definition FRMT_S :: "c_uint" where [isa_defs]: "FRMT_S = 4"

definition FRMT_J :: "c_uint" where [isa_defs]: "FRMT_J = 5"

definition FRMT_B :: "c_uint" where [isa_defs]: "FRMT_B = 6"

definition FRMT_SYS :: "c_uint" where [isa_defs]: "FRMT_SYS = 7"

definition CPID_MAIN :: "c_uint" where [isa_defs]: "CPID_MAIN = 0"

definition CPID_MACRO :: "c_uint" where [isa_defs]: "CPID_MACRO = 1"

definition CPID_MAX :: "c_uint" where [isa_defs]: "CPID_MAX = 2"

subsection \<open>Bit field masks\<close>

definition MASK_RD :: "'a::len word" where [isa_defs]: "MASK_RD = 0x03e00000"

definition MASK_RSA :: "'a::len word" where [isa_defs]: "MASK_RSA = 0x001f0000"

definition MASK_RSB :: "'a::len word" where [isa_defs]: "MASK_RSB = 0x0000f800"

definition MASK_SHFT :: "'a::len word" where [isa_defs]: "MASK_SHFT = 0x000007f0"

definition MASK_ALUOP :: "'a::len word" where [isa_defs]: "MASK_ALUOP = 0x0000000f"

definition MASK_IMM_I :: "'a::len word" where [isa_defs]: "MASK_IMM_I = 0x0000fff0"

definition MASK_IMM_L :: "'a::len word" where [isa_defs]: "MASK_IMM_L = 0x00003fff"

definition MASK_FUNCT_L :: "'a::len word" where [isa_defs]: "MASK_FUNCT_L = 0x0000c000"

definition MASK_DSEL_LI :: "'a::len word" where [isa_defs]: "MASK_DSEL_LI = 0x001e0000"

definition MASK_IMM_LI :: "'a::len word" where [isa_defs]: "MASK_IMM_LI = 0x0000ffff"

definition MASK_FUNCT_S :: "'a::len word" where [isa_defs]: "MASK_FUNCT_S = 0x0f000000"

definition MASK_IMM_S :: "'a::len word" where [isa_defs]: "MASK_IMM_S = 0x00e007ff"

definition MASK_IMM_HI_S :: "'a::len word" where [isa_defs]: "MASK_IMM_HI_S = 0x00e00000"

definition MASK_IMM_LO_S :: "'a::len word" where [isa_defs]: "MASK_IMM_LO_S = 0x000007ff"

definition MASK_IMM_J :: "'a::len word" where [isa_defs]: "MASK_IMM_J = 0x03e0ffff"

definition MASK_IMM_HI_J :: "'a::len word" where [isa_defs]: "MASK_IMM_HI_J = 0x03e00000"

definition MASK_IMM_LO_J :: "'a::len word" where [isa_defs]: "MASK_IMM_LO_J = 0x0000ffff"

definition MASK_IMM_B :: "'a::len word" where [isa_defs]: "MASK_IMM_B = 0x03e007fc"

definition MASK_IMM_HI_B :: "'a::len word" where [isa_defs]: "MASK_IMM_HI_B = 0x03e00000"

definition MASK_IMM_LO_B :: "'a::len word" where [isa_defs]: "MASK_IMM_LO_B = 0x000007fc"

definition MASK_FUNCT_B :: "'a::len word" where [isa_defs]: "MASK_FUNCT_B = 0x00000003"

definition MASK_FUNCT_SYS :: "'a::len word" where [isa_defs]: "MASK_FUNCT_SYS = 0x0000ff00"

definition MASK_IMM_SYS :: "'a::len word" where [isa_defs]: "MASK_IMM_SYS = 0x000000ff"

definition SPLIT_S_IMM_LO :: "'a::len word" where [isa_defs]: "SPLIT_S_IMM_LO = 0x000007ff"

definition SPLIT_S_IMM_HI :: "'a::len word" where [isa_defs]: "SPLIT_S_IMM_HI = 0x00003800"

definition SPLIT_J_IMM_LO :: "'a::len word" where [isa_defs]: "SPLIT_J_IMM_LO = 0x0000ffff"

definition SPLIT_J_IMM_HI :: "'a::len word" where [isa_defs]: "SPLIT_J_IMM_HI = 0x001f0000"

definition SPLIT_B_IMM_LO :: "'a::len word" where [isa_defs]: "SPLIT_B_IMM_LO = 0x000001ff"

definition SPLIT_B_IMM_HI :: "'a::len word" where [isa_defs]: "SPLIT_B_IMM_HI = 0x00003e00"

definition MASK_OPC :: "'a::len word" where [isa_defs]: "MASK_OPC = 0xfc000000"

definition MASK_MSB_OPC :: "'a::len word" where [isa_defs]: "MASK_MSB_OPC = 0x11000000"

definition MASK_NO_IMM :: "'a::len word" where [isa_defs]: "MASK_NO_IMM = 0x00000000"

definition SHFT_IMM_HI_S :: "nat" where [isa_defs]: "SHFT_IMM_HI_S = 10"

definition SHFT_IMM_HI_J :: "nat" where [isa_defs]: "SHFT_IMM_HI_J = 5"

definition SHFT_IMM_HI_B :: "nat" where [isa_defs]: "SHFT_IMM_HI_B = 12"

definition SHFT_IMM_LO_B :: "nat" where [isa_defs]: "SHFT_IMM_LO_B = 2"

subsection \<open>Opcodes\<close>

definition OPC_INT :: "'a::len word" where [isa_defs]: "OPC_INT = 0x13"

definition OPC_IMM :: "'a::len word" where [isa_defs]: "OPC_IMM = 0x16"

definition OPC_LD :: "'a::len word" where [isa_defs]: "OPC_LD = 0x1e"

definition OPC_LI :: "'a::len word" where [isa_defs]: "OPC_LI = 0x10"

definition OPC_ST :: "'a::len word" where [isa_defs]: "OPC_ST = 0x1d"

definition OPC_JMP :: "'a::len word" where [isa_defs]: "OPC_JMP = 0x0c"

definition OPC_JLNK :: "'a::len word" where [isa_defs]: "OPC_JLNK = 0x04"

definition OPC_BRANCH :: "'a::len word" where [isa_defs]: "OPC_BRANCH = 0x0d"

definition OPC_SYS :: "'a::len word" where [isa_defs]: "OPC_SYS = 0x20"

definition MASK_R_OPC :: "'a::len word" where [isa_defs]: "MASK_R_OPC = OPC_INT"

definition MASK_LI_OPC :: "'a::len word" where [isa_defs]: "MASK_LI_OPC = OPC_LI"

definition MASK_IMM_OPC :: "'a::len word" where [isa_defs]: "MASK_IMM_OPC = OPC_IMM"

definition MASK_B_OPC :: "'a::len word" where [isa_defs]: "MASK_B_OPC = OPC_BRANCH"

definition MASK_JMP_OPC :: "'a::len word" where [isa_defs]: "MASK_JMP_OPC = OPC_JMP"

definition MASK_JLNK_OPC :: "'a::len word" where [isa_defs]: "MASK_JLNK_OPC = OPC_JLNK"

definition MASK_RMEM_OPC :: "'a::len word" where [isa_defs]: "MASK_RMEM_OPC = OPC_LD"

definition MASK_WMEM_OPC :: "'a::len word" where [isa_defs]: "MASK_WMEM_OPC = OPC_ST"

definition MASK_SYS_OPC :: "'a::len word" where [isa_defs]: "MASK_SYS_OPC = OPC_SYS"

subsection \<open>Reading the fields of an instruction\<close>

definition GET_RD :: "'a::len word \<Rightarrow> 'a word" where [isa_defs]:
  "GET_RD i = drop_bit 21 (MASK_RD AND i)"

definition GET_RSA :: "'a::len word \<Rightarrow> 'a word" where [isa_defs]:
  "GET_RSA i = drop_bit 16 (MASK_RSA AND i)"

definition GET_RSB :: "'a::len word \<Rightarrow> 'a word" where [isa_defs]:
  "GET_RSB i = drop_bit 11 (MASK_RSB AND i)"

definition GET_SHFT :: "'a::len word \<Rightarrow> 'a word" where [isa_defs]:
  "GET_SHFT i = drop_bit 4 (MASK_SHFT AND i)"

definition GET_ALUOP :: "'a::len word \<Rightarrow> 'a word" where [isa_defs]:
  "GET_ALUOP i = MASK_ALUOP AND i"

definition GET_IMM_I :: "'a::len word \<Rightarrow> 'a word" where [isa_defs]:
  "GET_IMM_I i = drop_bit 4 (MASK_IMM_I AND i)"

definition GET_IMM_L :: "'a::len word \<Rightarrow> 'a word" where [isa_defs]:
  "GET_IMM_L i = MASK_IMM_L AND i"

definition GET_FUNCT_L :: "'a::len word \<Rightarrow> 'a word" where [isa_defs]:
  "GET_FUNCT_L i = drop_bit 14 (MASK_FUNCT_L AND i)"

definition GET_DSEL_LI :: "'a::len word \<Rightarrow> 'a word" where [isa_defs]:
  "GET_DSEL_LI i = drop_bit 17 (MASK_DSEL_LI AND i)"

definition GET_IMM_LI :: "'a::len word \<Rightarrow> 'a word" where [isa_defs]:
  "GET_IMM_LI i = MASK_IMM_LI AND i"

definition GET_FUNCT_S :: "'a::len word \<Rightarrow> 'a word" where [isa_defs]:
  "GET_FUNCT_S i = drop_bit 24 (MASK_FUNCT_S AND i) AND 0x3"

definition GET_IMM_S :: "'a::len word \<Rightarrow> 'a word" where [isa_defs]:
  "GET_IMM_S i = (MASK_IMM_LO_S AND i) OR drop_bit 10 (MASK_IMM_HI_S AND i)"

definition GET_IMM_J :: "'a::len word \<Rightarrow> 'a word" where [isa_defs]:
  "GET_IMM_J i = (MASK_IMM_LO_J AND i) OR drop_bit SHFT_IMM_HI_J (MASK_IMM_HI_J AND i)"

definition GET_IMM_B :: "'a::len word \<Rightarrow> 'a word" where [isa_defs]:
  "GET_IMM_B i = drop_bit SHFT_IMM_LO_B (MASK_IMM_LO_B AND i) OR drop_bit SHFT_IMM_HI_B (MASK_IMM_HI_B AND i)"

definition GET_FUNCT_B :: "'a::len word \<Rightarrow> 'a word" where [isa_defs]:
  "GET_FUNCT_B i = MASK_FUNCT_B AND i"

definition GET_FUNCT_SYS :: "'a::len word \<Rightarrow> 'a word" where [isa_defs]:
  "GET_FUNCT_SYS i = drop_bit 8 (MASK_FUNCT_SYS AND i)"

definition GET_IMM_SYS :: "'a::len word \<Rightarrow> 'a word" where [isa_defs]:
  "GET_IMM_SYS i = MASK_IMM_SYS AND i"

definition GET_OPC :: "'a::len word \<Rightarrow> 'a word" where [isa_defs]:
  "GET_OPC i = drop_bit 26 (MASK_OPC AND i)"

subsection \<open>Recognising the kind of an instruction\<close>

definition IS_CP_INSN :: "insn_t \<Rightarrow> bool" where [isa_defs]:
  "IS_CP_INSN i = (GET_OPC i = MASK_MSB_OPC)"

definition IS_R_INSN :: "insn_t \<Rightarrow> bool" where [isa_defs]:
  "IS_R_INSN i = (GET_OPC i = MASK_R_OPC)"

definition IS_LI_INSN :: "insn_t \<Rightarrow> bool" where [isa_defs]:
  "IS_LI_INSN i = (GET_OPC i = MASK_LI_OPC)"

definition IS_IMM_INSN :: "insn_t \<Rightarrow> bool" where [isa_defs]:
  "IS_IMM_INSN i = (GET_OPC i = MASK_IMM_OPC)"

definition IS_B_INSN :: "insn_t \<Rightarrow> bool" where [isa_defs]:
  "IS_B_INSN i = (GET_OPC i = MASK_B_OPC)"

definition IS_JMP_INSN :: "insn_t \<Rightarrow> bool" where [isa_defs]:
  "IS_JMP_INSN i = (GET_OPC i = MASK_JMP_OPC)"

definition IS_JLNK_INSN :: "insn_t \<Rightarrow> bool" where [isa_defs]:
  "IS_JLNK_INSN i = (GET_OPC i = MASK_JLNK_OPC)"

definition IS_RMEM_INSN :: "insn_t \<Rightarrow> bool" where [isa_defs]:
  "IS_RMEM_INSN i = (GET_OPC i = MASK_RMEM_OPC)"

definition IS_WMEM_INSN :: "insn_t \<Rightarrow> bool" where [isa_defs]:
  "IS_WMEM_INSN i = (GET_OPC i = MASK_WMEM_OPC)"

definition IS_SYS_INSN :: "insn_t \<Rightarrow> bool" where [isa_defs]:
  "IS_SYS_INSN i = (GET_OPC i = MASK_SYS_OPC)"

definition IS_R_TYPE :: "insn_t \<Rightarrow> bool" where [isa_defs]:
  "IS_R_TYPE i = IS_R_INSN i"

definition IS_I_TYPE :: "insn_t \<Rightarrow> bool" where [isa_defs]:
  "IS_I_TYPE i = IS_IMM_INSN i"

definition IS_L_TYPE :: "insn_t \<Rightarrow> bool" where [isa_defs]:
  "IS_L_TYPE i = IS_RMEM_INSN i"

definition IS_LI_TYPE :: "insn_t \<Rightarrow> bool" where [isa_defs]:
  "IS_LI_TYPE i = IS_LI_INSN i"

definition IS_S_TYPE :: "insn_t \<Rightarrow> bool" where [isa_defs]:
  "IS_S_TYPE i = IS_WMEM_INSN i"

definition IS_J_TYPE :: "insn_t \<Rightarrow> bool" where [isa_defs]:
  "IS_J_TYPE i = IS_JMP_INSN i"

definition IS_JL_TYPE :: "insn_t \<Rightarrow> bool" where [isa_defs]:
  "IS_JL_TYPE i = IS_JLNK_INSN i"

definition IS_B_TYPE :: "insn_t \<Rightarrow> bool" where [isa_defs]:
  "IS_B_TYPE i = IS_B_INSN i"

definition IS_SYS_TYPE :: "insn_t \<Rightarrow> bool" where [isa_defs]:
  "IS_SYS_TYPE i = IS_SYS_INSN i"

subsection \<open>Placing values into fields\<close>

definition GET_SPLIT_S_IMM_HI :: "'a::len word \<Rightarrow> 'a word" where [isa_defs]:
  "GET_SPLIT_S_IMM_HI IMM = push_bit SHFT_IMM_HI_S (IMM AND SPLIT_S_IMM_HI)"

definition GET_SPLIT_S_IMM_LO :: "'a::len word \<Rightarrow> 'a word" where [isa_defs]:
  "GET_SPLIT_S_IMM_LO IMM = IMM AND SPLIT_S_IMM_LO"

definition GET_SPLIT_J_IMM_HI :: "'a::len word \<Rightarrow> 'a word" where [isa_defs]:
  "GET_SPLIT_J_IMM_HI IMM = push_bit SHFT_IMM_HI_J (IMM AND SPLIT_J_IMM_HI)"

definition GET_SPLIT_J_IMM_LO :: "'a::len word \<Rightarrow> 'a word" where [isa_defs]:
  "GET_SPLIT_J_IMM_LO IMM = IMM AND SPLIT_J_IMM_LO"

definition GET_SPLIT_B_IMM_HI :: "'a::len word \<Rightarrow> 'a word" where [isa_defs]:
  "GET_SPLIT_B_IMM_HI IMM = push_bit SHFT_IMM_HI_B (IMM AND SPLIT_B_IMM_HI)"

definition GET_SPLIT_B_IMM_LO :: "'a::len word \<Rightarrow> 'a word" where [isa_defs]:
  "GET_SPLIT_B_IMM_LO IMM = push_bit SHFT_IMM_LO_B (IMM AND SPLIT_B_IMM_LO)"

definition GEN_OPC :: "'a::len word \<Rightarrow> 'a word" where [isa_defs]:
  "GEN_OPC OPC = push_bit 26 OPC AND 0xfc000000"

definition GEN_RD :: "'a::len word \<Rightarrow> 'a word" where [isa_defs]:
  "GEN_RD RD = push_bit 21 RD AND MASK_RD"

definition GEN_RSA :: "'a::len word \<Rightarrow> 'a word" where [isa_defs]:
  "GEN_RSA RSA = push_bit 16 RSA AND MASK_RSA"

definition GEN_RSB :: "'a::len word \<Rightarrow> 'a word" where [isa_defs]:
  "GEN_RSB RSB = push_bit 11 RSB AND MASK_RSB"

definition GEN_SHFT :: "'a::len word \<Rightarrow> 'a word" where [isa_defs]:
  "GEN_SHFT SHFT = push_bit 4 SHFT AND MASK_SHFT"

definition GEN_ALUOP :: "'a::len word \<Rightarrow> 'a word" where [isa_defs]:
  "GEN_ALUOP OP1 = GET_ALUOP OP1"

definition GEN_FUNCT_L :: "'a::len word \<Rightarrow> 'a word" where [isa_defs]:
  "GEN_FUNCT_L F = push_bit 14 (F AND 0x03)"

definition GEN_FUNCT_S :: "'a::len word \<Rightarrow> 'a word" where [isa_defs]:
  "GEN_FUNCT_S F = push_bit 24 (F AND 0x03)"

definition GEN_DSEL_LI :: "'a::len word \<Rightarrow> 'a word" where [isa_defs]:
  "GEN_DSEL_LI F = push_bit 17 (F AND 0x0f)"

definition GEN_I_IMM :: "'a::len word \<Rightarrow> 'a word" where [isa_defs]:
  "GEN_I_IMM IMM = push_bit 4 IMM AND MASK_IMM_I"

definition GEN_S_IMM :: "'a::len word \<Rightarrow> 'a word" where [isa_defs]:
  "GEN_S_IMM IMM = (GET_SPLIT_S_IMM_HI IMM OR GET_SPLIT_S_IMM_LO IMM) AND MASK_IMM_S"

definition GEN_J_IMM :: "'a::len word \<Rightarrow> 'a word" where [isa_defs]:
  "GEN_J_IMM IMM = (GET_SPLIT_J_IMM_HI IMM OR GET_SPLIT_J_IMM_LO IMM) AND MASK_IMM_J"

definition GEN_B_IMM :: "'a::len word \<Rightarrow> 'a word" where [isa_defs]:
  "GEN_B_IMM IMM = (GET_SPLIT_B_IMM_HI IMM OR GET_SPLIT_B_IMM_LO IMM) AND MASK_IMM_B"

definition GEN_SYS_IMM :: "'a::len word \<Rightarrow> 'a word" where [isa_defs]:
  "GEN_SYS_IMM IMM = IMM AND MASK_IMM_SYS"

definition GEN_L_IMM :: "'a::len word \<Rightarrow> 'a word" where [isa_defs]:
  "GEN_L_IMM IMM = GET_IMM_L IMM"

definition GEN_LI_IMM :: "'a::len word \<Rightarrow> 'a word" where [isa_defs]:
  "GEN_LI_IMM IMM = GET_IMM_LI IMM"

subsection \<open>Assembling an instruction\<close>

text \<open>
  The arguments of the \<open>MAKE_\<close> macros have type \<open>int\<close> or \<open>unsigned int\<close>; only their 32 bits matter.
\<close>

definition MAKE_R_TYPE :: "insn_t \<Rightarrow> insn_t \<Rightarrow> insn_t \<Rightarrow> insn_t \<Rightarrow> insn_t \<Rightarrow> insn_t" where [isa_defs]:
  "MAKE_R_TYPE RD RSA RSB SHFT ALUOP = push_bit 21 (RD AND 0x1f) OR push_bit 16 (RSA AND 0x1f)
     OR push_bit 11 (RSB AND 0x3f) OR (push_bit 4 SHFT AND 0x7f)
     OR (ALUOP AND 0x0f) OR push_bit 26 (OPC_INT AND 0x3f)"

definition MAKE_I_TYPE :: "insn_t \<Rightarrow> insn_t \<Rightarrow> insn_t \<Rightarrow> insn_t \<Rightarrow> insn_t" where [isa_defs]:
  "MAKE_I_TYPE RD RSA IMM ALUOP = push_bit 21 (RD AND 0x1f) OR push_bit 16 (RSA AND 0x1f)
     OR GEN_I_IMM IMM OR (ALUOP AND 0x0f)
     OR push_bit 26 (OPC_IMM AND 0x3f)"

definition MAKE_L_TYPE :: "insn_t \<Rightarrow> insn_t \<Rightarrow> insn_t \<Rightarrow> insn_t \<Rightarrow> insn_t" where [isa_defs]:
  "MAKE_L_TYPE RD RSA FUNCT IMM = push_bit 21 (RD AND 0x1f) OR push_bit 16 (RSA AND 0x1f)
     OR push_bit 14 (FUNCT AND 0x3) OR (IMM AND 0x3fff)
     OR push_bit 26 (OPC_LD AND 0x3f)"

definition MAKE_LI_TYPE :: "insn_t \<Rightarrow> insn_t \<Rightarrow> insn_t \<Rightarrow> insn_t" where [isa_defs]:
  "MAKE_LI_TYPE RD DSEL IMM = push_bit 21 (RD AND 0x1f) OR push_bit 17 (DSEL AND 0xf)
     OR (IMM AND 0xffff) OR push_bit 26 (OPC_LI AND 0x3f)"

definition MAKE_S_TYPE :: "insn_t \<Rightarrow> insn_t \<Rightarrow> insn_t \<Rightarrow> insn_t \<Rightarrow> insn_t" where [isa_defs]:
  "MAKE_S_TYPE FUNCT RSA RSB IMM = push_bit 24 (FUNCT AND 0x3) OR GEN_S_IMM IMM
     OR push_bit 16 (RSA AND 0x1f) OR push_bit 11 (RSB AND 0x1f)
     OR push_bit 26 (OPC_ST AND 0x3f)"

definition MAKE_J_TYPE :: "insn_t \<Rightarrow> insn_t \<Rightarrow> insn_t" where [isa_defs]:
  "MAKE_J_TYPE RSA IMM = GEN_RSA RSA OR GEN_J_IMM IMM
     OR push_bit 26 (OPC_JMP AND 0x3f)"

definition MAKE_JL_TYPE :: "insn_t \<Rightarrow> insn_t \<Rightarrow> insn_t" where [isa_defs]:
  "MAKE_JL_TYPE RSA IMM = push_bit 16 (RSA AND 0x1f) OR GEN_J_IMM IMM
     OR push_bit 26 (OPC_JLNK AND 0x3f)"

definition MAKE_B_TYPE :: "insn_t \<Rightarrow> insn_t \<Rightarrow> insn_t \<Rightarrow> insn_t \<Rightarrow> insn_t" where [isa_defs]:
  "MAKE_B_TYPE RSA RSB IMM FUNCT = push_bit 16 (RSA AND 0x1f) OR push_bit 11 (RSB AND 0x1f)
     OR GEN_B_IMM IMM OR (FUNCT AND 0x3)
     OR push_bit 26 (OPC_BRANCH AND 0x3f)"

definition MAKE_SYS_TYPE :: "insn_t \<Rightarrow> insn_t \<Rightarrow> insn_t \<Rightarrow> insn_t \<Rightarrow> insn_t" where [isa_defs]:
  "MAKE_SYS_TYPE RD RSA FUNCT IMM = push_bit 21 (RD AND 0x1f) OR push_bit 16 (RSA AND 0x1f)
     OR push_bit 8 (FUNCT AND 0xff) OR GEN_SYS_IMM IMM
     OR push_bit 26 (OPC_SYS AND 0x3f)"

subsection \<open>The abstract view of an instruction\<close>

text \<open>
  An instruction is its format with its fields at their widths. \<open>encode\<close> applies the
  \<open>MAKE_\<close> macro of the format; \<open>decode\<close> recognises the format as the disassembler does and
  reads the fields with the \<open>GET_\<close> macros.
\<close>

datatype insn =
    R_insn (r_rd: "5 word") (r_rsa: "5 word") (r_rsb: "5 word") (r_shft: "7 word") (r_aluop: "4 word")
  | I_insn "5 word" "5 word" "12 word" "4 word"
  | L_insn "5 word" "5 word" "2 word" "14 word"
  | LI_insn "5 word" "4 word" "16 word"
  | S_insn "2 word" "5 word" "5 word" "14 word"
  | J_insn "5 word" "21 word"
  | JL_insn "5 word" "21 word"
  | B_insn "5 word" "5 word" "14 word" "2 word"
  | SYS_insn "5 word" "5 word" "8 word" "8 word"

fun encode :: "insn \<Rightarrow> insn_t" where
  "encode (R_insn rd rsa rsb shft aluop) =
     MAKE_R_TYPE (ucast rd) (ucast rsa) (ucast rsb) (ucast shft) (ucast aluop)"
| "encode (I_insn rd rsa imm aluop) = MAKE_I_TYPE (ucast rd) (ucast rsa) (ucast imm) (ucast aluop)"
| "encode (L_insn rd rsa funct imm) = MAKE_L_TYPE (ucast rd) (ucast rsa) (ucast funct) (ucast imm)"
| "encode (LI_insn rd dsel imm) = MAKE_LI_TYPE (ucast rd) (ucast dsel) (ucast imm)"
| "encode (S_insn funct rsa rsb imm) = MAKE_S_TYPE (ucast funct) (ucast rsa) (ucast rsb) (ucast imm)"
| "encode (J_insn rsa imm) = MAKE_J_TYPE (ucast rsa) (ucast imm)"
| "encode (JL_insn rsa imm) = MAKE_JL_TYPE (ucast rsa) (ucast imm)"
| "encode (B_insn rsa rsb imm funct) = MAKE_B_TYPE (ucast rsa) (ucast rsb) (ucast imm) (ucast funct)"
| "encode (SYS_insn rd rsa funct imm) = MAKE_SYS_TYPE (ucast rd) (ucast rsa) (ucast funct) (ucast imm)"

definition decode :: "insn_t \<Rightarrow> insn option" where
  "decode w =
     (if IS_R_TYPE w then Some (R_insn (ucast (GET_RD w)) (ucast (GET_RSA w)) (ucast (GET_RSB w))
         (ucast (GET_SHFT w)) (ucast (GET_ALUOP w)))
      else if IS_I_TYPE w then Some (I_insn (ucast (GET_RD w)) (ucast (GET_RSA w)) (ucast (GET_IMM_I w))
         (ucast (GET_ALUOP w)))
      else if IS_L_TYPE w then Some (L_insn (ucast (GET_RD w)) (ucast (GET_RSA w)) (ucast (GET_FUNCT_L w))
         (ucast (GET_IMM_L w)))
      else if IS_LI_TYPE w then Some (LI_insn (ucast (GET_RD w)) (ucast (GET_DSEL_LI w)) (ucast (GET_IMM_LI w)))
      else if IS_S_TYPE w then Some (S_insn (ucast (GET_FUNCT_S w)) (ucast (GET_RSA w)) (ucast (GET_RSB w))
         (ucast (GET_IMM_S w)))
      else if IS_J_TYPE w then Some (J_insn (ucast (GET_RSA w)) (ucast (GET_IMM_J w)))
      else if IS_JL_TYPE w then Some (JL_insn (ucast (GET_RSA w)) (ucast (GET_IMM_J w)))
      else if IS_B_TYPE w then Some (B_insn (ucast (GET_RSA w)) (ucast (GET_RSB w)) (ucast (GET_IMM_B w))
         (ucast (GET_FUNCT_B w)))
      else if IS_SYS_TYPE w then Some (SYS_insn (ucast (GET_RD w)) (ucast (GET_RSA w)) (ucast (GET_FUNCT_SYS w))
         (ucast (GET_IMM_SYS w)))
      else None)"

text \<open>The instructions \<open>encode\<close> represents exactly, and the words without stray bits.\<close>

fun representable :: "insn \<Rightarrow> bool" where
  "representable (R_insn rd rsa rsb shft aluop) \<longleftrightarrow> shft < 8"
| "representable _ \<longleftrightarrow> True"

definition canonical :: "insn_t \<Rightarrow> bool" where
  "canonical w \<longleftrightarrow> (IS_R_TYPE w \<longrightarrow> GET_SHFT w < 8) \<and> (IS_LI_TYPE w \<longrightarrow> \<not> bit w 16)"

section \<open>Properties\<close>

subsection \<open>The interface of a field\<close>

text \<open>
  A field of \<open>width\<close> bits of an instruction word: what \<open>gen\<close> places under \<open>mask\<close>, \<open>get\<close>
  reads back, and the two are inverse on the masked bits. The clients replace a field in a
  word, as the assembler's fixups and the linker's relocations do.
\<close>

locale bitfield =
  fixes get :: "insn_t \<Rightarrow> insn_t" and gen :: "insn_t \<Rightarrow> insn_t"
    and mask :: insn_t and width :: nat
  assumes get_gen: "get (gen v) = take_bit width v"
    and gen_get: "gen (get w) = w AND mask"
    and get_mask: "get (w AND mask) = get w"
    and get_or: "get (v OR w) = get v OR get w"
    and gen_and_mask: "gen v AND mask = gen v"
begin

lemma gen_disjoint: "m AND mask = 0 \<Longrightarrow> gen v AND m = 0"
proof -
  assume "m AND mask = 0"
  then have "gen v AND (m AND mask) = 0" by simp
  then show ?thesis by (metis and.assoc and.commute gen_and_mask)
qed

lemma get_zero: "get 0 = 0"
  using get_or [of 0 "gen 0"] by (simp add: get_gen)

lemma get_other: "w AND mask = 0 \<Longrightarrow> get w = 0"
  by (metis get_mask get_zero)

lemma get_small: "take_bit width (get w) = get w"
  by (metis gen_get get_gen get_mask)

lemma get_bound: "unat (get w) < 2 ^ width"
  by (metis get_small take_bit_nat_less_exp unsigned_take_bit_eq)

lemma get_eq_iff: "get v = get w \<longleftrightarrow> v AND mask = w AND mask"
  by (metis gen_get get_mask)

lemma get_put: "get ((w AND NOT mask) OR gen v) = take_bit width v"
proof -
  have "(w AND NOT mask) AND mask = 0" by (simp add: and.assoc)
  then show ?thesis by (simp add: get_or get_gen get_other)
qed

lemma get_or_gen: "w AND mask = 0 \<Longrightarrow> get (w OR gen v) = take_bit width v"
  by (simp add: get_or get_gen get_other)

lemma put_get: "(w AND NOT mask) OR gen (get w) = w"
  by (simp add: gen_get bit_eq_iff bit_simps) blast

lemma put_keeps: "mask AND m = 0 \<Longrightarrow> ((w AND NOT mask) OR gen v) AND m = w AND m"
proof -
  assume m: "mask AND m = 0"
  have "gen v AND m = 0" using gen_disjoint m by (simp add: and.commute)
  moreover have "w AND NOT mask AND m = w AND m"
    using m by (intro bit_word_eqI) (auto simp: bit_eq_iff bit_simps)
  ultimately show ?thesis by (simp add: bit.conj_disj_distrib2 and.assoc)
qed

lemma gen_cong: "take_bit width u = take_bit width v \<Longrightarrow> gen u = gen v"
  by (metis gen_and_mask gen_get get_gen)

lemma or_gen_keeps: "mask AND m = 0 \<Longrightarrow> (w OR gen v) AND m = w AND m"
  using gen_disjoint [of m v] by (simp add: bit.conj_disj_distrib bit.conj_disj_distrib2 and.commute)

end

subsection \<open>Every field is an instance\<close>

text \<open>
  \<open>MASK_FUNCT_S\<close> covers two bits of the opcode as well, which \<open>GET_FUNCT_S\<close> masks away
  again: the field of the store width is the bits 24 and 25.
\<close>

interpretation rd: bitfield GET_RD GEN_RD MASK_RD 5
  by unfold_locales (simp_all add: isa_defs word_bits)

interpretation rsa: bitfield GET_RSA GEN_RSA MASK_RSA 5
  by unfold_locales (simp_all add: isa_defs word_bits)

interpretation rsb: bitfield GET_RSB GEN_RSB MASK_RSB 5
  by unfold_locales (simp_all add: isa_defs word_bits)

interpretation shft: bitfield GET_SHFT GEN_SHFT MASK_SHFT 7
  by unfold_locales (simp_all add: isa_defs word_bits)

interpretation aluop: bitfield GET_ALUOP GEN_ALUOP MASK_ALUOP 4
  by unfold_locales (simp_all add: isa_defs word_bits)

interpretation imm_i: bitfield GET_IMM_I GEN_I_IMM MASK_IMM_I 12
  by unfold_locales (simp_all add: isa_defs word_bits)

interpretation imm_l: bitfield GET_IMM_L GEN_L_IMM MASK_IMM_L 14
  by unfold_locales (simp_all add: isa_defs word_bits)

interpretation funct_l: bitfield GET_FUNCT_L GEN_FUNCT_L MASK_FUNCT_L 2
  by unfold_locales (simp_all add: isa_defs word_bits)

interpretation dsel_li: bitfield GET_DSEL_LI GEN_DSEL_LI MASK_DSEL_LI 4
  by unfold_locales (simp_all add: isa_defs word_bits)

interpretation imm_li: bitfield GET_IMM_LI GEN_LI_IMM MASK_IMM_LI 16
  by unfold_locales (simp_all add: isa_defs word_bits)

interpretation funct_s: bitfield GET_FUNCT_S GEN_FUNCT_S "0x03000000" 2
  by unfold_locales (simp_all add: isa_defs word_bits)

interpretation imm_s: bitfield GET_IMM_S GEN_S_IMM MASK_IMM_S 14
  by unfold_locales (simp_all add: isa_defs word_bits)

interpretation imm_j: bitfield GET_IMM_J GEN_J_IMM MASK_IMM_J 21
  by unfold_locales (simp_all add: isa_defs word_bits)

interpretation imm_b: bitfield GET_IMM_B GEN_B_IMM MASK_IMM_B 14
  by unfold_locales (simp_all add: isa_defs word_bits)

interpretation funct_b: bitfield GET_FUNCT_B "\<lambda>FUNCT. FUNCT AND 0x3" MASK_FUNCT_B 2
  by unfold_locales (simp_all add: isa_defs word_bits)

interpretation funct_sys: bitfield GET_FUNCT_SYS "\<lambda>FUNCT. push_bit 8 (FUNCT AND 0xff)" MASK_FUNCT_SYS 8
  by unfold_locales (simp_all add: isa_defs word_bits)

interpretation imm_sys: bitfield GET_IMM_SYS GEN_SYS_IMM MASK_IMM_SYS 8
  by unfold_locales (simp_all add: isa_defs word_bits)

interpretation opc: bitfield GET_OPC GEN_OPC MASK_OPC 6
  by unfold_locales (simp_all add: isa_defs word_bits)


subsection \<open>Encoding and decoding\<close>

fun opcode :: "insn \<Rightarrow> insn_t" where
  "opcode (R_insn _ _ _ _ _) = OPC_INT"
| "opcode (I_insn _ _ _ _) = OPC_IMM"
| "opcode (L_insn _ _ _ _) = OPC_LD"
| "opcode (LI_insn _ _ _) = OPC_LI"
| "opcode (S_insn _ _ _ _) = OPC_ST"
| "opcode (J_insn _ _) = OPC_JMP"
| "opcode (JL_insn _ _) = OPC_JLNK"
| "opcode (B_insn _ _ _ _) = OPC_BRANCH"
| "opcode (SYS_insn _ _ _ _) = OPC_SYS"

lemma GET_OPC_encode: "GET_OPC (encode i) = opcode i"
  by (cases i) (simp_all add: isa_defs word_bits)

lemmas is_type_defs =
  IS_R_TYPE_def IS_I_TYPE_def IS_L_TYPE_def IS_LI_TYPE_def IS_S_TYPE_def IS_J_TYPE_def
  IS_JL_TYPE_def IS_B_TYPE_def IS_SYS_TYPE_def IS_R_INSN_def IS_IMM_INSN_def IS_RMEM_INSN_def
  IS_LI_INSN_def IS_WMEM_INSN_def IS_JMP_INSN_def IS_JLNK_INSN_def IS_B_INSN_def IS_SYS_INSN_def
  MASK_R_OPC_def MASK_LI_OPC_def MASK_IMM_OPC_def MASK_B_OPC_def MASK_JMP_OPC_def MASK_JLNK_OPC_def
  MASK_RMEM_OPC_def MASK_WMEM_OPC_def MASK_SYS_OPC_def

lemmas opc_defs =
  OPC_INT_def OPC_IMM_def OPC_LD_def OPC_LI_def OPC_ST_def OPC_JMP_def OPC_JLNK_def
  OPC_BRANCH_def OPC_SYS_def


lemma less_8_drop_bit:
  assumes "3 < LENGTH('a)"
  shows "(x :: 'a::len word) < 8 \<longleftrightarrow> drop_bit 3 x = 0"
proof -
  have "unat (8 :: 'a word) = 8"
    using assms by (simp add: unat_numeral take_bit_nat_eq_self_iff power_strict_increasing [of 3 _ "2::nat", simplified])
  then have "x < 8 \<longleftrightarrow> unat x div 2 ^ 3 = 0"
    by (auto simp: word_less_nat_alt div_eq_0_iff)
  also have "\<dots> \<longleftrightarrow> drop_bit 3 x = 0"
    by (simp only: unat_eq_0 [symmetric] unat_drop_bit_eq) (simp only: drop_bit_eq_div)
  finally show ?thesis .
qed

lemma decode_encode: "representable i \<Longrightarrow> decode (encode i) = Some i"
proof (cases i)
qed (simp_all only: decode_def is_type_defs GET_OPC_encode opcode.simps,
     simp_all add: less_8_drop_bit isa_defs word_bits)

lemma decode_encode_R:
  "decode (encode (R_insn rd rsa rsb shft aluop)) = Some (R_insn rd rsa rsb (take_bit 3 shft) aluop)"
  by (simp only: decode_def is_type_defs GET_OPC_encode opcode.simps) (simp add: isa_defs word_bits)

lemma take_bit_3_less: "take_bit 3 x = (x :: 7 word) \<longleftrightarrow> x < 8"
  by (simp add: less_8_drop_bit take_bit_eq_self_iff_drop_bit_eq_0)

lemma word_opc: "(w :: insn_t) = (w AND 0x3ffffff) OR push_bit 26 (GET_OPC w)"
  by (simp add: isa_defs word_bits)

lemma encode_decode: "decode w = Some i \<Longrightarrow> canonical w \<Longrightarrow> encode i = w"
  by (subst (2) word_opc)
     (auto simp: decode_def canonical_def is_type_defs opc_defs less_8_drop_bit split: if_splits,
      simp_all add: isa_defs word_bits)

lemma canonical_encode: "canonical (encode i)"
  by (cases i; simp only: canonical_def is_type_defs GET_OPC_encode opcode.simps)
     (simp_all add: less_8_drop_bit isa_defs word_bits)

lemma no_cp: "\<not> IS_CP_INSN w"
proof -
  have "GET_OPC w AND 0x3f = GET_OPC w"
    by (simp add: isa_defs word_bits)
  then show ?thesis
    by (auto simp: IS_CP_INSN_def MASK_MSB_OPC_def)
qed

section \<open>Properties of the instruction set\<close>

subsection \<open>Changing the immediate of an instruction\<close>

lemma decode_iff:
  "decode w = Some (L_insn rd rsa f2 i14) \<longleftrightarrow> GET_OPC w = OPC_LD \<and> rd = ucast (GET_RD w) \<and> rsa = ucast (GET_RSA w) \<and>
     f2 = ucast (GET_FUNCT_L w) \<and> i14 = ucast (GET_IMM_L w)"
  "decode w = Some (LI_insn rd dsel i16) \<longleftrightarrow> GET_OPC w = OPC_LI \<and> rd = ucast (GET_RD w) \<and>
     dsel = ucast (GET_DSEL_LI w) \<and> i16 = ucast (GET_IMM_LI w)"
  "decode w = Some (S_insn f2 rsa rsb i14) \<longleftrightarrow> GET_OPC w = OPC_ST \<and> f2 = ucast (GET_FUNCT_S w) \<and>
     rsa = ucast (GET_RSA w) \<and> rsb = ucast (GET_RSB w) \<and> i14 = ucast (GET_IMM_S w)"
  "decode w = Some (J_insn rsa i21) \<longleftrightarrow> GET_OPC w = OPC_JMP \<and> rsa = ucast (GET_RSA w) \<and> i21 = ucast (GET_IMM_J w)"
  "decode w = Some (JL_insn rsa i21) \<longleftrightarrow> GET_OPC w = OPC_JLNK \<and> rsa = ucast (GET_RSA w) \<and> i21 = ucast (GET_IMM_J w)"
  "decode w = Some (B_insn rsa rsb i14 f2) \<longleftrightarrow> GET_OPC w = OPC_BRANCH \<and> rsa = ucast (GET_RSA w) \<and>
     rsb = ucast (GET_RSB w) \<and> i14 = ucast (GET_IMM_B w) \<and> f2 = ucast (GET_FUNCT_B w)"
  by (auto simp: decode_def is_type_defs opc_defs)

lemma masks_disjoint:
  "MASK_IMM_B AND MASK_OPC = (0 :: insn_t)" "MASK_IMM_B AND MASK_RSA = (0 :: insn_t)"
  "MASK_IMM_B AND MASK_RSB = (0 :: insn_t)" "MASK_IMM_B AND MASK_FUNCT_B = (0 :: insn_t)"
  "MASK_IMM_LI AND MASK_OPC = (0 :: insn_t)" "MASK_IMM_LI AND MASK_RD = (0 :: insn_t)"
  "MASK_IMM_LI AND MASK_DSEL_LI = (0 :: insn_t)"
  "MASK_IMM_J AND MASK_OPC = (0 :: insn_t)" "MASK_IMM_J AND MASK_RSA = (0 :: insn_t)"
  "MASK_IMM_L AND MASK_OPC = (0 :: insn_t)" "MASK_IMM_L AND MASK_RD = (0 :: insn_t)"
  "MASK_IMM_L AND MASK_RSA = (0 :: insn_t)" "MASK_IMM_L AND MASK_FUNCT_L = (0 :: insn_t)"
  "MASK_IMM_S AND MASK_OPC = (0 :: insn_t)" "MASK_IMM_S AND 0x03000000 = (0 :: insn_t)"
  "MASK_IMM_S AND MASK_RSA = (0 :: insn_t)" "MASK_IMM_S AND MASK_RSB = (0 :: insn_t)"
  by (simp_all add: isa_defs)

lemma decode_put_imm_b:
  "decode w = Some (B_insn rsa rsb imm f) \<Longrightarrow>
   decode ((w AND NOT MASK_IMM_B) OR GEN_B_IMM v) = Some (B_insn rsa rsb (ucast v) f)"
  by (simp add: decode_iff imm_b.get_put opc.get_eq_iff [THEN iffD2, OF imm_b.put_keeps] 
    rsa.get_eq_iff [THEN iffD2, OF imm_b.put_keeps] rsb.get_eq_iff [THEN iffD2, OF imm_b.put_keeps]
    funct_b.get_eq_iff [THEN iffD2, OF imm_b.put_keeps] masks_disjoint)
   (simp add: word_bits)

lemma decode_put_imm_li:
  "decode w = Some (LI_insn rd dsel imm) \<Longrightarrow>
   decode ((w AND NOT MASK_IMM_LI) OR GEN_LI_IMM v) = Some (LI_insn rd dsel (ucast v))"
  by (simp add: decode_iff imm_li.get_put opc.get_eq_iff [THEN iffD2, OF imm_li.put_keeps] 
    rd.get_eq_iff [THEN iffD2, OF imm_li.put_keeps] dsel_li.get_eq_iff [THEN iffD2, OF imm_li.put_keeps]
    masks_disjoint)
   (simp add: word_bits)

lemma decode_put_imm_j:
  "decode w = Some (J_insn rsa imm) \<Longrightarrow>
   decode ((w AND NOT MASK_IMM_J) OR GEN_J_IMM v) = Some (J_insn rsa (ucast v))"
  "decode w = Some (JL_insn rsa imm) \<Longrightarrow>
   decode ((w AND NOT MASK_IMM_J) OR GEN_J_IMM v) = Some (JL_insn rsa (ucast v))"
  by (simp_all add: decode_iff imm_j.get_put opc.get_eq_iff [THEN iffD2, OF imm_j.put_keeps] 
    rsa.get_eq_iff [THEN iffD2, OF imm_j.put_keeps] masks_disjoint)
   (simp_all add: word_bits)

lemma decode_or_imm_l:
  "decode w = Some (L_insn rd rsa f imm) \<Longrightarrow>
   decode (w OR GEN_L_IMM v) = Some (L_insn rd rsa f (imm OR ucast v))"
  by (simp add: decode_iff imm_l.get_or imm_l.get_gen opc.get_eq_iff [THEN iffD2, OF imm_l.or_gen_keeps] 
    rsa.get_eq_iff [THEN iffD2, OF imm_l.or_gen_keeps] rd.get_eq_iff [THEN iffD2, OF imm_l.or_gen_keeps]
    funct_l.get_eq_iff [THEN iffD2, OF imm_l.or_gen_keeps] masks_disjoint)
   (simp add: word_bits)

lemma decode_or_imm_s:
  "decode w = Some (S_insn f rsa rsb imm) \<Longrightarrow>
   decode (w OR GEN_S_IMM v) = Some (S_insn f rsa rsb (imm OR ucast v))"
  by (simp add: decode_iff imm_s.get_or imm_s.get_gen opc.get_eq_iff [THEN iffD2, OF imm_s.or_gen_keeps] 
    rsa.get_eq_iff [THEN iffD2, OF imm_s.or_gen_keeps] rsb.get_eq_iff [THEN iffD2, OF imm_s.or_gen_keeps]
    funct_s.get_eq_iff [THEN iffD2, OF imm_s.or_gen_keeps] masks_disjoint)
   (simp add: word_bits)

subsection \<open>Properties\<close>

text \<open>
  C1: an instruction survives encoding and decoding exactly when it is representable:
  every instruction of the formats I, L, LI, S, J, JL, B and SYS does, with all its fields,
  and an R instruction does when its shift amount is below eight. The macro \<open>MAKE_R_TYPE\<close>
  masks the shifted amount with \<open>0x7f\<close> instead of \<open>MASK_SHFT\<close> and so loses its upper four
  bits.
\<close>

theorem isa_roundtrip: "decode (encode i) = Some i \<longleftrightarrow> representable i"
  by (cases i) (simp_all add: decode_encode decode_encode_R take_bit_3_less del: encode.simps)

text \<open>
  C12: re-encoding a decoded word gives the word back exactly when the word is canonical,
  that is, has no bit the formats R and LI ignore.
\<close>

theorem isa_reencode:
  assumes "decode w = Some i"
  shows "encode i = w \<longleftrightarrow> canonical w"
  using assms encode_decode canonical_encode by auto

theorem isa_reencode_witness:
  "decode 0x58220015 = Some (I_insn 1 2 1 5) \<and> encode (I_insn 1 2 1 5) = 0x58220015"
proof -
  have d: "decode 0x58220015 = Some (I_insn 1 2 1 5)"
    by (simp add: decode_def isa_defs)
  with isa_reencode [OF d] show ?thesis
    by (simp add: canonical_def isa_defs)
qed

text \<open>
  C13: the formats are told apart: a word is recognised by at most one of the \<open>IS_\<close> macros,
  \<open>decode\<close> succeeds exactly on the words one of them recognises, and the macro for
  coprocessor instructions recognises no word at all, because it compares the six bits of
  the opcode with \<open>0x11000000\<close>.
\<close>

theorem isa_formats_disjoint:
  "length (filter (\<lambda>is_type. is_type w) [IS_R_TYPE, IS_I_TYPE, IS_L_TYPE, IS_LI_TYPE, IS_S_TYPE,
       IS_J_TYPE, IS_JL_TYPE, IS_B_TYPE, IS_SYS_TYPE]) = (if decode w = None then 0 else 1) \<and>
   \<not> IS_CP_INSN w"
proof
  show "length (filter (\<lambda>is_type. is_type w) [IS_R_TYPE, IS_I_TYPE, IS_L_TYPE, IS_LI_TYPE, IS_S_TYPE,
       IS_J_TYPE, IS_JL_TYPE, IS_B_TYPE, IS_SYS_TYPE]) = (if decode w = None then 0 else 1)"
    by (simp add: decode_def is_type_defs opc_defs)
qed (rule no_cp)

end
