(* ===== verification/Elf_Fusion.thy ===== *)
theory Elf_Fusion
  imports Bfd_Reloc Fusion_ISA
begin

text \<open>
  The ELF back end of the linker, \<^verbatim>\<open>bfd/elf32-fusion.c\<close>: the table of relocation types, the
  maps from generic relocation codes and from names, and the relocation of a section. With
  it the parts of \<^verbatim>\<open>bfd/elf.c\<close> and \<^verbatim>\<open>bfd/elf-bfd.h\<close> that the loop over the relocations
  expands: the value of a local symbol, \<open>RELOC_FOR_GLOBAL_SYMBOL\<close> and
  \<open>RELOC_AGAINST_DISCARDED_SECTION\<close>.
\<close>

subsection \<open>Relocation types\<close>

definition R_FUSION_NONE :: nat where "R_FUSION_NONE = 0"
definition R_FUSION_32 :: nat where "R_FUSION_32 = 1"
definition R_FUSION_LI :: nat where "R_FUSION_LI = 2"
definition R_FUSION_LUI :: nat where "R_FUSION_LUI = 3"
definition R_FUSION_LI_PCREL :: nat where "R_FUSION_LI_PCREL = 4"
definition R_FUSION_LUI_PCREL :: nat where "R_FUSION_LUI_PCREL = 5"
definition R_FUSION_SYS :: nat where "R_FUSION_SYS = 6"
definition R_FUSION_I :: nat where "R_FUSION_I = 7"
definition R_FUSION_RELATIVE :: nat where "R_FUSION_RELATIVE = 8"
definition R_FUSION_LOAD :: nat where "R_FUSION_LOAD = 9"
definition R_FUSION_STORE :: nat where "R_FUSION_STORE = 10"
definition R_FUSION_BRANCH :: nat where "R_FUSION_BRANCH = 11"
definition R_FUSION_JUMP :: nat where "R_FUSION_JUMP = 12"
definition R_FUSION_JUMP_O :: nat where "R_FUSION_JUMP_O = 13"
definition R_FUSION_max :: nat where "R_FUSION_max = 14"

lemmas reloc_number_defs =
  R_FUSION_NONE_def R_FUSION_32_def R_FUSION_LI_def R_FUSION_LUI_def R_FUSION_LI_PCREL_def
  R_FUSION_LUI_PCREL_def R_FUSION_SYS_def R_FUSION_I_def R_FUSION_RELATIVE_def R_FUSION_LOAD_def
  R_FUSION_STORE_def R_FUSION_BRANCH_def R_FUSION_JUMP_def R_FUSION_JUMP_O_def R_FUSION_max_def

text \<open>The generic relocation codes this target uses; every other code is \<open>BFD_RELOC_other\<close>.\<close>

datatype bfd_reloc_code =
    BFD_RELOC_NONE | BFD_RELOC_64 | BFD_RELOC_32 | BFD_RELOC_16 | BFD_RELOC_8
  | BFD_RELOC_16_PCREL | BFD_RELOC_HI16_PCREL
  | BFD_RELOC_FUSION_HI16 | BFD_RELOC_FUSION_12 | BFD_RELOC_FUSION_STORE | BFD_RELOC_FUSION_LOAD
  | BFD_RELOC_FUSION_14_PCREL | BFD_RELOC_FUSION_21_PCREL | BFD_RELOC_FUSION_21
  | BFD_RELOC_RVA | BFD_RELOC_VTABLE_INHERIT | BFD_RELOC_VTABLE_ENTRY | BFD_RELOC_GPREL32 | BFD_RELOC_GPREL16
  | BFD_RELOC_UNUSED | BFD_RELOC_other nat

definition MASK_ALL :: bfd_vma where "MASK_ALL = 0xffffffff"

definition HOWTO ::
  "nat \<Rightarrow> nat \<Rightarrow> int \<Rightarrow> nat \<Rightarrow> bool \<Rightarrow> nat \<Rightarrow> complain_overflow \<Rightarrow> special_function_type option \<Rightarrow> string
     \<Rightarrow> bool \<Rightarrow> bfd_vma \<Rightarrow> bfd_vma \<Rightarrow> bool \<Rightarrow> reloc_howto_type" where
  "HOWTO C R S B P BI O1 SF NAME INPLACE MASKSRC MASKDST PC =
     \<lparr>howto_type = C, howto_rightshift = R, howto_size = S, howto_bitsize = B, howto_pc_relative = P,
      howto_bitpos = BI, howto_complain = O1, howto_special = SF, howto_name = Some NAME,
      howto_partial_inplace = INPLACE, howto_src_mask = MASKSRC, howto_dst_mask = MASKDST,
      howto_pcrel_offset = PC\<rparr>"

definition fusion_elf_howto_table :: "reloc_howto_type list" where
  "fusion_elf_howto_table =
    [HOWTO R_FUSION_NONE 0 3 0 False 0 complain_overflow_dont
       (Some bfd_elf_generic_reloc_fn) ''R_FUSION_NONE'' False 0 0 False,
     HOWTO R_FUSION_32 0 2 32 False 0 complain_overflow_dont
       (Some bfd_elf_generic_reloc_fn) ''R_FUSION_32'' False 0xffffffff 0xffffffff False,
     HOWTO R_FUSION_LI 0 2 32 False 0 complain_overflow_dont
       (Some bfd_elf_generic_reloc_fn) ''R_FUSION_LI'' False 0 0x0000ffff False,
     HOWTO R_FUSION_LUI 16 2 32 False 0 complain_overflow_dont
       (Some bfd_elf_generic_reloc_fn) ''R_FUSION_LUI'' False 0 0x0000ffff False,
     HOWTO R_FUSION_LI_PCREL 0 2 32 False 0 complain_overflow_dont
       (Some bfd_elf_generic_reloc_fn) ''R_FUSION_LI_PCREL'' False 0x00000000 (GEN_LI_IMM MASK_IMM_LI) True,
     HOWTO R_FUSION_LUI_PCREL 0 2 32 False 0 complain_overflow_dont
       (Some bfd_elf_generic_reloc_fn) ''R_FUSION_LUI_PCREL'' False 0x00000000 (GEN_LI_IMM MASK_IMM_LI) True,
     HOWTO R_FUSION_SYS 0 2 32 False 0 complain_overflow_dont
       (Some bfd_elf_generic_reloc_fn) ''R_FUSION_SYS'' False 0xffffffff (GEN_SYS_IMM MASK_ALL) False,
     HOWTO R_FUSION_I 0 2 32 False 0 complain_overflow_dont
       (Some bfd_elf_generic_reloc_fn) ''R_FUSION_I'' False 0xffffffff 0xffffffff False,
     HOWTO R_FUSION_RELATIVE 0 2 32 True 0 complain_overflow_dont
       (Some bfd_elf_generic_reloc_fn) ''R_FUSION_RELATIVE'' False 0x00000000 0xffffffff False,
     HOWTO R_FUSION_LOAD 0 2 14 True 0 complain_overflow_dont
       (Some bfd_elf_generic_reloc_fn) ''R_FUSION_LOAD'' False 0 (GEN_L_IMM MASK_ALL) False,
     HOWTO R_FUSION_STORE 0 2 32 True 0 complain_overflow_dont
       (Some bfd_elf_generic_reloc_fn) ''R_FUSION_STORE'' False 0 (GEN_S_IMM MASK_ALL) False,
     HOWTO R_FUSION_BRANCH 0 2 32 True 0 complain_overflow_dont
       (Some bfd_elf_generic_reloc_fn) ''R_FUSION_BRANCH'' False 0 (GEN_B_IMM MASK_ALL) True,
     HOWTO R_FUSION_JUMP 0 2 32 True 0 complain_overflow_dont
       (Some bfd_elf_generic_reloc_fn) ''R_FUSION_JUMP'' False 0 (GEN_J_IMM MASK_ALL) True,
     HOWTO R_FUSION_JUMP_O 0 2 32 False 0 complain_overflow_dont
       (Some bfd_elf_generic_reloc_fn) ''R_FUSION_JUMP_O'' False 0 (GEN_J_IMM MASK_ALL) False]"

definition fusion_reloc_map :: "(bfd_reloc_code \<times> nat) list" where
  "fusion_reloc_map =
    [(BFD_RELOC_NONE, R_FUSION_NONE),
     (BFD_RELOC_32, R_FUSION_32),
     (BFD_RELOC_16, R_FUSION_LI),
     (BFD_RELOC_FUSION_HI16, R_FUSION_LUI),
     (BFD_RELOC_16_PCREL, R_FUSION_LI_PCREL),
     (BFD_RELOC_HI16_PCREL, R_FUSION_LUI_PCREL),
     (BFD_RELOC_8, R_FUSION_SYS),
     (BFD_RELOC_FUSION_12, R_FUSION_I),
     (BFD_RELOC_FUSION_STORE, R_FUSION_STORE),
     (BFD_RELOC_FUSION_LOAD, R_FUSION_LOAD),
     (BFD_RELOC_FUSION_14_PCREL, R_FUSION_BRANCH),
     (BFD_RELOC_FUSION_21_PCREL, R_FUSION_JUMP),
     (BFD_RELOC_FUSION_21, R_FUSION_JUMP_O)]"

subsection \<open>Looking up a relocation type\<close>

text \<open>\<open>for (i = n; i--; )\<close>: the map is searched from its end.\<close>

fun type_lookup_loop :: "(bfd_reloc_code \<times> nat) list \<Rightarrow> nat \<Rightarrow> bfd_reloc_code \<Rightarrow> reloc_howto_type option result" where
  "type_lookup_loop m 0 code = Inr None"
| "type_lookup_loop m (Suc i) code =
     rbind (rd8 m i) (\<lambda>(bfd_reloc_val, fusion_reloc_val).
     if bfd_reloc_val = code then rbind (rd8 fusion_elf_howto_table fusion_reloc_val) (\<lambda>h. Inr (Some h))
     else type_lookup_loop m i code)"

definition fusion_reloc_type_lookup :: "bfd_reloc_code \<Rightarrow> reloc_howto_type option result" where
  "fusion_reloc_type_lookup code = type_lookup_loop fusion_reloc_map (length fusion_reloc_map) code"

definition TOLOWER :: "char \<Rightarrow> char" where
  "TOLOWER c = (let n = of_char c :: nat in if 65 \<le> n \<and> n \<le> 90 then char_of (n + 32) else c)"

definition strcasecmp_eq :: "string \<Rightarrow> string \<Rightarrow> bool" where
  "strcasecmp_eq a b \<longleftrightarrow> map TOLOWER a = map TOLOWER b"

fun name_lookup_loop :: "reloc_howto_type list \<Rightarrow> string \<Rightarrow> reloc_howto_type option" where
  "name_lookup_loop [] r_name = None"
| "name_lookup_loop (h # hs) r_name =
     (case howto_name h of
        None \<Rightarrow> name_lookup_loop hs r_name
      | Some nm \<Rightarrow> if strcasecmp_eq nm r_name then Some h else name_lookup_loop hs r_name)"

definition fusion_reloc_name_lookup :: "string \<Rightarrow> reloc_howto_type option" where
  "fusion_reloc_name_lookup r_name = name_lookup_loop fusion_elf_howto_table r_name"

record Elf_Internal_Rela =
  r_offset :: bfd_vma
  r_info :: bfd_vma
  r_addend :: bfd_vma

definition ELF32_R_TYPE :: "bfd_vma \<Rightarrow> nat" where
  "ELF32_R_TYPE i = unat (i AND 0xff)"

definition ELF32_R_SYM :: "bfd_vma \<Rightarrow> nat" where
  "ELF32_R_SYM i = unat (drop_bit 8 i)"

text \<open>The howto of a relocation record, with whether an invalid type was reported.\<close>

definition fusion_info_to_howto :: "Elf_Internal_Rela \<Rightarrow> (bool \<times> reloc_howto_type) result" where
  "fusion_info_to_howto dst =
     (let r_type = ELF32_R_TYPE (r_info dst);
          (invalid, r_type) = (if R_FUSION_max \<le> r_type then (True, 0) else (False, r_type))
      in rbind (rd8 fusion_elf_howto_table r_type) (\<lambda>h. Inr (invalid, h)))"

subsection \<open>Applying one relocation\<close>

text \<open>
  In the case of a branch \<open>fusion_final_link_relocate\<close> computes
  \<open>(1 << (howto->bitsize - 1)) - 1\<close> in type \<open>int\<close>: with a bit size of 32 or more, or of 0, the
  shift is undefined.
\<close>

definition fusion_final_link_relocate ::
  "reloc_howto_type \<Rightarrow> bfd_t \<Rightarrow> asection \<Rightarrow> bytes \<Rightarrow> Elf_Internal_Rela \<Rightarrow> bfd_vma
     \<Rightarrow> (bfd_reloc_status_type \<times> bytes) result" where
  "fusion_final_link_relocate howto input_bfd input_section contents rel relocation =
     (let hit_data = unat (r_offset rel) in
      if howto_type howto = R_FUSION_LOAD then
        let relocation = GEN_L_IMM relocation; relocation = relocation AND howto_dst_mask howto in
        rbind (bfd_get_32 input_bfd contents hit_data) (\<lambda>rvalue1.
        rbind (bfd_put_32 input_bfd (relocation OR rvalue1) contents hit_data) (\<lambda>contents.
        Inr (bfd_reloc_ok, contents)))
      else if howto_type howto = R_FUSION_STORE then
        let relocation = GEN_S_IMM relocation; relocation = relocation AND howto_dst_mask howto in
        rbind (bfd_get_32 input_bfd contents hit_data) (\<lambda>rvalue1.
        rbind (bfd_put_32 input_bfd (relocation OR rvalue1) contents hit_data) (\<lambda>contents.
        Inr (bfd_reloc_ok, contents)))
      else if howto_type howto = R_FUSION_BRANCH then
        case sec_output_vma input_section of
          None \<Rightarrow> Inl Null_pointer
        | Some vma \<Rightarrow>
            if howto_bitsize howto = 0 \<or> 32 \<le> howto_bitsize howto then Inl Undefined_shift
            else
              let relocation = push_bit 1 (push_bit (howto_bitsize howto - 1) 1 - 1) OR 1;
                  relocation = GEN_B_IMM relocation; relocation = relocation AND howto_dst_mask howto in
              rbind (bfd_get_32 input_bfd contents hit_data) (\<lambda>rvalue1.
              rbind (bfd_put_32 input_bfd (relocation OR rvalue1) contents hit_data) (\<lambda>contents.
              Inr (bfd_reloc_ok, contents)))
      else
        bfd_final_link_relocate howto input_bfd input_section contents (r_offset rel) relocation (r_addend rel))"

definition sec_addr :: "asection \<Rightarrow> bfd_vma result" where
  "sec_addr sec = (case sec_output_vma sec of None \<Rightarrow> Inl Null_pointer
     | Some vma \<Rightarrow> Inr (vma + sec_output_offset sec))"

definition perform_relocation ::
  "reloc_howto_type \<Rightarrow> Elf_Internal_Rela \<Rightarrow> bfd_vma \<Rightarrow> asection \<Rightarrow> bfd_t \<Rightarrow> bytes
     \<Rightarrow> (bfd_reloc_status_type \<times> bytes) result" where
  "perform_relocation howto rel val input_section input_bfd contents =
     rbind (if howto_pc_relative howto
            then rbind (sec_addr input_section) (\<lambda>addr. Inr (val - (addr + r_offset rel)))
            else Inr val) (\<lambda>val.
     let val = val + r_addend rel; r_type = ELF32_R_TYPE (r_info rel) in
     if r_type \<notin> {R_FUSION_NONE, R_FUSION_32, R_FUSION_LI, R_FUSION_LUI, R_FUSION_LI_PCREL,
          R_FUSION_LUI_PCREL, R_FUSION_SYS, R_FUSION_I, R_FUSION_JUMP, R_FUSION_JUMP_O,
          R_FUSION_LOAD, R_FUSION_STORE, R_FUSION_BRANCH}
     then Inr (bfd_reloc_notsupported, contents)
     else
       let val = (if r_type = R_FUSION_LOAD then GEN_L_IMM val
                  else if r_type = R_FUSION_STORE then GEN_S_IMM val
                  else if r_type = R_FUSION_BRANCH then GEN_B_IMM val
                  else val) in
       rbind (bfd_get (howto_bitsize howto) input_bfd contents (unat (r_offset rel))) (\<lambda>w.
       let w = (w AND NOT (howto_dst_mask howto)) OR (val AND howto_dst_mask howto) in
       rbind (bfd_put (howto_bitsize howto) input_bfd w contents (unat (r_offset rel))) (\<lambda>contents.
       Inr (bfd_reloc_ok, contents))))"

subsection \<open>Symbols of the link\<close>

datatype link_hash_type =
    bfd_link_hash_new | bfd_link_hash_undefined | bfd_link_hash_undefweak | bfd_link_hash_defined
  | bfd_link_hash_defweak | bfd_link_hash_common | bfd_link_hash_indirect | bfd_link_hash_warning

text \<open>An entry of the linker's hash table; \<open>h_link\<close> is the number of the entry it stands for.\<close>

record elf_link_hash_entry =
  h_name :: string
  h_type :: link_hash_type
  h_section :: "asection option"
  h_value :: bfd_vma
  h_link :: nat
  h_default_visibility :: bool
  h_non_ir_ref_regular :: bool

record Elf_Internal_Sym =
  st_value :: bfd_vma
  st_is_section :: bool
  st_string :: "string option"

text \<open>
  What the link knows of an input file. \<open>merged_section_offset\<close> and \<open>unwrap_hash_lookup\<close> stand
  for the routines of those names; \<open>None\<close> for the latter is a link without wrapped symbols.
\<close>

record link_input =
  li_relocatable :: bool
  li_ignore_unresolved :: bool
  li_unresolved_error :: bool
  li_unwrap_hash_lookup :: "(nat \<Rightarrow> nat) option"
  li_merged_section_offset :: "asection \<Rightarrow> bfd_vma \<Rightarrow> asection \<times> bfd_vma"
  li_bfd :: bfd_t
  li_sh_info :: nat
  li_local_syms :: "Elf_Internal_Sym list"
  li_local_sections :: "asection option list"
  li_sym_hashes :: "nat list option"
  li_entries :: "elf_link_hash_entry list"
  li_rel_entsize :: bfd_vma

datatype link_event =
    Undefined_symbol string bfd_vma bool
  | Reloc_overflow string "string option" bfd_vma
  | Warning string string bfd_vma

record link_state =
  ls_contents :: bytes
  ls_rels :: "Elf_Internal_Rela list"
  ls_events :: "link_event list"
  ls_out_rel_size :: bfd_vma
  ls_in_rel_size :: bfd_vma

text \<open>
  \<open>while (h->root.type is indirect or warning) h = link;\<close> with as many steps as there are
  entries: a chain that is longer runs in a circle and the loop does not end.
\<close>

fun follow_links :: "elf_link_hash_entry list \<Rightarrow> nat \<Rightarrow> nat \<Rightarrow> nat result" where
  "follow_links entries fuel h =
     rbind (rd8 entries h) (\<lambda>e.
     if h_type e = bfd_link_hash_indirect \<or> h_type e = bfd_link_hash_warning then
       (case fuel of 0 \<Rightarrow> Inl No_return | Suc fuel \<Rightarrow> follow_links entries fuel (h_link e))
     else Inr h)"

declare follow_links.simps [simp del]

definition elf_rela_local_sym ::
  "link_input \<Rightarrow> Elf_Internal_Sym \<Rightarrow> asection \<Rightarrow> Elf_Internal_Rela
     \<Rightarrow> (bfd_vma \<times> asection \<times> Elf_Internal_Rela) result" where
  "elf_rela_local_sym li isym sec rel =
     rbind (sec_addr sec) (\<lambda>addr.
     let relocation = addr + st_value isym in
     if sec_merge sec \<and> st_is_section isym \<and> sec_info_type sec = SEC_INFO_TYPE_MERGE then
       let (sec', off) = li_merged_section_offset li sec (st_value isym + r_addend rel) in
       rbind (sec_addr sec') (\<lambda>addr'.
       Inr (relocation, sec', rel\<lparr>r_addend := off - relocation + addr'\<rparr>))
     else Inr (relocation, sec, rel))"

definition local_symbol ::
  "link_input \<Rightarrow> Elf_Internal_Rela \<Rightarrow> nat \<Rightarrow> (bfd_vma \<times> asection option \<times> Elf_Internal_Rela \<times> string) result" where
  "local_symbol li rel r_symndx =
     rbind (rd8 (li_local_syms li) r_symndx) (\<lambda>isym.
     rbind (rd8 (li_local_sections li) r_symndx) (\<lambda>sec.
     case sec of
       None \<Rightarrow> Inl Null_pointer
     | Some sec \<Rightarrow>
         rbind (elf_rela_local_sym li isym sec rel) (\<lambda>(relocation, sec, rel).
         Inr (relocation, Some sec, rel, case st_string isym of Some nm \<Rightarrow> nm | None \<Rightarrow> sec_name sec))))"

text \<open>
  \<open>RELOC_FOR_GLOBAL_SYMBOL\<close>: the value and section of a global symbol and its name; an
  undefined symbol is reported unless the link ignores it. \<open>None\<close>: the file has no symbols
  and the section is given up.
\<close>

definition global_symbol ::
  "link_input \<Rightarrow> asection \<Rightarrow> Elf_Internal_Rela \<Rightarrow> nat
     \<Rightarrow> (bfd_vma \<times> asection option \<times> string \<times> link_event list) option result" where
  "global_symbol li input_section rel r_symndx =
     (case li_sym_hashes li of
        None \<Rightarrow> Inr None
      | Some sym_hashes \<Rightarrow>
          rbind (rd8 sym_hashes (r_symndx - li_sh_info li)) (\<lambda>h.
          let h = (case li_unwrap_hash_lookup li of
                     Some unwrap \<Rightarrow> if sec_debugging input_section then unwrap h else h
                   | None \<Rightarrow> h) in
          rbind (follow_links (li_entries li) (length (li_entries li)) h) (\<lambda>h.
          rbind (rd8 (li_entries li) h) (\<lambda>e.
          if h_type e = bfd_link_hash_defined \<or> h_type e = bfd_link_hash_defweak then
            (case h_section e of
               None \<Rightarrow> Inr (Some (0, None, h_name e, []))
             | Some sec \<Rightarrow>
                 (case sec_output_vma sec of
                    None \<Rightarrow> Inr (Some (0, Some sec, h_name e, []))
                  | Some vma \<Rightarrow> Inr (Some (h_value e + vma + sec_output_offset sec, Some sec, h_name e, []))))
          else if h_type e = bfd_link_hash_undefweak then Inr (Some (0, None, h_name e, []))
          else if li_ignore_unresolved li \<and> h_default_visibility e then Inr (Some (0, None, h_name e, []))
          else if \<not> li_relocatable li then
            Inr (Some (0, None, h_name e,
              [Undefined_symbol (h_name e) (r_offset rel) (li_unresolved_error li \<or> \<not> h_default_visibility e)]))
          else Inr (Some (0, None, h_name e, []))))))"

definition discarded_section :: "asection \<Rightarrow> bool" where
  "discarded_section sec \<longleftrightarrow> sec_kind sec \<noteq> Sec_abs \<and> sec_output_is_abs sec \<and>
     sec_info_type sec \<noteq> SEC_INFO_TYPE_MERGE \<and> sec_info_type sec \<noteq> SEC_INFO_TYPE_JUST_SYMS"

subsection \<open>Relocating a section\<close>

text \<open>\<open>RELOC_AGAINST_DISCARDED_SECTION\<close>: the field is cleared and the relocation removed or zeroed.\<close>

definition against_discarded ::
  "link_input \<Rightarrow> asection \<Rightarrow> Elf_Internal_Rela \<Rightarrow> reloc_howto_type \<Rightarrow> link_state \<Rightarrow> link_state result" where
  "against_discarded li input_section rel howto s =
     rbind (bfd_clear_contents howto (li_bfd li) input_section (ls_contents s) (unat (r_offset rel))) (\<lambda>contents.
     let s = s\<lparr>ls_contents := contents\<rparr> in
     if li_relocatable li \<and> sec_debugging input_section \<and> ls_out_rel_size s > li_rel_entsize li
     then Inr (s\<lparr>ls_out_rel_size := ls_out_rel_size s - li_rel_entsize li,
                 ls_in_rel_size := ls_in_rel_size s - li_rel_entsize li\<rparr>)
     else Inr (s\<lparr>ls_rels := ls_rels s @ [rel\<lparr>r_info := 0, r_addend := 0\<rparr>]\<rparr>))"

text \<open>The calls to the linker's callbacks for a status other than \<open>bfd_reloc_ok\<close>.\<close>

fun reloc_events :: "bfd_reloc_status_type \<Rightarrow> string \<Rightarrow> string option \<Rightarrow> bfd_vma \<Rightarrow> link_event list" where
  "reloc_events bfd_reloc_ok nm howto_nm offset = []"
| "reloc_events bfd_reloc_overflow nm howto_nm offset = [Reloc_overflow nm howto_nm offset]"
| "reloc_events bfd_reloc_undefined nm howto_nm offset = [Undefined_symbol nm offset True]"
| "reloc_events bfd_reloc_outofrange nm howto_nm offset =
     [Warning ''internal error: relocation out of range'' nm offset]"
| "reloc_events bfd_reloc_notsupported nm howto_nm offset =
     [Warning ''internal error: unsupported relocation'' nm offset]"
| "reloc_events bfd_reloc_dangerous nm howto_nm offset =
     [Warning ''internal error: dangerous relocation'' nm offset]"
| "reloc_events _ nm howto_nm offset = [Warning ''internal error: who knows what the hell happened, I don't'' nm offset]"

text \<open>
  The symbol of a relocation: its value, section and name, the relocation itself, whose addend
  a merged section changes, and what is reported. \<open>None\<close> ends the function with \<open>FALSE\<close>.
\<close>

definition reloc_symbol ::
  "link_input \<Rightarrow> asection \<Rightarrow> Elf_Internal_Rela
     \<Rightarrow> (bfd_vma \<times> asection option \<times> Elf_Internal_Rela \<times> string \<times> link_event list) option result" where
  "reloc_symbol li input_section rel =
     (let r_symndx = ELF32_R_SYM (r_info rel) in
      if r_symndx < li_sh_info li then
        rbind (local_symbol li rel r_symndx) (\<lambda>(relocation, sec, rel, nm).
        Inr (Some (relocation, sec, rel, nm, [])))
      else
        rbind (global_symbol li input_section rel r_symndx) (\<lambda>g.
        case g of None \<Rightarrow> Inr None
        | Some (relocation, sec, nm, ev) \<Rightarrow> Inr (Some (relocation, sec, rel, nm, ev))))"

text \<open>The switch over the type: how a type that is supported is applied.\<close>

definition relocate_switch ::
  "link_input \<Rightarrow> asection \<Rightarrow> reloc_howto_type \<Rightarrow> Elf_Internal_Rela \<Rightarrow> bfd_vma \<Rightarrow> bytes
     \<Rightarrow> (bfd_reloc_status_type \<times> bytes) result" where
  "relocate_switch li input_section howto rel relocation contents =
     (if ELF32_R_TYPE (r_info rel) = R_FUSION_BRANCH
      then perform_relocation howto rel relocation input_section (li_bfd li) contents
      else fusion_final_link_relocate howto (li_bfd li) input_section contents rel relocation)"

text \<open>The body of the loop: \<open>Some r\<close> leaves the function with the value \<open>r\<close>.\<close>

definition relocate_step ::
  "link_input \<Rightarrow> asection \<Rightarrow> Elf_Internal_Rela \<Rightarrow> link_state \<Rightarrow> (int option \<times> link_state) result" where
  "relocate_step li input_section rel s =
     (let r_type = ELF32_R_TYPE (r_info rel) in
      rbind (reloc_symbol li input_section rel) (\<lambda>g.
      case g of
        None \<Rightarrow> Inr (Some 0, s\<lparr>ls_rels := ls_rels s @ [rel]\<rparr>)
      | Some (relocation, sec, rel, nm, ev) \<Rightarrow>
          (let s = s\<lparr>ls_events := ls_events s @ ev\<rparr> in
           if (case sec of None \<Rightarrow> False | Some sec \<Rightarrow> discarded_section sec) then
             rbind (rd8 fusion_elf_howto_table r_type) (\<lambda>howto.
             rbind (against_discarded li input_section rel howto s) (\<lambda>s. Inr (None, s)))
           else if li_relocatable li then Inr (None, s\<lparr>ls_rels := ls_rels s @ [rel]\<rparr>)
           else if r_type = R_FUSION_RELATIVE \<or> R_FUSION_max \<le> r_type then Inr (Some 4, s\<lparr>ls_rels := ls_rels s @ [rel]\<rparr>)
           else
             rbind (rd8 fusion_elf_howto_table r_type) (\<lambda>howto.
             rbind (relocate_switch li input_section howto rel relocation (ls_contents s)) (\<lambda>(r, contents).
             Inr (None, s\<lparr>ls_contents := contents, ls_rels := ls_rels s @ [rel],
                    ls_events := ls_events s @ reloc_events r nm (howto_name howto) (r_offset rel)\<rparr>))))))"

fun relocate_loop ::
  "link_input \<Rightarrow> asection \<Rightarrow> Elf_Internal_Rela list \<Rightarrow> link_state \<Rightarrow> (int \<times> link_state) result" where
  "relocate_loop li input_section [] s = Inr (1, s)"
| "relocate_loop li input_section (rel # relocs) s =
     rbind (relocate_step li input_section rel s) (\<lambda>(ret, s).
     case ret of Some r \<Rightarrow> Inr (r, s\<lparr>ls_rels := ls_rels s @ relocs\<rparr>)
     | None \<Rightarrow> relocate_loop li input_section relocs s)"

definition fusion_elf_relocate_section ::
  "link_input \<Rightarrow> asection \<Rightarrow> bytes \<Rightarrow> Elf_Internal_Rela list \<Rightarrow> bfd_vma \<Rightarrow> bfd_vma
     \<Rightarrow> (int \<times> link_state) result" where
  "fusion_elf_relocate_section li input_section contents relocs out_rel_size in_rel_size =
     relocate_loop li input_section relocs
       \<lparr>ls_contents = contents, ls_rels = [], ls_events = [], ls_out_rel_size = out_rel_size,
        ls_in_rel_size = in_rel_size\<rparr>"

subsection \<open>The first pass over the relocations\<close>

fun check_relocs_loop ::
  "link_input \<Rightarrow> Elf_Internal_Rela list \<Rightarrow> elf_link_hash_entry list \<Rightarrow> elf_link_hash_entry list result" where
  "check_relocs_loop li [] entries = Inr entries"
| "check_relocs_loop li (rel # relocs) entries =
     (let r_symndx = ELF32_R_SYM (r_info rel) in
      if r_symndx < li_sh_info li then check_relocs_loop li relocs entries
      else case li_sym_hashes li of
        None \<Rightarrow> Inl Null_pointer
      | Some sym_hashes \<Rightarrow>
          rbind (rd8 sym_hashes (r_symndx - li_sh_info li)) (\<lambda>h.
          rbind (follow_links entries (length entries) h) (\<lambda>h.
          rbind (rd8 entries h) (\<lambda>e.
          check_relocs_loop li relocs (entries[h := e\<lparr>h_non_ir_ref_regular := True\<rparr>])))))"

definition fusion_elf_check_relocs ::
  "link_input \<Rightarrow> Elf_Internal_Rela list \<Rightarrow> (int \<times> elf_link_hash_entry list) result" where
  "fusion_elf_check_relocs li relocs =
     (if li_relocatable li then Inr (1, li_entries li)
      else rbind (check_relocs_loop li relocs (li_entries li)) (\<lambda>entries. Inr (1, entries)))"

subsection \<open>Vocabulary of the specifications\<close>

text \<open>
  The howto of a relocation type, the description of the Fusion-Core target (big-endian, octets,
  addresses of 32 bits) and a section whose contents are in memory.
\<close>

definition fusion_howto :: "nat \<Rightarrow> reloc_howto_type" where
  "fusion_howto n = fusion_elf_howto_table ! n"

definition fusion_target :: "bfd_t \<Rightarrow> bool" where
  "fusion_target b \<longleftrightarrow> bfd_big_endian b \<and> bfd_octets_per_byte b = 1 \<and> bfd_bits_per_address b = 32"

definition section_ok :: "bfd_t \<Rightarrow> asection \<Rightarrow> bytes \<Rightarrow> bool" where
  "section_ok b sec contents \<longleftrightarrow> length contents = unat (bfd_get_section_limit_octets b sec) \<and> length contents < 2 ^ 63"

text \<open>Only the \<open>n\<close> bytes at \<open>a\<close> may differ.\<close>

definition changes_only :: "nat \<Rightarrow> nat \<Rightarrow> 'a list \<Rightarrow> 'a list \<Rightarrow> bool" where
  "changes_only a n p q \<longleftrightarrow>
     length q = length p \<and> (\<forall>i. i < length p \<longrightarrow> i < a \<or> a + n \<le> i \<longrightarrow> q ! i = p ! i)"

text \<open>The word of a section at an offset, as an instruction.\<close>

definition insn_at :: "bfd_t \<Rightarrow> bytes \<Rightarrow> nat \<Rightarrow> insn_t result" where
  "insn_at b p a = rbind (bfd_get_32 b p a) (\<lambda>x. Inr (ucast x))"

text \<open>
  What each relocation type does to the word at its place, with the names of the ELF
  specification: \<open>S\<close> the value of the symbol, \<open>A\<close> the addend, \<open>P\<close> the address of the place.
\<close>

definition reloc_word :: "nat \<Rightarrow> bfd_vma \<Rightarrow> bfd_vma \<Rightarrow> bfd_vma \<Rightarrow> insn_t \<Rightarrow> insn_t" where
  "reloc_word t S A P x =
     (let put = (\<lambda>m v. (x AND NOT m) OR (v AND m)) in
      if t = R_FUSION_32 \<or> t = R_FUSION_I then x + ucast (S + A)
      else if t \<in> {R_FUSION_LI, R_FUSION_LI_PCREL, R_FUSION_LUI_PCREL} then put MASK_IMM_LI (ucast (S + A))
      else if t = R_FUSION_LUI then put MASK_IMM_LI (ucast (drop_bit 16 (S + A)))
      else if t = R_FUSION_SYS then put MASK_IMM_SYS (x + ucast (S + A))
      else if t = R_FUSION_LOAD then x OR GEN_L_IMM (ucast S)
      else if t = R_FUSION_STORE then x OR GEN_S_IMM (ucast S)
      else if t = R_FUSION_BRANCH then put MASK_IMM_B (GEN_B_IMM (ucast (S + A - P)))
      else if t = R_FUSION_JUMP then put MASK_IMM_J (ucast (S + A - P))
      else if t = R_FUSION_JUMP_O then put MASK_IMM_J (ucast (S + A))
      else x)"

definition reloc_place :: "asection \<Rightarrow> bfd_vma \<Rightarrow> Elf_Internal_Rela \<Rightarrow> bfd_vma" where
  "reloc_place sec vma rel = vma + sec_output_offset sec + r_offset rel"

text \<open>The value and addend that a relocation uses, when its symbol is found in a section that is kept.\<close>

definition reloc_value :: "link_input \<Rightarrow> asection \<Rightarrow> Elf_Internal_Rela \<Rightarrow> (bfd_vma \<times> bfd_vma) option" where
  "reloc_value li sec rel =
     (case reloc_symbol li sec rel of
        Inr (Some (S, None, rel', _)) \<Rightarrow> Some (S, r_addend rel')
      | Inr (Some (S, Some sec', rel', _)) \<Rightarrow> if discarded_section sec' then None else Some (S, r_addend rel')
      | _ \<Rightarrow> None)"

definition supported :: "link_input \<Rightarrow> asection \<Rightarrow> bytes \<Rightarrow> Elf_Internal_Rela \<Rightarrow> bool" where
  "supported li sec contents rel \<longleftrightarrow>
     reloc_value li sec rel \<noteq> None \<and> ELF32_R_TYPE (r_info rel) < R_FUSION_max \<and>
     ELF32_R_TYPE (r_info rel) \<noteq> R_FUSION_RELATIVE \<and> unat (r_offset rel) + 4 \<le> length contents"

definition apart :: "Elf_Internal_Rela \<Rightarrow> Elf_Internal_Rela \<Rightarrow> bool" where
  "apart r1 r2 \<longleftrightarrow> unat (r_offset r1) + 4 \<le> unat (r_offset r2) \<or> unat (r_offset r2) + 4 \<le> unat (r_offset r1)"

text \<open>The chain of entries that \<open>follow_links\<close> walks.\<close>

definition is_link :: "elf_link_hash_entry list \<Rightarrow> nat \<Rightarrow> bool" where
  "is_link entries h \<longleftrightarrow> h < length entries \<and>
     (h_type (entries ! h) = bfd_link_hash_indirect \<or> h_type (entries ! h) = bfd_link_hash_warning)"

definition link_of :: "elf_link_hash_entry list \<Rightarrow> nat \<Rightarrow> nat" where
  "link_of entries h = h_link (entries ! h)"

text \<open>A small link for the examples: one section at 0x1000 with a local symbol at its start.\<close>

definition example_section :: asection where
  "example_section = \<lparr>sec_name = ''.text'', sec_kind = Sec_normal, sec_output_vma = Some 0x1000,
     sec_output_is_abs = False, sec_output_offset = 0, sec_size = 8, sec_rawsize = 0, sec_debugging = False,
     sec_merge = False, sec_info_type = SEC_INFO_TYPE_NONE\<rparr>"

definition example_bfd :: bfd_t where
  "example_bfd = \<lparr>bfd_big_endian = True, bfd_bits_per_address = 32, bfd_octets_per_byte = 1,
     bfd_write_direction = False, bfd_coff_not_intel = False, bfd_coff_z8k = False\<rparr>"

definition example_link :: link_input where
  "example_link = \<lparr>li_relocatable = False, li_ignore_unresolved = False, li_unresolved_error = True,
     li_unwrap_hash_lookup = None, li_merged_section_offset = (\<lambda>sec off. (sec, off)), li_bfd = example_bfd,
     li_sh_info = 2,
     li_local_syms = [\<lparr>st_value = 0, st_is_section = False, st_string = None\<rparr>,
        \<lparr>st_value = 0, st_is_section = False, st_string = Some ''loop''\<rparr>],
     li_local_sections = [None, Some example_section], li_sym_hashes = None, li_entries = [],
     li_rel_entsize = 12\<rparr>"

definition example_rela :: "bfd_vma \<Rightarrow> Elf_Internal_Rela" where
  "example_rela info = \<lparr>r_offset = 4, r_info = info, r_addend = 0\<rparr>"

definition example_contents :: "bytes \<Rightarrow> bytes" where
  "example_contents insn = [0, 0, 0, 0] @ insn"

subsection \<open>The howtos\<close>

lemma howto_table_length: "length fusion_elf_howto_table = 14"
  by (simp add: fusion_elf_howto_table_def)

lemma fusion_howtos:
  "fusion_howto R_FUSION_LI = HOWTO R_FUSION_LI 0 2 32 False 0 complain_overflow_dont
     (Some bfd_elf_generic_reloc_fn) ''R_FUSION_LI'' False 0 0x0000ffff False"
  "fusion_howto R_FUSION_LUI = HOWTO R_FUSION_LUI 16 2 32 False 0 complain_overflow_dont
     (Some bfd_elf_generic_reloc_fn) ''R_FUSION_LUI'' False 0 0x0000ffff False"
  "fusion_howto R_FUSION_I = HOWTO R_FUSION_I 0 2 32 False 0 complain_overflow_dont
     (Some bfd_elf_generic_reloc_fn) ''R_FUSION_I'' False 0xffffffff 0xffffffff False"
  "fusion_howto R_FUSION_LOAD = HOWTO R_FUSION_LOAD 0 2 14 True 0 complain_overflow_dont
     (Some bfd_elf_generic_reloc_fn) ''R_FUSION_LOAD'' False 0 (GEN_L_IMM MASK_ALL) False"
  "fusion_howto R_FUSION_STORE = HOWTO R_FUSION_STORE 0 2 32 True 0 complain_overflow_dont
     (Some bfd_elf_generic_reloc_fn) ''R_FUSION_STORE'' False 0 (GEN_S_IMM MASK_ALL) False"
  "fusion_howto R_FUSION_BRANCH = HOWTO R_FUSION_BRANCH 0 2 32 True 0 complain_overflow_dont
     (Some bfd_elf_generic_reloc_fn) ''R_FUSION_BRANCH'' False 0 (GEN_B_IMM MASK_ALL) True"
  "fusion_howto R_FUSION_JUMP = HOWTO R_FUSION_JUMP 0 2 32 True 0 complain_overflow_dont
     (Some bfd_elf_generic_reloc_fn) ''R_FUSION_JUMP'' False 0 (GEN_J_IMM MASK_ALL) True"
  "fusion_howto R_FUSION_JUMP_O = HOWTO R_FUSION_JUMP_O 0 2 32 False 0 complain_overflow_dont
     (Some bfd_elf_generic_reloc_fn) ''R_FUSION_JUMP_O'' False 0 (GEN_J_IMM MASK_ALL) False"
  by (simp_all add: fusion_howto_def fusion_elf_howto_table_def reloc_number_defs)

lemmas fusion_howto_simps = fusion_howtos [unfolded reloc_number_defs] HOWTO_def reloc_number_defs

text \<open>The word of 32 bits that results, as the instruction set sees it.\<close>

lemma ucast_take_32: "(ucast (take_bit 32 (x :: bfd_vma)) :: insn_t) = ucast x"
  by (simp add: word_bits)

lemma ucast_narrow:
  "(ucast (ucast (x :: bfd_vma) :: insn_t) :: 14 word) = ucast x" "(ucast (ucast x :: insn_t) :: 16 word) = ucast x"
  "(ucast (ucast x :: insn_t) :: 21 word) = ucast x"
  by (simp_all add: word_bits)

lemma ucast_put:
  "(ucast ((x AND NOT (GEN_B_IMM MASK_ALL)) OR (GEN_B_IMM v AND GEN_B_IMM MASK_ALL)) :: insn_t) =
     (ucast x AND NOT MASK_IMM_B) OR GEN_B_IMM (ucast v)"
  "(ucast ((x AND NOT (GEN_J_IMM MASK_ALL)) OR (v AND GEN_J_IMM MASK_ALL)) :: insn_t) =
     (ucast x AND NOT MASK_IMM_J) OR GEN_J_IMM (GET_IMM_J (ucast v))"
  "(ucast ((x AND NOT 0xffff) OR (v AND 0xffff)) :: insn_t) =
     (ucast x AND NOT MASK_IMM_LI) OR GEN_LI_IMM (ucast v)"
  "(ucast ((GEN_L_IMM v AND GEN_L_IMM MASK_ALL) OR x) :: insn_t) = ucast x OR GEN_L_IMM (ucast v)"
  "(ucast ((GEN_S_IMM v AND GEN_S_IMM MASK_ALL) OR x) :: insn_t) = ucast x OR GEN_S_IMM (ucast v)"
  for x v :: bfd_vma
  by (simp_all add: isa_defs MASK_ALL_def word_bits disj_commute)

lemma final_link_word:
  assumes "fusion_target b" "section_ok b sec contents" "sec_output_vma sec = Some vma"
    and "howto_type howto \<notin> {R_FUSION_LOAD, R_FUSION_STORE, R_FUSION_BRANCH}"
    and "howto_size howto = 2" "howto_rightshift howto < 64" "howto_bitpos howto = 0" "howto_complain howto = complain_overflow_dont"
    and "bfd_get_32 b contents (unat (r_offset rel)) = Inr x"
  shows "\<exists>q y. fusion_final_link_relocate howto b sec contents rel S = Inr (bfd_reloc_ok, q) \<and>
     bfd_get_32 b q (unat (r_offset rel)) = Inr y \<and>
     (ucast y :: insn_t) = ucast (insert_relocation howto
        (drop_bit (howto_rightshift howto) (link_value howto sec vma (r_offset rel) S (r_addend rel))) x)"
proof -
  have in_range: "\<not> length contents < unat (r_offset rel) + 4"
    using assms(9) by (auto simp: t32.get_Inr_iff)
  have "fusion_final_link_relocate howto b sec contents rel S =
     bfd_final_link_relocate howto b sec contents (r_offset rel) S (r_addend rel)"
    using assms(4) by (simp add: fusion_final_link_relocate_def)
  moreover obtain q where "bfd_final_link_relocate howto b sec contents (r_offset rel) S (r_addend rel) = Inr (bfd_reloc_ok, q)"
    and q: "bfd_put_32 b (insert_relocation howto (field_value howto (link_value howto sec vma (r_offset rel) S (r_addend rel))) x)
         contents (unat (r_offset rel)) = Inr q"
    using final_link_32 [of howto b contents sec vma "r_offset rel" S "r_addend rel"] assms in_range
    by (auto simp: fusion_target_def section_ok_def contents_overflow_def)
  ultimately show ?thesis
    using t32.get_put [OF q] assms(7) ucast_take_32 by (auto simp: field_value_def)
qed

subsection \<open>The section as a whole\<close>

lemma changes_only_refl [simp]: "changes_only a n p p"
  by (simp add: changes_only_def)

lemma put_32_changes: "bfd_put_32 b v p a = Inr q \<Longrightarrow> changes_only a 4 p q"
  using t32.put_length t32.put_nth by (fastforce simp: changes_only_def)

lemma table_howtos:
  "h \<in> set fusion_elf_howto_table \<Longrightarrow>
     howto_size h \<in> {2, 3} \<and> howto_bitpos h = 0 \<and> howto_rightshift h < 64 \<and> howto_complain h = complain_overflow_dont"
  by (auto simp: fusion_elf_howto_table_def HOWTO_def)

lemma howto_types: "map howto_type fusion_elf_howto_table = [0..<14]"
  by (simp add: fusion_elf_howto_table_def HOWTO_def reloc_number_defs upt_conv_Cons)

lemma howto_type_rd8: "rd8 fusion_elf_howto_table n = Inr h \<Longrightarrow> h \<in> set fusion_elf_howto_table \<and> howto_type h = n"
  using arg_cong [where f = "\<lambda>xs. xs ! n", OF howto_types]
  by (auto simp: rd8_def howto_table_length split: if_splits) (metis nth_mem howto_table_length)

lemma branch_bitsize: "rd8 fusion_elf_howto_table R_FUSION_BRANCH = Inr h \<Longrightarrow> howto_bitsize h = 32"
  by (auto simp: rd8_def fusion_elf_howto_table_def HOWTO_def reloc_number_defs split: if_splits)

lemma relocate_contents_changes:
  "bfd_relocate_contents howto b v p a = Inr (r, q) \<Longrightarrow> howto_size howto \<in> {2, 3} \<Longrightarrow> changes_only a 4 p q"
  by (auto simp: bfd_relocate_contents_def bfd_get_reloc_size_def bfd_get_32_bits rbind_Inr_iff put_32_changes)

lemma final_link_changes:
  "bfd_final_link_relocate howto b sec p a v d = Inr (r, q) \<Longrightarrow> howto_size howto \<in> {2, 3} \<Longrightarrow>
   bfd_octets_per_byte b = 1 \<Longrightarrow> changes_only (unat a) 4 p q"
  by (auto simp: bfd_final_link_relocate_def Let_def rbind_Inr_iff simp del: insert_iff split: if_splits option.splits
     dest: relocate_contents_changes)

lemma fusion_final_link_changes:
  "fusion_final_link_relocate howto b sec p rel v = Inr (r, q) \<Longrightarrow> howto_size howto \<in> {2, 3} \<Longrightarrow>
   bfd_octets_per_byte b = 1 \<Longrightarrow> changes_only (unat (r_offset rel)) 4 p q"
  by (auto simp: fusion_final_link_relocate_def Let_def rbind_Inr_iff put_32_changes simp del: insert_iff
     split: if_splits option.splits dest: final_link_changes)

lemma perform_changes:
  "perform_relocation howto rel v sec b p = Inr (r, q) \<Longrightarrow> howto_bitsize howto = 32 \<Longrightarrow>
   changes_only (unat (r_offset rel)) 4 p q"
  by (auto simp: perform_relocation_def Let_def rbind_Inr_iff bfd_get_32_bits put_32_changes split: if_splits)

lemma clear_changes:
  "bfd_clear_contents howto b sec p a = Inr q \<Longrightarrow> howto_size howto \<in> {2, 3} \<Longrightarrow> changes_only a 4 p q"
  by (auto simp: bfd_clear_contents_def bfd_get_reloc_size_def bfd_get_32_bits rbind_Inr_iff put_32_changes Let_def)

lemma relocate_switch_changes:
  assumes "relocate_switch li sec h rel v p = Inr (r, q)" "bfd_octets_per_byte (li_bfd li) = 1"
    and "rd8 fusion_elf_howto_table (ELF32_R_TYPE (r_info rel)) = Inr h"
  shows "changes_only (unat (r_offset rel)) 4 p q"
  using assms(1,2) perform_changes [OF _ branch_bitsize] fusion_final_link_changes
    table_howtos [of h] howto_type_rd8 [OF assms(3)] assms(3)
  by (simp add: relocate_switch_def split: if_splits)

lemma elf_rela_local_sym_keeps:
  "elf_rela_local_sym li isym sec rel = Inr (v, sec', rel') \<Longrightarrow> r_offset rel' = r_offset rel \<and> r_info rel' = r_info rel"
  by (auto simp: elf_rela_local_sym_def rbind_Inr_iff Let_def split: if_splits prod.splits)

lemma reloc_symbol_keeps:
  "reloc_symbol li sec rel = Inr (Some (v, s, rel', nm, ev)) \<Longrightarrow>
   r_offset rel' = r_offset rel \<and> r_info rel' = r_info rel"
  by (auto simp: reloc_symbol_def local_symbol_def rbind_Inr_iff Let_def
     split: if_splits option.splits dest: elf_rela_local_sym_keeps)

lemma against_discarded_changes:
  "against_discarded li sec rel h s = Inr s' \<Longrightarrow> h \<in> set fusion_elf_howto_table \<Longrightarrow>
   changes_only (unat (r_offset rel)) 4 (ls_contents s) (ls_contents s')"
  using table_howtos [of h]
  by (auto simp: against_discarded_def rbind_Inr_iff Let_def simp del: insert_iff split: if_splits dest: clear_changes)

lemma reloc_symbol_cases:
  obtains e where "reloc_symbol li sec rel = Inl e" | "reloc_symbol li sec rel = Inr None"
  | v sec' rel' nm ev where "reloc_symbol li sec rel = Inr (Some (v, sec', rel', nm, ev))"
    "r_offset rel' = r_offset rel" "r_info rel' = r_info rel"
  using reloc_symbol_keeps by (cases "reloc_symbol li sec rel") (auto, metis option.exhaust prod_cases5)

lemma relocate_step_changes:
  assumes "relocate_step li sec rel s = Inr (ret, s')" "bfd_octets_per_byte (li_bfd li) = 1"
  shows "changes_only (unat (r_offset rel)) 4 (ls_contents s) (ls_contents s')"
proof (cases rule: reloc_symbol_cases [of li sec rel])
  case (3 v sec' rel' nm ev)
  with assms show ?thesis
    by (auto simp: relocate_step_def Let_def rbind_Inr_iff split: if_splits option.splits
     dest: howto_type_rd8 dest!: against_discarded_changes relocate_switch_changes)
qed (use assms in \<open>auto simp: relocate_step_def\<close>)

lemma relocate_loop_changes:
  "relocate_loop li sec relocs s = Inr (ret, s') \<Longrightarrow> bfd_octets_per_byte (li_bfd li) = 1 \<Longrightarrow>
   length (ls_contents s') = length (ls_contents s) \<and>
   (\<forall>i. i < length (ls_contents s) \<longrightarrow>
      (\<forall>rel \<in> set relocs. i < unat (r_offset rel) \<or> unat (r_offset rel) + 4 \<le> i) \<longrightarrow>
      ls_contents s' ! i = ls_contents s ! i)"
proof (induction relocs arbitrary: s)
  case (Cons rel relocs)
  then obtain ret1 s1 where step: "relocate_step li sec rel s = Inr (ret1, s1)"
    by (auto simp: rbind_Inr_iff)
  note ch = relocate_step_changes [OF step Cons.prems(2)]
  show ?case
  proof (cases ret1)
    case None
    with Cons step have "length (ls_contents s') = length (ls_contents s1) \<and>
      (\<forall>i. i < length (ls_contents s1) \<longrightarrow>
      (\<forall>rel \<in> set relocs. i < unat (r_offset rel) \<or> unat (r_offset rel) + 4 \<le> i) \<longrightarrow>
      ls_contents s' ! i = ls_contents s1 ! i)" by auto
    with ch show ?thesis by (auto simp: changes_only_def)
  next
    case (Some r)
    with Cons.prems(1) step have "ls_contents s' = ls_contents s1" by auto
    with ch show ?thesis by (auto simp: changes_only_def)
  qed
qed simp

lemma fusion_howtos_rest:
  "fusion_howto R_FUSION_32 = HOWTO R_FUSION_32 0 2 32 False 0 complain_overflow_dont
     (Some bfd_elf_generic_reloc_fn) ''R_FUSION_32'' False 0xffffffff 0xffffffff False"
  "fusion_howto R_FUSION_LI_PCREL = HOWTO R_FUSION_LI_PCREL 0 2 32 False 0 complain_overflow_dont
       (Some bfd_elf_generic_reloc_fn) ''R_FUSION_LI_PCREL'' False 0x00000000 (GEN_LI_IMM MASK_IMM_LI) True"
  "fusion_howto R_FUSION_LUI_PCREL = HOWTO R_FUSION_LUI_PCREL 0 2 32 False 0 complain_overflow_dont
       (Some bfd_elf_generic_reloc_fn) ''R_FUSION_LUI_PCREL'' False 0x00000000 (GEN_LI_IMM MASK_IMM_LI) True"
  "fusion_howto R_FUSION_SYS = HOWTO R_FUSION_SYS 0 2 32 False 0 complain_overflow_dont
       (Some bfd_elf_generic_reloc_fn) ''R_FUSION_SYS'' False 0xffffffff (GEN_SYS_IMM MASK_ALL) False"
  by (simp_all add: fusion_howto_def fusion_elf_howto_table_def reloc_number_defs)

lemmas fusion_howto_all = fusion_howto_simps fusion_howtos_rest [unfolded reloc_number_defs]

lemma ucast_and: "(ucast (x AND y) :: insn_t) = ucast x AND ucast y" 
   "(ucast (x OR y) :: insn_t) = ucast x OR ucast y" for x y :: bfd_vma
  by (simp_all add: word_bits)

lemma ucast_not_mask:
  "(ucast (x AND NOT 0xffffffff) :: insn_t) = 0"
  "(ucast (x AND 0xffffffff) :: insn_t) = ucast x"
  "(ucast (x AND NOT (GEN_LI_IMM MASK_IMM_LI)) :: insn_t) = ucast x AND NOT MASK_IMM_LI"
  "(ucast (x AND NOT 0xffff) :: insn_t) = ucast x AND NOT MASK_IMM_LI"
  "(ucast (x AND NOT (GEN_SYS_IMM MASK_ALL)) :: insn_t) = ucast x AND NOT MASK_IMM_SYS"
  "(ucast (x AND NOT (GEN_J_IMM MASK_ALL)) :: insn_t) = ucast x AND NOT MASK_IMM_J"
  "(ucast (x AND GEN_LI_IMM MASK_IMM_LI) :: insn_t) = ucast x AND MASK_IMM_LI"
  "(ucast (x AND 0xffff) :: insn_t) = ucast x AND MASK_IMM_LI"
  "(ucast (x AND GEN_SYS_IMM MASK_ALL) :: insn_t) = ucast x AND MASK_IMM_SYS"
  "(ucast (x AND GEN_J_IMM MASK_ALL) :: insn_t) = ucast x AND MASK_IMM_J"
  for x y :: bfd_vma
  by (simp_all add: isa_defs MASK_ALL_def word_bits)

lemma ucast_plus: "(ucast (x + y) :: insn_t) = ucast x + ucast y" for x y :: bfd_vma
proof -
  have "take_bit 32 (take_bit 64 (a + b)) = take_bit 32 (take_bit 64 a + take_bit 64 b)" for a b :: int
    by (subst (2) take_bit_add [symmetric]) (simp add: take_bit_add)
  then show ?thesis by transfer simp
qed

lemma insn_at_put: "bfd_put_32 b v p a = Inr q \<Longrightarrow> insn_at b q a = Inr (ucast v)"
  by (simp add: insn_at_def t32.get_put ucast_take_32)

lemma switch_generic:
  assumes "fusion_target b" "section_ok b sec p" "sec_output_vma sec = Some vma"
    and "h \<in> set fusion_elf_howto_table" "howto_type h \<notin> {R_FUSION_NONE, R_FUSION_LOAD, R_FUSION_STORE, R_FUSION_BRANCH}"
    and "bfd_get_32 b p (unat (r_offset rel)) = Inr x"
  shows "\<exists>q. fusion_final_link_relocate h b sec p rel S = Inr (bfd_reloc_ok, q) \<and>
     insn_at b q (unat (r_offset rel)) = Inr (ucast (insert_relocation h
        (drop_bit (howto_rightshift h) (link_value h sec vma (r_offset rel) S (r_addend rel))) x))"
proof -
  have "howto_size h = 2" using assms(4,5)
    by (auto simp: fusion_elf_howto_table_def HOWTO_def)
  then show ?thesis
  using final_link_word [OF assms(1-3) _ _ _ _ _ assms(6), of h S] table_howtos [OF assms(4)] assms(5)
  by (auto simp: insn_at_def)
qed

lemma fusion_howto_mem: "t < 14 \<Longrightarrow> fusion_howto t \<in> set fusion_elf_howto_table" "t < 14 \<Longrightarrow> howto_type (fusion_howto t) = t"
  "t < 14 \<Longrightarrow> rd8 fusion_elf_howto_table t = Inr (fusion_howto t)"
  using howto_type_rd8 [of t "fusion_howto t"]
  by (simp_all add: fusion_howto_def howto_table_length rd8_def)

lemma less_14_cases: "(t :: nat) < 14 \<Longrightarrow> t \<in> {0, 1, 2, 3, 4, 5, 6, 7, 8, 9, 10, 11, 12, 13}"
  by (simp add: less_Suc_eq numeral_eq_Suc)

lemma switch_generic_word:
  assumes "t < 14" "t \<notin> {R_FUSION_NONE, R_FUSION_RELATIVE, R_FUSION_LOAD, R_FUSION_STORE, R_FUSION_BRANCH}"
  shows "ucast (insert_relocation (fusion_howto t)
     (drop_bit (howto_rightshift (fusion_howto t)) (link_value (fusion_howto t) sec vma a S A)) x) =
     reloc_word t S A (vma + sec_output_offset sec + a) (ucast x)"
  using less_14_cases [OF assms(1)] assms(2)
  by (elim insertE; simp del: One_nat_def add: fusion_howto_all insert_relocation_def link_value_def reloc_word_def ucast_not_mask ucast_not_mask [simplified] ucast_and(2) ucast_plus diff_diff_eq2 add.assoc)

lemma none_howto: "fusion_howto R_FUSION_NONE = HOWTO R_FUSION_NONE 0 3 0 False 0 complain_overflow_dont
     (Some bfd_elf_generic_reloc_fn) ''R_FUSION_NONE'' False 0 0 False"
  by (simp add: fusion_howto_def fusion_elf_howto_table_def reloc_number_defs)

lemma switch_none:
  assumes "fusion_target b" "section_ok b sec p" "unat (r_offset rel) + 4 \<le> length p"
  shows "fusion_final_link_relocate (fusion_howto R_FUSION_NONE) b sec p rel S = Inr (bfd_reloc_ok, p)"
proof -
  have "reloc_offset_in_range (fusion_howto R_FUSION_NONE) b sec (r_offset rel) = Inr True"
    using assms by (simp add: none_howto HOWTO_def reloc_offset_in_range_def bfd_get_reloc_size_def section_ok_def word_le_nat_alt)
  with assms(1) show ?thesis
    by (simp add: none_howto [unfolded reloc_number_defs] HOWTO_def fusion_final_link_relocate_def bfd_final_link_relocate_def
       bfd_relocate_contents_def bfd_get_reloc_size_def fusion_target_def reloc_number_defs)
qed

lemma switch_load_store:
  assumes "bfd_get_32 (li_bfd li) p (unat (r_offset rel)) = Inr x"
    and "t = ELF32_R_TYPE (r_info rel)" "t = R_FUSION_LOAD \<or> t = R_FUSION_STORE"
  shows "\<exists>q. relocate_switch li sec (fusion_howto t) rel S p = Inr (bfd_reloc_ok, q) \<and>
     insn_at (li_bfd li) q (unat (r_offset rel)) = Inr (reloc_word t S A P (ucast x))"
proof -
  have inr: "unat (r_offset rel) + 4 \<le> length p" using assms(1) by (simp add: t32.get_Inr_iff)
  note put = t32.put_in [OF inr, of "li_bfd li"]
  have "t \<noteq> R_FUSION_BRANCH" using assms(3) by (auto simp: reloc_number_defs)
  then have "relocate_switch li sec (fusion_howto t) rel S p =
    fusion_final_link_relocate (fusion_howto t) (li_bfd li) sec p rel S"
    using assms(2) by (simp add: relocate_switch_def)
  with assms(3) show ?thesis
    using assms(1) put insn_at_put [OF put]
    by (auto simp: fusion_final_link_relocate_def fusion_howto_simps reloc_word_def ucast_put)
qed

lemma switch_branch:
  assumes "bfd_get_32 (li_bfd li) p (unat (r_offset rel)) = Inr x"
    and "ELF32_R_TYPE (r_info rel) = R_FUSION_BRANCH" "sec_output_vma sec = Some vma"
  shows "\<exists>q. relocate_switch li sec (fusion_howto R_FUSION_BRANCH) rel S p = Inr (bfd_reloc_ok, q) \<and>
     insn_at (li_bfd li) q (unat (r_offset rel)) =
       Inr (reloc_word R_FUSION_BRANCH S (r_addend rel) (reloc_place sec vma rel) (ucast x))"
proof -
  let ?b = "li_bfd li" let ?a = "unat (r_offset rel)" let ?m = "GEN_B_IMM MASK_ALL :: bfd_vma"
  define v where "v = S + r_addend rel - reloc_place sec vma rel"
  have inr: "?a + 4 \<le> length p" using assms(1) by (simp add: t32.get_Inr_iff)
  note put = t32.put_in [OF inr, of ?b "(x AND NOT ?m) OR (GEN_B_IMM v AND ?m)"]
  have v: "S - (vma + sec_output_offset sec + r_offset rel) + r_addend rel = v"
    by (simp add: v_def reloc_place_def algebra_simps)
  have "relocate_switch li sec (fusion_howto R_FUSION_BRANCH) rel S p =
     rbind (bfd_put_32 ?b ((x AND NOT ?m) OR (GEN_B_IMM v AND ?m)) p ?a) (\<lambda>p. Inr (bfd_reloc_ok, p))"
    using assms by (simp add: relocate_switch_def perform_relocation_def fusion_howto_simps
      bfd_get_32_bits sec_addr_def v)
  moreover have "reloc_word R_FUSION_BRANCH S (r_addend rel) (reloc_place sec vma rel) (ucast x) =
     ucast ((x AND NOT ?m) OR (GEN_B_IMM v AND ?m))"
    by (simp add: reloc_word_def v_def ucast_put imm_b.gen_and_mask) (simp add: reloc_number_defs)
  ultimately show ?thesis
    using put insn_at_put [OF put] by simp
qed

lemma switch_word:
  assumes "fusion_target (li_bfd li)" "section_ok (li_bfd li) sec p" "sec_output_vma sec = Some vma"
    and "t = ELF32_R_TYPE (r_info rel)" "t < R_FUSION_max" "t \<noteq> R_FUSION_RELATIVE"
    and "insn_at (li_bfd li) p (unat (r_offset rel)) = Inr w"
  shows "\<exists>q. relocate_switch li sec (fusion_howto t) rel S p = Inr (bfd_reloc_ok, q) \<and>
     insn_at (li_bfd li) q (unat (r_offset rel)) =
       Inr (reloc_word t S (r_addend rel) (reloc_place sec vma rel) w)"
proof -
  let ?b = "li_bfd li" let ?a = "unat (r_offset rel)"
  obtain x where x: "bfd_get_32 ?b p ?a = Inr x" and w: "w = ucast x"
    using assms(7) by (auto simp: insn_at_def rbind_Inr_iff)
  have inr: "?a + 4 \<le> length p" using x by (simp add: t32.get_Inr_iff)
  have t: "t < 14" using assms(5) by (simp add: R_FUSION_max_def)
  consider "t = R_FUSION_NONE" | "t = R_FUSION_LOAD \<or> t = R_FUSION_STORE" | "t = R_FUSION_BRANCH"
    | "t \<notin> {R_FUSION_NONE, R_FUSION_LOAD, R_FUSION_STORE, R_FUSION_BRANCH}" by blast
  then show ?thesis
  proof cases
    case 1
    then have "relocate_switch li sec (fusion_howto t) rel S p = Inr (bfd_reloc_ok, p)"
      using switch_none [OF assms(1,2) inr] assms(4) by (simp add: relocate_switch_def reloc_number_defs)
    moreover have "reloc_word t S (r_addend rel) (reloc_place sec vma rel) w = w"
      using 1 by (simp add: reloc_word_def reloc_number_defs)
    ultimately show ?thesis using assms(7) by simp
  next
    case 2
    then show ?thesis using switch_load_store [OF x assms(4)] w by blast
  next
    case 3
    then show ?thesis using switch_branch [OF x _ assms(3), of S] assms(4) w by simp
  next
    case 4
    have "\<exists>q. fusion_final_link_relocate (fusion_howto t) ?b sec p rel S = Inr (bfd_reloc_ok, q) \<and>
      insn_at ?b q ?a = Inr (reloc_word t S (r_addend rel) (reloc_place sec vma rel) w)"
      using switch_generic [OF assms(1-3) fusion_howto_mem(1) [OF t] _ x, of S]
        switch_generic_word [OF t, of sec vma "r_offset rel" S "r_addend rel" x] 4 assms(6) w
      by (simp add: fusion_howto_mem(2) [OF t] reloc_place_def)
    with 4 show ?thesis using assms(4) by (simp add: relocate_switch_def)
  qed
qed

lemma insn_at_same:
  assumes "length q = length p" "\<And>i. a \<le> i \<Longrightarrow> i < a + 4 \<Longrightarrow> i < length p \<Longrightarrow> q ! i = p ! i"
  shows "insn_at b q a = insn_at b p a"
proof -
  have "take 4 (drop a q) = take 4 (drop a p)"
    using assms by (intro nth_equalityI) auto
  with assms(1) show ?thesis by (simp add: insn_at_def t32.get_eq ld_def)
qed

lemma reloc_valueE:
  assumes "reloc_value li sec rel = Some (S, A)"
  obtains sec' rel' nm ev where "reloc_symbol li sec rel = Inr (Some (S, sec', rel', nm, ev))"
    "r_addend rel' = A" "r_offset rel' = r_offset rel" "r_info rel' = r_info rel"
    "\<not> (case sec' of None \<Rightarrow> False | Some sec \<Rightarrow> discarded_section sec)"
  using assms reloc_symbol_cases [of li sec rel]
  by (cases rule: reloc_symbol_cases [of li sec rel]) (auto simp: reloc_value_def split: option.splits if_splits)

lemma relocate_step_word:
  assumes "fusion_target (li_bfd li)" "section_ok (li_bfd li) sec (ls_contents s)" "sec_output_vma sec = Some vma"
    and "\<not> li_relocatable li" "supported li sec (ls_contents s) rel" "reloc_value li sec rel = Some (S, A)"
    and "insn_at (li_bfd li) (ls_contents s) (unat (r_offset rel)) = Inr w"
  shows "\<exists>s'. relocate_step li sec rel s = Inr (None, s') \<and>
    insn_at (li_bfd li) (ls_contents s') (unat (r_offset rel)) =
      Inr (reloc_word (ELF32_R_TYPE (r_info rel)) S A (reloc_place sec vma rel) w)"
proof -
  obtain sec' rel' nm ev where r: "reloc_symbol li sec rel = Inr (Some (S, sec', rel', nm, ev))"
    "r_addend rel' = A" "r_offset rel' = r_offset rel" "r_info rel' = r_info rel"
    "\<not> (case sec' of None \<Rightarrow> False | Some sec \<Rightarrow> discarded_section sec)"
    using reloc_valueE [OF assms(6)] by blast
  let ?t = "ELF32_R_TYPE (r_info rel)"
  have t: "?t < R_FUSION_max" "?t \<noteq> R_FUSION_RELATIVE" using assms(5) by (simp_all add: supported_def)
  obtain q where "relocate_switch li sec (fusion_howto ?t) rel' S (ls_contents s) = Inr (bfd_reloc_ok, q)"
     "insn_at (li_bfd li) q (unat (r_offset rel)) = Inr (reloc_word ?t S A (reloc_place sec vma rel) w)"
    using switch_word [OF assms(1-3), of ?t rel' w S] r t assms(7) by (auto simp: reloc_place_def)
  with r t assms(4) show ?thesis
    using fusion_howto_mem(3) [of ?t] by (auto simp: relocate_step_def Let_def R_FUSION_max_def)
qed

lemma supported_insn: "supported li sec p rel \<Longrightarrow> \<exists>w. insn_at b p (unat (r_offset rel)) = Inr w"
  by (auto simp: supported_def insn_at_def t32.get_in)

lemma relocate_loop_words:
  assumes "fusion_target (li_bfd li)" "sec_output_vma sec = Some vma" "\<not> li_relocatable li"
  shows "section_ok (li_bfd li) sec (ls_contents s) \<Longrightarrow> \<forall>rel \<in> set relocs. supported li sec (ls_contents s) rel \<Longrightarrow>
    sorted_wrt apart relocs \<Longrightarrow>
    \<exists>s'. relocate_loop li sec relocs s = Inr (1, s') \<and>
    (\<forall>rel \<in> set relocs. \<forall>S A w. reloc_value li sec rel = Some (S, A) \<longrightarrow>
       insn_at (li_bfd li) (ls_contents s) (unat (r_offset rel)) = Inr w \<longrightarrow>
       insn_at (li_bfd li) (ls_contents s') (unat (r_offset rel)) =
         Inr (reloc_word (ELF32_R_TYPE (r_info rel)) S A (reloc_place sec vma rel) w))"
proof (induction relocs arbitrary: s)
  case (Cons rel relocs)
  let ?b = "li_bfd li" let ?a = "\<lambda>rel. unat (r_offset rel)"
  have oct: "bfd_octets_per_byte ?b = 1" using assms(1) by (simp add: fusion_target_def)
  have sup: "supported li sec (ls_contents s) rel" using Cons.prems by simp
  obtain S A where v: "reloc_value li sec rel = Some (S, A)" using sup by (auto simp: supported_def)
  obtain w where w: "insn_at ?b (ls_contents s) (?a rel) = Inr w" using supported_insn [OF sup] by blast
  obtain s1 where s1: "relocate_step li sec rel s = Inr (None, s1)"
    "insn_at ?b (ls_contents s1) (?a rel) = Inr (reloc_word (ELF32_R_TYPE (r_info rel)) S A (reloc_place sec vma rel) w)"
    using relocate_step_word [OF assms(1) Cons.prems(1) assms(2,3) sup v w] by blast
  have ch: "changes_only (?a rel) 4 (ls_contents s) (ls_contents s1)"
    using relocate_step_changes [OF s1(1) oct] .
  then have len: "length (ls_contents s1) = length (ls_contents s)" by (simp add: changes_only_def)
  have "section_ok ?b sec (ls_contents s1)" using Cons.prems(1) len by (simp add: section_ok_def)
  moreover have "\<forall>rel \<in> set relocs. supported li sec (ls_contents s1) rel"
    using Cons.prems(2) len by (simp add: supported_def)
  ultimately obtain s' where s': "relocate_loop li sec relocs s1 = Inr (1, s')"
    and words: "\<forall>rel \<in> set relocs. \<forall>S A w. reloc_value li sec rel = Some (S, A) \<longrightarrow>
       insn_at ?b (ls_contents s1) (?a rel) = Inr w \<longrightarrow>
       insn_at ?b (ls_contents s') (?a rel) =
         Inr (reloc_word (ELF32_R_TYPE (r_info rel)) S A (reloc_place sec vma rel) w)"
    using Cons.IH [of s1] Cons.prems(3) by auto
  have keep: "insn_at ?b (ls_contents s1) (?a r) = insn_at ?b (ls_contents s) (?a r)" if "r \<in> set relocs" for r
    using ch that Cons.prems(3) by (intro insn_at_same) (fastforce simp: changes_only_def apart_def)+
  have "insn_at ?b (ls_contents s') (?a rel) = insn_at ?b (ls_contents s1) (?a rel)"
    using relocate_loop_changes [OF s' oct] Cons.prems(3)
    by (intro insn_at_same) (fastforce simp: apart_def)+
  with s1 s' words v w keep show ?case by auto
qed simp

subsection \<open>What the relocation types do to instructions\<close>

lemma put_masks:
  "(w AND NOT MASK_IMM_J) OR (v AND MASK_IMM_J) = (w AND NOT MASK_IMM_J) OR GEN_J_IMM (GET_IMM_J v)"
  "(w AND NOT MASK_IMM_LI) OR (v AND MASK_IMM_LI) = (w AND NOT MASK_IMM_LI) OR GEN_LI_IMM v" for w v :: insn_t
  by (simp_all add: imm_j.gen_get and.commute) (simp add: isa_defs and.commute)

lemma decode_reloc_word:
  "decode w = Some (B_insn rsa rsb imm14 f) \<Longrightarrow>
     decode (reloc_word R_FUSION_BRANCH S A P w) = Some (B_insn rsa rsb (ucast (S + A - P)) f)"
  "decode w = Some (LI_insn rd dsel imm16) \<Longrightarrow>
     decode (reloc_word R_FUSION_LI S A P w) = Some (LI_insn rd dsel (ucast (S + A)))"
  "decode w = Some (LI_insn rd dsel imm16) \<Longrightarrow>
     decode (reloc_word R_FUSION_LUI S A P w) = Some (LI_insn rd dsel (ucast (drop_bit 16 (S + A))))"
  "decode w = Some (J_insn rsa imm21) \<Longrightarrow>
     decode (reloc_word R_FUSION_JUMP S A P w) = Some (J_insn rsa (ucast (GET_IMM_J (ucast (S + A - P) :: insn_t))))"
  "decode w = Some (JL_insn rsa imm21) \<Longrightarrow>
     decode (reloc_word R_FUSION_JUMP S A P w) = Some (JL_insn rsa (ucast (GET_IMM_J (ucast (S + A - P) :: insn_t))))"
  "decode w = Some (J_insn rsa imm21) \<Longrightarrow>
     decode (reloc_word R_FUSION_JUMP_O S A P w) = Some (J_insn rsa (ucast (GET_IMM_J (ucast (S + A) :: insn_t))))"
  "decode w = Some (L_insn rd rsa f imm14) \<Longrightarrow>
     decode (reloc_word R_FUSION_LOAD S A P w) = Some (L_insn rd rsa f (imm14 OR ucast S))"
  "decode w = Some (S_insn f rsa rsb imm14) \<Longrightarrow>
     decode (reloc_word R_FUSION_STORE S A P w) = Some (S_insn f rsa rsb (imm14 OR ucast S))"
  by (simp_all add: reloc_word_def reloc_number_defs put_masks imm_b.gen_and_mask decode_put_imm_b
    decode_put_imm_li decode_put_imm_j decode_or_imm_l decode_or_imm_s ucast_narrow)

lemma jump_imm: "(ucast (GET_IMM_J (ucast (d :: bfd_vma) :: insn_t)) :: 21 word) = ucast d \<longleftrightarrow>
   take_bit 5 (drop_bit 16 d) = take_bit 5 (drop_bit 21 d)"
  by (simp add: isa_defs word_bits) blast

subsection \<open>Chains of symbols\<close>

lemma follow_links_iff:
  "follow_links entries n h = Inr r \<longleftrightarrow>
     (\<exists>k \<le> n. r = (link_of entries ^^ k) h \<and> r < length entries \<and> \<not> is_link entries r \<and>
        (\<forall>i<k. is_link entries ((link_of entries ^^ i) h)))"
proof (induction n arbitrary: h)
  case 0
  show ?case by (subst follow_links.simps) (auto simp: rbind_Inr_iff rd8_def is_link_def)
next
  case (Suc n)
  have link: "follow_links entries (Suc n) h = Inr r \<longleftrightarrow> follow_links entries n (link_of entries h) = Inr r" if "is_link entries h"
    using that by (subst follow_links.simps) (auto simp: rd8_def is_link_def link_of_def)
  have stop: "follow_links entries (Suc n) h = Inr r \<longleftrightarrow> r = h \<and> h < length entries" if "\<not> is_link entries h"
    using that by (subst follow_links.simps) (auto simp: rd8_def is_link_def rbind_Inr_iff)
  show ?case
  proof (cases "is_link entries h")
    case True
    have "(\<exists>k \<le> n. r = (link_of entries ^^ k) (link_of entries h) \<and> r < length entries \<and> \<not> is_link entries r \<and>
        (\<forall>i<k. is_link entries ((link_of entries ^^ i) (link_of entries h)))) \<longleftrightarrow>
      (\<exists>k \<le> n. r = (link_of entries ^^ Suc k) h \<and> r < length entries \<and> \<not> is_link entries r \<and>
        (\<forall>i<Suc k. is_link entries ((link_of entries ^^ i) h)))"
      using True by (simp add: All_less_Suc2 funpow_swap1)
    also have "\<dots> \<longleftrightarrow> (\<exists>k \<le> Suc n. r = (link_of entries ^^ k) h \<and> r < length entries \<and> \<not> is_link entries r \<and>
        (\<forall>i<k. is_link entries ((link_of entries ^^ i) h)))"
      using True by (auto simp del: funpow.simps) (metis Suc_le_mono funpow_0 not0_implies_Suc)
    finally show ?thesis using link [OF True] Suc by simp
  next
    case False
    then show ?thesis using stop by (auto intro: exI [of _ 0]) (metis funpow_0 neq0_conv)+
  qed
qed

lemma chain_short:
  assumes "\<forall>i<k. is_link entries ((link_of entries ^^ i) h)"
    and "\<not> is_link entries ((link_of entries ^^ k) h)"
  shows "k \<le> length entries"
proof -
  let ?f = "\<lambda>i. (link_of entries ^^ i) h"
  have step: "?f (i + d) = ?f (j + d)" if "?f i = ?f j" for i j d
    using that by (simp add: add.commute [of _ d] funpow_add)
  have "inj_on ?f {..<k}"
  proof (rule linorder_inj_onI')
    fix i j assume ij: "i \<in> {..<k}" "j \<in> {..<k}" "i < j"
    show "?f i \<noteq> ?f j"
    proof
      assume "?f i = ?f j"
      from step [OF this, of "k - j"] ij have "?f (i + (k - j)) = ?f k" by simp
      moreover have "is_link entries (?f (i + (k - j)))" using assms(1) ij by simp
      ultimately show False using assms(2) by simp
    qed
  qed
  moreover have "?f ` {..<k} \<subseteq> {..<length entries}" using assms(1) by (auto simp: is_link_def)
  ultimately show ?thesis using card_inj_on_le [of ?f "{..<k}" "{..<length entries}"] by simp
qed

lemma follow_links_enough:
  "follow_links entries n h = Inr r \<Longrightarrow> follow_links entries (length entries) h = Inr r"
  unfolding follow_links_iff using chain_short by blast

subsection \<open>Lookups and examples\<close>

lemmas example_defs = example_section_def example_bfd_def example_link_def example_rela_def example_contents_def

lemma example_place: "reloc_place example_section 0x1000 (example_rela info) = 0x1004"
  by (simp add: reloc_place_def example_defs)

lemma example_value:
  "ELF32_R_SYM info = 1 \<Longrightarrow> reloc_value example_link example_section (example_rela info) = Some (0x1000, 0)"
  by (simp add: reloc_value_def reloc_symbol_def local_symbol_def elf_rela_local_sym_def example_defs
     rd8_def sec_addr_def discarded_section_def Let_def)

lemma example_ok:
  "fusion_target (li_bfd example_link)" "\<not> li_relocatable example_link"
  "sec_output_vma example_section = Some 0x1000"
  "length insn = 4 \<Longrightarrow> section_ok (li_bfd example_link) example_section (example_contents insn)"
  by (simp_all add: fusion_target_def section_ok_def bfd_get_section_limit_octets_def example_defs)

lemma example_supported:
  "ELF32_R_SYM info = 1 \<Longrightarrow> ELF32_R_TYPE info < R_FUSION_max \<Longrightarrow> ELF32_R_TYPE info \<noteq> R_FUSION_RELATIVE \<Longrightarrow>
   length insn = 4 \<Longrightarrow> supported example_link example_section (example_contents insn) (example_rela info)"
  by (simp add: supported_def example_value) (simp add: example_defs)

lemma example_insn:
  "insn_at (li_bfd example_link) (example_contents [a, b, c, d]) 4 =
     Inr (push_bit 24 (ucast a) OR push_bit 16 (ucast b) OR push_bit 8 (ucast c) OR ucast d)"
  by (simp add: insn_at_def bfd_get_32_def bfd_getb32_def ld_def example_defs Let_def word_bits)

lemma example_rela_simps [simp]: "r_offset (example_rela info) = 4" "r_info (example_rela info) = info"
  by (simp_all add: example_rela_def)

lemma type_lookup_append: "i \<le> length m \<Longrightarrow> type_lookup_loop (m @ m') i code = type_lookup_loop m i code"
  by (induction i) (auto simp: rd8_def nth_append split: prod.splits)

lemma type_lookup_map_of:
  "\<forall>(c, t) \<in> set m. t < 14 \<Longrightarrow>
   type_lookup_loop m (length m) code = Inr (map_option fusion_howto (map_of (rev m) code))"
proof (induction m rule: rev_induct)
  case (snoc x m)
  obtain c t where x: "x = (c, t)" by (cases x)
  then have "t < 14" using snoc.prems by simp
  then show ?case
    using snoc by (simp add: x rd8_def [of _ "length m"] type_lookup_append fusion_howto_mem(3))
qed simp

lemma reloc_type_lookup_map:
  "fusion_reloc_type_lookup code = Inr (map_option fusion_howto (map_of fusion_reloc_map code))"
proof -
  have "\<forall>(c, t) \<in> set fusion_reloc_map. t < 14"
    by (simp add: fusion_reloc_map_def reloc_number_defs)
  moreover have "map_of (rev fusion_reloc_map) code = map_of fusion_reloc_map code"
    by (cases code) (simp_all add: fusion_reloc_map_def)
  ultimately show ?thesis
    using type_lookup_map_of by (simp add: fusion_reloc_type_lookup_def)
qed

lemma name_lookup_first:
  assumes "i < length hs" "howto_name (hs ! i) = Some nm" "strcasecmp_eq nm r_name"
    and "\<And>j nm'. j < i \<Longrightarrow> howto_name (hs ! j) = Some nm' \<Longrightarrow> \<not> strcasecmp_eq nm' r_name"
  shows "name_lookup_loop hs r_name = Some (hs ! i)"
  using assms
proof (induction hs arbitrary: i)
  case (Cons h hs)
  show ?case
  proof (cases i)
    case (Suc k)
    from Cons.prems(4) [of 0] Suc have h: "howto_name h = Some nm' \<Longrightarrow> \<not> strcasecmp_eq nm' r_name" for nm' by simp
    have "name_lookup_loop hs r_name = Some (hs ! k)"
    proof (rule Cons.IH)
      show "\<not> strcasecmp_eq nm' r_name" if "j < k" "howto_name (hs ! j) = Some nm'" for j nm'
        using Cons.prems(4) [of "Suc j" nm'] that Suc by simp
    qed (use Cons.prems Suc in auto)
    with h Suc show ?thesis by (auto split: option.splits)
  qed (use Cons.prems in simp)
qed simp

lemma howto_names_distinct:
  "distinct (map (\<lambda>h. map_option (map TOLOWER) (howto_name h)) fusion_elf_howto_table)"
  by code_simp

lemma howto_names: "h \<in> set fusion_elf_howto_table \<Longrightarrow> howto_name h \<noteq> None"
  by (auto simp: fusion_elf_howto_table_def HOWTO_def)

subsection \<open>Properties\<close>

text \<open>
  C4: relocating a section in a final link. When every relocation has a supported type, a place
  inside the section and a symbol whose section is kept, and no two places overlap, the
  function returns 1 without a fault, and at every place the word is the one that the
  type's specification gives for the word that was there.
\<close>

theorem relocate_section_words:
  assumes "fusion_target (li_bfd li)" and "section_ok (li_bfd li) sec contents"
    and "sec_output_vma sec = Some vma" and "\<not> li_relocatable li"
    and "\<forall>rel \<in> set relocs. supported li sec contents rel" and "sorted_wrt apart relocs"
  shows "\<exists>s'. fusion_elf_relocate_section li sec contents relocs m n = Inr (1, s') \<and>
    (\<forall>rel \<in> set relocs. \<forall>S A w. reloc_value li sec rel = Some (S, A) \<longrightarrow>
       insn_at (li_bfd li) contents (unat (r_offset rel)) = Inr w \<longrightarrow>
       insn_at (li_bfd li) (ls_contents s') (unat (r_offset rel)) =
         Inr (reloc_word (ELF32_R_TYPE (r_info rel)) S A (reloc_place sec vma rel) w))"
  using relocate_loop_words [OF assms(1,3,4), of "\<lparr>ls_contents = contents, ls_rels = [], ls_events = [],
      ls_out_rel_size = m, ls_in_rel_size = n\<rparr>" relocs] assms(2,5,6)
  by (simp add: fusion_elf_relocate_section_def)

theorem relocate_section_words_witness:
  "\<exists>s'. fusion_elf_relocate_section example_link example_section (example_contents [0x34, 0x01, 0x10, 0x00])
      [example_rela 0x10B] 0 0 = Inr (1, s') \<and>
    insn_at (li_bfd example_link) (ls_contents s') 4 = Inr 0x37e117f0"
proof -
  have info: "ELF32_R_SYM 0x10B = 1" "ELF32_R_TYPE 0x10B = R_FUSION_BRANCH"
    by (simp_all add: ELF32_R_SYM_def ELF32_R_TYPE_def reloc_number_defs)
  have "supported example_link example_section (example_contents [0x34, 0x01, 0x10, 0x00]) (example_rela 0x10B)"
    by (rule example_supported) (simp_all add: info reloc_number_defs)
  with relocate_section_words [of example_link example_section "example_contents [0x34, 0x01, 0x10, 0x00]" "0x1000"
      "[example_rela 0x10B]" 0 0]
  obtain s' where "fusion_elf_relocate_section example_link example_section (example_contents [0x34, 0x01, 0x10, 0x00])
      [example_rela 0x10B] 0 0 = Inr (1, s')"
    and "insn_at (li_bfd example_link) (ls_contents s') 4 = Inr (reloc_word R_FUSION_BRANCH 0x1000 0 0x1004 0x34011000)"
    by (auto simp: example_ok info example_value example_place example_insn)
  moreover have "reloc_word R_FUSION_BRANCH 0x1000 0 0x1004 0x34011000 = 0x37e117f0"
    by (simp add: reloc_word_def reloc_number_defs isa_defs)
  ultimately show ?thesis by auto
qed


text \<open>
  C27: relocating a section, in any link, never changes the size of the contents and changes
  no byte outside the four bytes at the places of the relocations.
\<close>

theorem relocate_section_frame:
  assumes "fusion_elf_relocate_section li sec contents relocs m n = Inr (ret, s')"
    and "bfd_octets_per_byte (li_bfd li) = 1"
  shows "length (ls_contents s') = length contents \<and>
    (\<forall>i. i < length contents \<longrightarrow>
      (\<forall>rel \<in> set relocs. i < unat (r_offset rel) \<or> unat (r_offset rel) + 4 \<le> i) \<longrightarrow>
      ls_contents s' ! i = contents ! i)"
  using assms relocate_loop_changes [of li sec relocs] by (fastforce simp: fusion_elf_relocate_section_def)

theorem relocate_section_frame_witness:
  "\<exists>ret s'. fusion_elf_relocate_section example_link example_section (example_contents [0x34, 0x01, 0x10, 0x00])
      [example_rela 0x108] 0 0 = Inr (ret, s') \<and> length (ls_contents s') = 8 \<and> ls_contents s' ! 3 = 0"
proof -
  have info: "ELF32_R_SYM 0x108 = 1" "ELF32_R_TYPE 0x108 = R_FUSION_RELATIVE"
    by (simp_all add: ELF32_R_SYM_def ELF32_R_TYPE_def reloc_number_defs)
  obtain ret s' where r: "fusion_elf_relocate_section example_link example_section
      (example_contents [0x34, 0x01, 0x10, 0x00]) [example_rela 0x108] 0 0 = Inr (ret, s')"
    using info by (simp add: fusion_elf_relocate_section_def relocate_step_def reloc_symbol_def local_symbol_def
      elf_rela_local_sym_def example_defs rd8_def sec_addr_def discarded_section_def Let_def)
  have "bfd_octets_per_byte (li_bfd example_link) = 1" by (simp add: example_defs)
  from relocate_section_frame [OF r this] have "length (ls_contents s') = 8" "ls_contents s' ! 3 = 0"
    by (auto simp: example_contents_def)
  with r show ?thesis by blast
qed

text \<open>
  C28: a relocation of type \<open>R_FUSION_RELATIVE\<close> or of a number beyond the table ends the
  function with \<open>bfd_reloc_notsupported\<close>, which is 4 and so \<open>TRUE\<close> to the caller: nothing is
  reported and neither this relocation nor any that follows is applied.
\<close>

theorem relocate_section_gives_up:
  assumes "reloc_value li sec rel = Some (S, A)" and "\<not> li_relocatable li"
    and "ELF32_R_TYPE (r_info rel) = R_FUSION_RELATIVE \<or> R_FUSION_max \<le> ELF32_R_TYPE (r_info rel)"
  shows "\<exists>s'. fusion_elf_relocate_section li sec contents (rel # relocs) m n = Inr (4, s') \<and>
    ls_contents s' = contents \<and> drop 1 (ls_rels s') = relocs"
proof -
  obtain sec' rel' nm ev where r: "reloc_symbol li sec rel = Inr (Some (S, sec', rel', nm, ev))"
    "\<not> (case sec' of None \<Rightarrow> False | Some sec \<Rightarrow> discarded_section sec)"
    using assms(1) by (rule reloc_valueE)
  let ?s = "\<lparr>ls_contents = contents, ls_rels = [], ls_events = [], ls_out_rel_size = m, ls_in_rel_size = n\<rparr>"
  have "relocate_step li sec rel ?s = Inr (Some 4, ?s\<lparr>ls_events := ev, ls_rels := [rel']\<rparr>)"
    using r(2) assms(2,3) unfolding relocate_step_def r(1) Let_def rbind_simps option.case prod.case
    by (simp only: if_not_P if_P simp_thms) simp
  then show ?thesis
    by (simp add: fusion_elf_relocate_section_def)
qed

theorem relocate_section_gives_up_witness:
  "\<exists>s'. fusion_elf_relocate_section example_link example_section (example_contents [0x34, 0x01, 0x10, 0x00])
      [example_rela 0x108, example_rela 0x10B] 0 0 = Inr (4, s') \<and>
    ls_contents s' = example_contents [0x34, 0x01, 0x10, 0x00]"
proof -
  have "ELF32_R_SYM 0x108 = 1" "ELF32_R_TYPE 0x108 = R_FUSION_RELATIVE"
    by (simp_all add: ELF32_R_SYM_def ELF32_R_TYPE_def reloc_number_defs)
  then show ?thesis
    using relocate_section_gives_up [of example_link example_section "example_rela 0x108" "0x1000" 0
      "example_contents [0x34, 0x01, 0x10, 0x00]" "[example_rela 0x10B]" 0 0]
    by (auto simp: example_value example_ok)
qed

text \<open>
  C24: the relocated branch and load-immediate instructions. Whatever the fields of the
  instruction at the place, afterwards it is the same instruction with, for a branch, the
  distance from the place to the symbol, cut to 14 bits, for \<open>R_FUSION_LI\<close> the low and for
  \<open>R_FUSION_LUI\<close> the high half of the symbol's 32-bit address.
\<close>

theorem relocated_branch_and_li:
  assumes "fusion_target (li_bfd li)" and "section_ok (li_bfd li) sec p" and "sec_output_vma sec = Some vma"
    and "insn_at (li_bfd li) p (unat (r_offset rel)) = Inr w" and "decode w = Some i"
    and "t = ELF32_R_TYPE (r_info rel)"
    and "t = R_FUSION_BRANCH \<and> i = B_insn rsa rsb imm f \<and>
           j = B_insn rsa rsb (ucast (S + r_addend rel - reloc_place sec vma rel)) f \<or>
         t = R_FUSION_LI \<and> i = LI_insn rd dsel imm' \<and> j = LI_insn rd dsel (ucast (S + r_addend rel)) \<or>
         t = R_FUSION_LUI \<and> i = LI_insn rd dsel imm' \<and> j = LI_insn rd dsel (ucast (drop_bit 16 (S + r_addend rel)))"
  shows "\<exists>q w'. relocate_switch li sec (fusion_howto t) rel S p = Inr (bfd_reloc_ok, q) \<and>
     insn_at (li_bfd li) q (unat (r_offset rel)) = Inr w' \<and> decode w' = Some j"
proof -
  have "t < R_FUSION_max" "t \<noteq> R_FUSION_RELATIVE" using assms(7) by (auto simp: reloc_number_defs)
  from switch_word [OF assms(1-3,6) this assms(4), of S]
  obtain q where "relocate_switch li sec (fusion_howto t) rel S p = Inr (bfd_reloc_ok, q)"
    and "insn_at (li_bfd li) q (unat (r_offset rel)) =
       Inr (reloc_word t S (r_addend rel) (reloc_place sec vma rel) w)" by blast
  moreover have "decode (reloc_word t S (r_addend rel) (reloc_place sec vma rel) w) = Some j"
    using assms(5,7) decode_reloc_word(1-3) by auto
  ultimately show ?thesis by blast
qed

theorem relocated_branch_and_li_witness:
  "\<exists>q w'. relocate_switch example_link example_section (fusion_howto R_FUSION_BRANCH) (example_rela 0x10B) 0x1000
      (example_contents [0x34, 0x01, 0x10, 0x00]) = Inr (bfd_reloc_ok, q) \<and>
    insn_at (li_bfd example_link) q 4 = Inr w' \<and> decode w' = Some (B_insn 1 2 0x3ffc 0)"
proof -
  let ?i = "B_insn 1 2 0 0" let ?j = "B_insn 1 2 0x3ffc 0"
  have "R_FUSION_BRANCH = ELF32_R_TYPE 0x10B"
    by (simp add: ELF32_R_TYPE_def reloc_number_defs)
  moreover have "decode 0x34011000 = Some ?i" 
    by (simp add: decode_iff isa_defs)
  moreover have "(0x3ffc :: 14 word) = ucast (0x1000 + 0 - 0x1004 :: bfd_vma)" by simp
  ultimately show ?thesis
    using relocated_branch_and_li [of example_link example_section "example_contents [0x34, 0x01, 0x10, 0x00]" "0x1000"
      "example_rela 0x10B" "0x34011000" ?i R_FUSION_BRANCH 1 2 0 0 ?j "0x1000" 0 0 0]
    by (simp add: example_ok example_place example_insn) (simp add: example_rela_def)
qed

text \<open>
  C25: the relocated jump. The value goes under the mask of the scattered 21-bit field without
  being moved into it, so that the jump keeps its register but gets the intended distance
  exactly when the bits 16 to 20 of the distance happen to equal its bits 21 to 25.
\<close>

theorem relocated_jump:
  assumes "fusion_target (li_bfd li)" and "section_ok (li_bfd li) sec p" and "sec_output_vma sec = Some vma"
    and "insn_at (li_bfd li) p (unat (r_offset rel)) = Inr w" and "decode w = Some (J_insn rsa imm)"
    and "ELF32_R_TYPE (r_info rel) = R_FUSION_JUMP"
    and "delta = S + r_addend rel - reloc_place sec vma rel"
  shows "\<exists>q w' imm'. relocate_switch li sec (fusion_howto R_FUSION_JUMP) rel S p = Inr (bfd_reloc_ok, q) \<and>
     insn_at (li_bfd li) q (unat (r_offset rel)) = Inr w' \<and> decode w' = Some (J_insn rsa imm') \<and>
     (imm' = ucast delta \<longleftrightarrow> take_bit 5 (drop_bit 16 delta) = take_bit 5 (drop_bit 21 delta))"
proof -
  have "R_FUSION_JUMP < R_FUSION_max" "R_FUSION_JUMP \<noteq> R_FUSION_RELATIVE" by (simp_all add: reloc_number_defs)
  from switch_word [OF assms(1-3) assms(6) [symmetric] this assms(4), of S] decode_reloc_word(4) [OF assms(5)]
    jump_imm [of delta] assms(7) show ?thesis by blast
qed

theorem relocated_jump_witness:
  "\<exists>q w' imm'. relocate_switch example_link example_section (fusion_howto R_FUSION_JUMP) (example_rela 0x10C) 0x11004
      (example_contents [0x30, 0x01, 0x00, 0x00]) = Inr (bfd_reloc_ok, q) \<and>
    insn_at (li_bfd example_link) q 4 = Inr w' \<and> decode w' = Some (J_insn 1 imm') \<and> imm' \<noteq> 0x10000"
proof -
  have "ELF32_R_TYPE 0x10C = R_FUSION_JUMP"
    by (simp add: ELF32_R_TYPE_def reloc_number_defs)
  moreover have "decode 0x30010000 = Some (J_insn 1 0)" by (simp add: decode_iff isa_defs)
  moreover have "take_bit 5 (drop_bit 16 0x10000) \<noteq> (take_bit 5 (drop_bit 21 0x10000) :: bfd_vma)"
    by code_simp
  ultimately show ?thesis
    using relocated_jump [of example_link example_section "example_contents [0x30, 0x01, 0x00, 0x00]" "0x1000"
      "example_rela 0x10C" "0x30010000" 1 0 "0x10000" "0x11004"]
    by (simp add: example_ok example_place example_insn) (simp add: example_rela_def)
qed

text \<open>
  C26: the relocated load and store. The address of the symbol is merged by OR into the
  offset that the instruction already has; the addend is not used.
\<close>

theorem relocated_load_store:
  assumes "fusion_target (li_bfd li)" and "section_ok (li_bfd li) sec p" and "sec_output_vma sec = Some vma"
    and "insn_at (li_bfd li) p (unat (r_offset rel)) = Inr w" and "decode w = Some i"
    and "t = ELF32_R_TYPE (r_info rel)"
    and "t = R_FUSION_LOAD \<and> i = L_insn r1 r2 f imm \<and> j = L_insn r1 r2 f (imm OR ucast S) \<or>
         t = R_FUSION_STORE \<and> i = S_insn f r1 r2 imm \<and> j = S_insn f r1 r2 (imm OR ucast S)"
  shows "\<exists>q w'. relocate_switch li sec (fusion_howto t) rel S p = Inr (bfd_reloc_ok, q) \<and>
     insn_at (li_bfd li) q (unat (r_offset rel)) = Inr w' \<and> decode w' = Some j"
proof -
  have "t < R_FUSION_max" "t \<noteq> R_FUSION_RELATIVE" using assms(7) by (auto simp: reloc_number_defs)
  from switch_word [OF assms(1-3,6) this assms(4), of S]
  obtain q where "relocate_switch li sec (fusion_howto t) rel S p = Inr (bfd_reloc_ok, q)"
    and "insn_at (li_bfd li) q (unat (r_offset rel)) =
       Inr (reloc_word t S (r_addend rel) (reloc_place sec vma rel) w)" by blast
  moreover have "decode (reloc_word t S (r_addend rel) (reloc_place sec vma rel) w) = Some j"
    using assms(5,7) decode_reloc_word(7,8) by auto
  ultimately show ?thesis by blast
qed

theorem relocated_load_store_witness:
  "\<exists>q w'. relocate_switch example_link example_section (fusion_howto R_FUSION_LOAD) (example_rela 0x109) 0x8
      (example_contents [0x78, 0x01, 0x00, 0x01]) = Inr (bfd_reloc_ok, q) \<and>
    insn_at (li_bfd example_link) q 4 = Inr w' \<and> decode w' = Some (L_insn 0 1 0 9)"
proof -
  let ?i = "L_insn 0 1 0 1" let ?j = "L_insn 0 1 0 9"
  have "R_FUSION_LOAD = ELF32_R_TYPE 0x109"
    by (simp add: ELF32_R_TYPE_def reloc_number_defs)
  moreover have "decode 0x78010001 = Some ?i"
    by (simp add: decode_iff isa_defs)
  ultimately show ?thesis
    using relocated_load_store [of example_link example_section "example_contents [0x78, 0x01, 0x00, 0x01]" "0x1000"
      "example_rela 0x109" "0x78010001" ?i R_FUSION_LOAD 0 1 0 1 ?j 8]
    by (simp add: example_ok example_place example_insn)
qed

text \<open>
  C31: the lookups. Looking up a generic code never leaves the tables and finds the howto of
  the type that the map pairs with the code; a howto is found under its name in any
  spelling of case; and the howto of a relocation record always exists, it is the one of the
  record's type, or that of \<open>R_FUSION_NONE\<close> with a report when the type is not known.
\<close>

theorem reloc_lookups:
  "fusion_reloc_type_lookup code = Inr (map_option fusion_howto (map_of fusion_reloc_map code)) \<and>
   (t < R_FUSION_max \<longrightarrow> howto_type (fusion_howto t) = t \<and>
      (\<exists>nm. howto_name (fusion_howto t) = Some nm \<and>
        (\<forall>s. map TOLOWER s = map TOLOWER nm \<longrightarrow> fusion_reloc_name_lookup s = Some (fusion_howto t)))) \<and>
   fusion_info_to_howto rel =
     (if ELF32_R_TYPE (r_info rel) < R_FUSION_max then Inr (False, fusion_howto (ELF32_R_TYPE (r_info rel)))
      else Inr (True, fusion_howto R_FUSION_NONE))"
proof (intro conjI impI)
  show "fusion_reloc_type_lookup code = Inr (map_option fusion_howto (map_of fusion_reloc_map code))"
    by (rule reloc_type_lookup_map)
  assume t: "t < R_FUSION_max"
  then have t14: "t < 14" by (simp add: R_FUSION_max_def)
  show "howto_type (fusion_howto t) = t" using fusion_howto_mem(2) [OF t14] .
  obtain nm where nm: "howto_name (fusion_howto t) = Some nm"
    using howto_names [OF fusion_howto_mem(1) [OF t14]] by auto
  have "fusion_reloc_name_lookup s = Some (fusion_howto t)" if "map TOLOWER s = map TOLOWER nm" for s
    unfolding fusion_reloc_name_lookup_def fusion_howto_def
  proof (rule name_lookup_first)
    fix j nm' assume j: "j < t" "howto_name (fusion_elf_howto_table ! j) = Some nm'"
    have "map_option (map TOLOWER) (howto_name (fusion_elf_howto_table ! j)) \<noteq>
        map_option (map TOLOWER) (howto_name (fusion_elf_howto_table ! t))"
      using nth_eq_iff_index_eq [OF howto_names_distinct, of j t] j(1) t14 by (simp add: howto_table_length)
    with j(2) nm that show "\<not> strcasecmp_eq nm' s"
      by (simp add: strcasecmp_eq_def fusion_howto_def)
  qed (use nm that t14 in \<open>auto simp: howto_table_length fusion_howto_def strcasecmp_eq_def\<close>)
  with nm show "\<exists>nm. howto_name (fusion_howto t) = Some nm \<and>
        (\<forall>s. map TOLOWER s = map TOLOWER nm \<longrightarrow> fusion_reloc_name_lookup s = Some (fusion_howto t))" by blast
next
  show "fusion_info_to_howto rel =
     (if ELF32_R_TYPE (r_info rel) < R_FUSION_max then Inr (False, fusion_howto (ELF32_R_TYPE (r_info rel)))
      else Inr (True, fusion_howto R_FUSION_NONE))"
    by (simp add: fusion_info_to_howto_def fusion_howto_mem(3) reloc_number_defs)
qed

theorem reloc_lookups_witness:
  "fusion_reloc_name_lookup ''r_fusion_li'' = Some (fusion_howto R_FUSION_LI)"
proof -
  have "howto_name (fusion_howto R_FUSION_LI) = Some ''R_FUSION_LI''"
    by (simp add: fusion_howto_simps)
  moreover have "map TOLOWER ''r_fusion_li'' = map TOLOWER ''R_FUSION_LI''"
    by code_simp
  ultimately show ?thesis
    using reloc_lookups [of BFD_RELOC_NONE R_FUSION_LI] by (simp add: R_FUSION_max_def R_FUSION_LI_def)
qed

end
