(* ===== verification/String_Map.thy ===== *)
theory String_Map
  imports Prelude
begin

text \<open>
  The contract of a table of C strings, as the assembler uses it: an insertion that refuses a
  key that is present and a lookup that may reorganise the table but not what it maps. What a
  client does with a whole list of keys is proved here once.
\<close>

text \<open>Insert the pairs of a list in their order and stop at the first key that is refused.\<close>

fun insert_all ::
  "('t \<Rightarrow> string \<Rightarrow> 'a \<Rightarrow> (string option \<times> 't) result) \<Rightarrow> (string \<times> 'a) list \<Rightarrow> 't
     \<Rightarrow> ((string \<times> string) option \<times> 't) result" where
  "insert_all ins [] t = Inr (None, t)"
| "insert_all ins ((k, v) # kvs) t =
     rbind (ins t k v) (\<lambda>(err, t).
     case err of Some e \<Rightarrow> Inr (Some (k, e), t) | None \<Rightarrow> insert_all ins kvs t)"

locale string_map =
  fixes invar :: "'t \<Rightarrow> bool"
    and abs_map :: "'t \<Rightarrow> string \<rightharpoonup> 'a"
    and ins :: "'t \<Rightarrow> string \<Rightarrow> 'a \<Rightarrow> (string option \<times> 't) result"
    and find :: "'t \<Rightarrow> string \<Rightarrow> ('a option \<times> 't) result"
  assumes ins_new: "invar t \<Longrightarrow> NUL \<notin> set k \<Longrightarrow> abs_map t k = None \<Longrightarrow>
      \<exists>t'. ins t k v = Inr (None, t') \<and> invar t' \<and> abs_map t' = (abs_map t)(k \<mapsto> v)"
    and ins_old: "invar t \<Longrightarrow> NUL \<notin> set k \<Longrightarrow> abs_map t k = Some w \<Longrightarrow>
      \<exists>e t'. ins t k v = Inr (Some e, t') \<and> invar t' \<and> abs_map t' = abs_map t"
    and find_abs: "invar t \<Longrightarrow> \<exists>t'. find t k = Inr (abs_map t (c_str k), t') \<and> invar t' \<and> abs_map t' = abs_map t"
begin

lemma insert_all_distinct:
  "invar t \<Longrightarrow> distinct (map fst kvs) \<Longrightarrow> (\<forall>k \<in> set (map fst kvs). abs_map t k = None \<and> NUL \<notin> set k) \<Longrightarrow>
   \<exists>t'. insert_all ins kvs t = Inr (None, t') \<and> invar t' \<and> abs_map t' = abs_map t ++ map_of kvs"
proof (induction kvs arbitrary: t)
  case (Cons kv kvs)
  obtain k v where kv: "kv = (k, v)" by (cases kv)
  with Cons.prems ins_new [of t k v] obtain t1 where
    t1: "ins t k v = Inr (None, t1)" "invar t1" "abs_map t1 = (abs_map t)(k \<mapsto> v)" by auto
  have k: "k \<notin> fst ` set kvs" using Cons.prems(2) kv by simp
  have "\<forall>k' \<in> set (map fst kvs). abs_map t1 k' = None \<and> NUL \<notin> set k'"
    using Cons.prems(3) k t1(3) kv by (auto simp: image_iff)
  from Cons.IH [OF t1(2) _ this] Cons.prems(2) kv obtain t' where
    "insert_all ins kvs t1 = Inr (None, t')" "invar t'" "abs_map t' = abs_map t1 ++ map_of kvs" by auto
  moreover have "abs_map t1 ++ map_of kvs = abs_map t ++ map_of ((k, v) # kvs)"
    using k t1(3) by (auto simp: fun_eq_iff map_add_def map_of_eq_None_iff image_iff
       split: option.splits dest: map_of_SomeD) (metis fst_conv map_of_SomeD)+
  moreover have "insert_all ins (kv # kvs) t = insert_all ins kvs t1"
    using t1(1) kv by simp
  ultimately show ?case unfolding kv by metis
qed simp

lemma find_after_insert:
  assumes "invar t" "NUL \<notin> set k" "abs_map t k = None"
  shows "\<exists>t1 t2. ins t k v = Inr (None, t1) \<and> find t1 k = Inr (Some v, t2)"
proof -
  obtain t1 where t1: "ins t k v = Inr (None, t1)" "invar t1" "abs_map t1 = (abs_map t)(k \<mapsto> v)"
    using ins_new [OF assms] by blast
  with find_abs [OF t1(2), of k] assms(2) show ?thesis by (auto simp: c_str_id)
qed

lemma find_twice:
  assumes "invar t"
  shows "rbind (find t k) (\<lambda>(r, t'). rbind (find t' k') (\<lambda>(r', t''). Inr (r, r'))) =
    Inr (abs_map t (c_str k), abs_map t (c_str k'))"
proof -
  obtain t1 where t1: "find t k = Inr (abs_map t (c_str k), t1)" "invar t1" "abs_map t1 = abs_map t"
    using find_abs [OF assms] by blast
  with find_abs [OF t1(2), of k'] show ?thesis by auto
qed

end

end
