(* ===== verification/Gas_Hash.thy ===== *)
theory Gas_Hash
  imports String_Map
begin

text \<open>
  The hash tables of the assembler, \<^verbatim>\<open>gas/hash.c\<close>: chains of entries that a lookup
  reorders. A chain is the list of its entries in the order of the \<open>next\<close> pointers, and the entry
  a lookup returns is the first of its chain. An entry is an object of the obstack of its table:
  \<open>he_id\<close> stands for its address, \<open>hc_memory\<close> lists the objects the obstack holds in the order of
  their allocation, and an object that was given back must not be read. The vector of chains
  is the first object of the obstack and is left out of the list. The
  statistics and \<open>hash_die\<close>, which frees a whole table, are not modelled.
\<close>

subsection \<open>Tables\<close>

record 'a hash_entry =
  he_id :: nat
  he_string :: string
  he_hash :: "64 word"
  he_data :: 'a

record 'a hash_control =
  hc_table :: "'a hash_entry list list"
  hc_size :: c_uint
  hc_memory :: "nat list"
  hc_next :: nat

definition gas_hash_table_size :: "64 word" where
  "gas_hash_table_size = 65537"

definition hash_new_sized :: "64 word \<Rightarrow> 'a hash_control" where
  "hash_new_sized sz = \<lparr>hc_table = replicate (unat sz) [], hc_size = ucast sz, hc_memory = [], hc_next = 0\<rparr>"

definition hash_new :: "'a hash_control" where
  "hash_new = hash_new_sized gas_hash_table_size"

subsection \<open>Looking up a string\<close>

text \<open>
  \<open>c = key[n]\<close> converts a (signed) character to \<open>unsigned int\<close>; \<open>c + (c << 17)\<close> is computed
  with 32 bits and added to the hash of 64 bits.
\<close>

definition key_char :: "char \<Rightarrow> c_uint" where
  "key_char ch = scast (of_nat (of_char ch) :: 8 word)"

definition hash_mix :: "64 word \<Rightarrow> 64 word \<Rightarrow> 64 word" where
  "hash_mix hash x = (let hash = hash + x in hash XOR drop_bit 2 hash)"

definition hash_step :: "64 word \<Rightarrow> char \<Rightarrow> 64 word" where
  "hash_step hash ch = (let c = key_char ch in hash_mix hash (ucast (c + push_bit 17 c)))"

definition hash_string :: "string \<Rightarrow> 64 word" where
  "hash_string key =
     (let len = of_nat (length key) in hash_mix (foldl hash_step 0 key) (len + push_bit 17 len))"

text \<open>
  \<open>strncmp (p->string, key, len) == 0 && p->string[len] == 0\<close> for a string \<open>p->string\<close> and the memory
  behind \<open>key\<close>. A NUL among the \<open>len\<close> characters of the key stops the comparison where the string
  ends; then the string is read behind its NUL.
\<close>

fun key_match :: "string \<Rightarrow> string \<Rightarrow> nat \<Rightarrow> bool result" where
  "key_match cs key 0 = Inr (cs = [])"
| "key_match cs [] (Suc len) = Inl Out_of_bounds"
| "key_match [] (k # ks) (Suc len) = (if k = NUL then Inl Out_of_bounds else Inr False)"
| "key_match (c # cs) (k # ks) (Suc len) = (if c = k then key_match cs ks len else Inr False)"

text \<open>
  The search of a chain: the entry found and the entries left, in their order. The entry is
  then put in front.
\<close>

fun chain_search ::
  "nat list \<Rightarrow> 64 word \<Rightarrow> string \<Rightarrow> nat \<Rightarrow> 'a hash_entry list \<Rightarrow> ('a hash_entry \<times> 'a hash_entry list) option result" where
  "chain_search memory hash key len [] = Inr None"
| "chain_search memory hash key len (p # ps) =
     (if he_id p \<notin> set memory then Inl Freed_object
      else
        rbind (if he_hash p = hash then key_match (he_string p) key len else Inr False) (\<lambda>found.
        if found then Inr (Some (p, ps))
        else rbind (chain_search memory hash key len ps) (\<lambda>r. Inr (map_option (\<lambda>(q, qs). (q, p # qs)) r))))"

text \<open>
  \<open>hash_lookup\<close>: whether the entry was found, the chain's index, the hash code and the table
  afterwards. A table of size 0 makes \<open>hash % table->size\<close> divide by zero.
\<close>

definition hash_lookup ::
  "'a hash_control \<Rightarrow> string \<Rightarrow> nat \<Rightarrow> ('a hash_entry option \<times> nat \<times> 64 word \<times> 'a hash_control) result" where
  "hash_lookup t key len =
     rbind (ld key 0 len) (\<lambda>cs.
     if hc_size t = 0 then Inl Division_by_zero
     else
       let hash = hash_string cs; hindex = unat (hash mod ucast (hc_size t)) in
       rbind (rd8 (hc_table t) hindex) (\<lambda>list.
       rbind (chain_search (hc_memory t) hash key len list) (\<lambda>r.
       case r of
         None \<Rightarrow> Inr (None, hindex, hash, t)
       | Some (p, ps) \<Rightarrow>
           Inr (Some p, hindex, hash, t\<lparr>hc_table := (hc_table t)[hindex := p # ps]\<rparr>))))"

subsection \<open>Operations\<close>

text \<open>
  A new entry is allocated and goes to the front of its chain; \<open>set_front\<close> changes the data of the first entry.
\<close>

definition push_entry :: "'a hash_control \<Rightarrow> nat \<Rightarrow> string \<Rightarrow> 64 word \<Rightarrow> 'a \<Rightarrow> 'a hash_control" where
  "push_entry t i key hash val =
     (let p = \<lparr>he_id = hc_next t, he_string = c_str key, he_hash = hash, he_data = val\<rparr> in
      t\<lparr>hc_table := (hc_table t)[i := p # hc_table t ! i], hc_memory := hc_memory t @ [hc_next t], hc_next := hc_next t + 1\<rparr>)"

definition set_front :: "'a hash_control \<Rightarrow> nat \<Rightarrow> 'a \<Rightarrow> 'a hash_control" where
  "set_front t i val =
     t\<lparr>hc_table := (hc_table t)[i := (hd (hc_table t ! i))\<lparr>he_data := val\<rparr> # tl (hc_table t ! i)]\<rparr>"

definition hash_insert :: "'a hash_control \<Rightarrow> string \<Rightarrow> 'a \<Rightarrow> (string option \<times> 'a hash_control) result" where
  "hash_insert t key val =
     rbind (hash_lookup t (key @ [NUL]) (strlen key)) (\<lambda>(p, i, hash, t).
     case p of
       Some _ \<Rightarrow> Inr (Some ''exists'', t)
     | None \<Rightarrow> Inr (None, push_entry t i key hash val))"

definition hash_jam :: "'a hash_control \<Rightarrow> string \<Rightarrow> 'a \<Rightarrow> (string option \<times> 'a hash_control) result" where
  "hash_jam t key val =
     rbind (hash_lookup t (key @ [NUL]) (strlen key)) (\<lambda>(p, i, hash, t).
     case p of
       Some _ \<Rightarrow> Inr (None, set_front t i val)
     | None \<Rightarrow> Inr (None, push_entry t i key hash val))"

definition hash_replace :: "'a hash_control \<Rightarrow> string \<Rightarrow> 'a \<Rightarrow> ('a option \<times> 'a hash_control) result" where
  "hash_replace t key val =
     rbind (hash_lookup t (key @ [NUL]) (strlen key)) (\<lambda>(p, i, hash, t).
     case p of
       None \<Rightarrow> Inr (None, t)
     | Some p \<Rightarrow> Inr (Some (he_data p), set_front t i val))"

definition hash_find :: "'a hash_control \<Rightarrow> string \<Rightarrow> ('a option \<times> 'a hash_control) result" where
  "hash_find t key =
     rbind (hash_lookup t (key @ [NUL]) (strlen key)) (\<lambda>(p, i, hash, t). Inr (map_option he_data p, t))"

text \<open>Here \<open>key\<close> is the memory behind the pointer, which need not hold a NUL.\<close>

definition hash_find_n :: "'a hash_control \<Rightarrow> string \<Rightarrow> nat \<Rightarrow> ('a option \<times> 'a hash_control) result" where
  "hash_find_n t key len =
     rbind (hash_lookup t key len) (\<lambda>(p, i, hash, t). Inr (map_option he_data p, t))"

text \<open>
  \<open>obstack_free\<close> gives back an object and all objects that were allocated after it. The
  chunk that holds the object stays and keeps its contents, so that \<open>hash_delete\<close> can still
  return the data of the entry it has given back.
\<close>

definition obstack_free :: "nat list \<Rightarrow> nat \<Rightarrow> nat list result" where
  "obstack_free memory obj =
     (if obj \<in> set memory then Inr (takeWhile (\<lambda>q. q \<noteq> obj) memory) else Inl Abort)"

definition hash_delete :: "'a hash_control \<Rightarrow> string \<Rightarrow> bool \<Rightarrow> ('a option \<times> 'a hash_control) result" where
  "hash_delete t key freeme =
     rbind (hash_lookup t (key @ [NUL]) (strlen key)) (\<lambda>(p, i, hash, t).
     case p of
       None \<Rightarrow> Inr (None, t)
     | Some p \<Rightarrow>
         if map he_id (take 1 (hc_table t ! i)) \<noteq> [he_id p] then Inl Abort
         else
           let t = t\<lparr>hc_table := (hc_table t)[i := tl (hc_table t ! i)]\<rparr> in
           rbind (if freeme then obstack_free (hc_memory t) (he_id p) else Inr (hc_memory t)) (\<lambda>memory.
           Inr (Some (he_data p), t\<lparr>hc_memory := memory\<rparr>)))"

text \<open>The calls that \<open>hash_traverse\<close> makes, in their order.\<close>

definition hash_traverse :: "'a hash_control \<Rightarrow> (string \<times> 'a) list result" where
  "hash_traverse t =
     rbind (ld (hc_table t) 0 (unat (hc_size t))) (\<lambda>lists.
     if \<forall>p \<in> set (concat lists). he_id p \<in> set (hc_memory t) then
       Inr (map (\<lambda>p. (he_string p, he_data p)) (concat lists))
     else Inl Freed_object)"

subsection \<open>What a table maps\<close>

text \<open>
  The chain of a key, the invariant (every chain holds entries of its own slot with their hash
  codes, no key twice, no entry twice, and every entry is an object of the obstack) and the
  finite map that a table stands for.
\<close>

definition slot :: "'a hash_control \<Rightarrow> string \<Rightarrow> nat" where
  "slot t key = unat (hash_string key mod ucast (hc_size t))"

definition chain_map :: "'a hash_entry list \<Rightarrow> string \<rightharpoonup> 'a" where
  "chain_map ps = map_of (map (\<lambda>p. (he_string p, he_data p)) ps)"

definition hash_abs :: "'a hash_control \<Rightarrow> string \<rightharpoonup> 'a" where
  "hash_abs t key = chain_map (hc_table t ! slot t key) key"

definition chain_ok :: "'a hash_control \<Rightarrow> nat \<Rightarrow> 'a hash_entry list \<Rightarrow> bool" where
  "chain_ok t i ps \<longleftrightarrow> distinct (map he_string ps) \<and>
     (\<forall>p \<in> set ps. he_hash p = hash_string (he_string p) \<and> slot t (he_string p) = i \<and> NUL \<notin> set (he_string p))"

definition linked :: "'a hash_control \<Rightarrow> 'a hash_entry list" where
  "linked t = concat (hc_table t)"

definition mem_ok :: "nat \<Rightarrow> nat list \<Rightarrow> 'a hash_entry list \<Rightarrow> bool" where
  "mem_ok n memory ps \<longleftrightarrow> distinct (map he_id ps) \<and> he_id ` set ps \<subseteq> set memory \<and>
     sorted_wrt (<) memory \<and> (\<forall>i \<in> set memory. i < n)"

definition hash_ok :: "'a hash_control \<Rightarrow> bool" where
  "hash_ok t \<longleftrightarrow> hc_size t \<noteq> 0 \<and> length (hc_table t) = unat (hc_size t) \<and>
     (\<forall>i < length (hc_table t). chain_ok t i (hc_table t ! i)) \<and> mem_ok (hc_next t) (hc_memory t) (linked t)"

text \<open>No entry that is in the table was allocated after the one of \<open>key\<close>.\<close>

definition newest :: "'a hash_control \<Rightarrow> string \<Rightarrow> bool" where
  "newest t key \<longleftrightarrow> (\<forall>p \<in> set (linked t). he_string p = key \<longrightarrow> (\<forall>q \<in> set (linked t). he_id q \<le> he_id p))"

subsection \<open>Comparing keys and searching chains\<close>

lemma key_match_take:
  "len \<le> length key \<Longrightarrow> NUL \<notin> set (take len key) \<Longrightarrow> key_match cs key len = Inr (cs = take len key)"
  by (induction cs key len rule: key_match.induct) auto

lemma chain_search_ok:
  assumes "len \<le> length buf" "key = take len buf" "NUL \<notin> set key"
    and "\<forall>p \<in> set ps. he_hash p = hash_string (he_string p) \<and> he_id p \<in> set memory"
  obtains "chain_search memory (hash_string key) buf len ps = Inr None" "key \<notin> he_string ` set ps"
  | p qs where "chain_search memory (hash_string key) buf len ps = Inr (Some (p, qs))"
      "mset ps = add_mset p (mset qs)" "he_string p = key"
proof -
  have "chain_search memory (hash_string key) buf len ps = Inr None \<and> key \<notin> he_string ` set ps \<or>
    (\<exists>p qs. chain_search memory (hash_string key) buf len ps = Inr (Some (p, qs)) \<and> mset ps = add_mset p (mset qs) \<and> he_string p = key)"
    using assms(4) by (induction ps) (use assms(1-3) in \<open>auto simp: key_match_take\<close>)
  with that show thesis by blast
qed

lemma chain_search_freed:
  "he_id p \<notin> set memory \<Longrightarrow> chain_search memory hash key len (p # ps) = Inl Freed_object"
  by simp

subsection \<open>The operations on the map\<close>

lemma slot_less: "hc_size t \<noteq> 0 \<Longrightarrow> slot t key < unat (hc_size t)"
proof -
  assume "hc_size t \<noteq> 0"
  then have "unat (ucast (hc_size t) :: 64 word) > 0" by (simp add: unat_ucast_up unat_gt_0)
  then show ?thesis
    by (simp add: slot_def unat_mod unat_ucast_up)
qed

lemma slot_table [simp]:
  "slot (t\<lparr>hc_table := x\<rparr>) = slot t" "slot (t\<lparr>hc_memory := m\<rparr>) = slot t" "slot (t\<lparr>hc_next := n\<rparr>) = slot t"
  by (simp_all add: slot_def fun_eq_iff)

lemma chain_ok_table [simp]:
  "chain_ok (t\<lparr>hc_table := x\<rparr>) = chain_ok t" "chain_ok (t\<lparr>hc_memory := m\<rparr>) = chain_ok t" "chain_ok (t\<lparr>hc_next := n\<rparr>) = chain_ok t"
  by (simp_all add: chain_ok_def fun_eq_iff)

lemma hash_index: "hash_ok t \<Longrightarrow> slot t key < length (hc_table t)"
  using slot_less [of t key] by (simp add: hash_ok_def)

lemma hash_chain_ok: "hash_ok t \<Longrightarrow> chain_ok t (slot t key) (hc_table t ! slot t key)"
  using hash_index [of t key] by (simp add: hash_ok_def)

lemma chain_perm:
  assumes "chain_ok t i ps" "mset qs = mset ps"
  shows "chain_ok t i qs" "chain_map qs = chain_map ps"
proof -
  have st: "set qs = set ps" using assms(2) by (metis set_mset_mset)
  have "distinct (map he_string qs)"
    using assms mset_eq_imp_distinct_iff [of "map he_string qs" "map he_string ps"] by (simp add: chain_ok_def)
  then show ok: "chain_ok t i qs"
    using assms(1) st by (simp add: chain_ok_def)
  show "chain_map qs = chain_map ps"
    unfolding chain_map_def
  proof (subst map_of_inject_set)
    show "set (map (\<lambda>p. (he_string p, he_data p)) qs) = set (map (\<lambda>p. (he_string p, he_data p)) ps)"
      using st by (simp only: set_map)
  qed (use ok assms(1) in \<open>simp_all add: chain_ok_def o_def\<close>)
qed

lemma mem_ok_ids:
  assumes "image_mset he_id (mset ps) = image_mset he_id (mset qs)"
  shows "mem_ok n m ps = mem_ok n m qs"
proof -
  have "mset (map he_id ps) = mset (map he_id qs)" using assms by simp
  then have "distinct (map he_id ps) = distinct (map he_id qs)" "set (map he_id ps) = set (map he_id qs)"
    by (rule mset_eq_imp_distinct_iff, rule mset_eq_setD)
  then show ?thesis by (simp add: mem_ok_def)
qed

text \<open>A chain is exchanged, with what this means for the obstack.\<close>

lemma set_chain:
  assumes "hash_ok t" "i < length (hc_table t)" "chain_ok t i ps"
    and "t' = t\<lparr>hc_table := (hc_table t)[i := ps], hc_memory := m, hc_next := n\<rparr>"
  shows "hash_ok t' = mem_ok n m (linked t')"
    and "hash_abs t' = (\<lambda>k. if slot t k = i then chain_map ps k else hash_abs t k)"
  using assms slot_less [of t]
  by (auto simp: hash_ok_def hash_abs_def linked_def nth_list_update fun_eq_iff)

lemma linked_update:
  assumes "i < length (hc_table t)"
  shows "mset (concat ((hc_table t)[i := ps])) + mset (hc_table t ! i) = mset ps + mset (linked t)"
  using mset_concat_update [OF assms] by (simp add: linked_def)

lemma set_chain_same:
  assumes "hash_ok t" "i < length (hc_table t)" "chain_ok t i ps"
    and "image_mset he_id (mset ps) = image_mset he_id (mset (hc_table t ! i))"
    and "t' = t\<lparr>hc_table := (hc_table t)[i := ps]\<rparr>"
  shows "hash_ok t'" "hash_abs t' = (\<lambda>k. if slot t k = i then chain_map ps k else hash_abs t k)"
proof -
  have eq: "t' = t\<lparr>hc_table := (hc_table t)[i := ps], hc_memory := hc_memory t, hc_next := hc_next t\<rparr>" by (simp add: assms(5))
  have "image_mset he_id (mset (linked t')) = image_mset he_id (mset (linked t))"
    using arg_cong [where f = "image_mset he_id", OF linked_update [OF assms(2), of ps]] assms(4,5) by (simp add: linked_def)
  then have "mem_ok (hc_next t) (hc_memory t) (linked t')" using mem_ok_ids assms(1) by (auto simp: hash_ok_def)
  then show "hash_ok t'" using set_chain(1) [OF assms(1-3) eq] by simp
  show "hash_abs t' = (\<lambda>k. if slot t k = i then chain_map ps k else hash_abs t k)" by (rule set_chain(2) [OF assms(1-3) eq])
qed

lemma chain_map_None: "chain_map ps key = None \<longleftrightarrow> key \<notin> he_string ` set ps"
  by (force simp: chain_map_def map_of_eq_None_iff)

lemma chain_map_Cons: "chain_map (p # ps) = (chain_map ps)(he_string p \<mapsto> he_data p)"
  by (simp add: chain_map_def)

text \<open>
  A lookup: the entry is found and moved to the front of its chain, or there is none. The
  entry stands in the chain \<open>p # ps\<close> of a table that is otherwise the old one.
\<close>

definition fronted :: "'a hash_control \<Rightarrow> string \<Rightarrow> 'a hash_entry \<Rightarrow> 'a hash_entry list \<Rightarrow> 'a hash_control \<Rightarrow> bool" where
  "fronted t key p ps t' \<longleftrightarrow> hash_abs t key = Some (he_data p) \<and> he_string p = key \<and>
     t' = t\<lparr>hc_table := (hc_table t)[slot t key := p # ps]\<rparr> \<and> mset (p # ps) = mset (hc_table t ! slot t key) \<and>
     hash_ok t' \<and> hash_abs t' = hash_abs t"

lemma hash_lookup_spec:
  assumes "hash_ok t" "len \<le> length buf" "key = take len buf" "NUL \<notin> set key"
  obtains (found) p ps t' where "hash_lookup t buf len = Inr (Some p, slot t key, hash_string key, t')" "fronted t key p ps t'"
  | (missing) "hash_lookup t buf len = Inr (None, slot t key, hash_string key, t)" "hash_abs t key = None"
proof -
  let ?ch = "hc_table t ! slot t key"
  have i: "slot t key < length (hc_table t)" by (rule hash_index [OF assms(1)])
  have ok: "chain_ok t (slot t key) ?ch" by (rule hash_chain_ok [OF assms(1)])
  have ld: "ld buf 0 len = Inr key" using assms(2,3) by (simp add: ld_def)
  have ne: "hc_size t \<noteq> 0" using assms(1) by (simp add: hash_ok_def)
  have "set ?ch \<subseteq> set (linked t)" using i by (auto simp: linked_def intro: nth_mem)
  moreover have "he_id ` set (linked t) \<subseteq> set (hc_memory t)" using assms(1) by (simp add: hash_ok_def mem_ok_def)
  ultimately have ids: "\<forall>p \<in> set ?ch. he_hash p = hash_string (he_string p) \<and> he_id p \<in> set (hc_memory t)"
    using ok unfolding chain_ok_def by blast
  have look: "hash_lookup t buf len = rbind (chain_search (hc_memory t) (hash_string key) buf len ?ch) (\<lambda>r. case r of
          None \<Rightarrow> Inr (None, slot t key, hash_string key, t)
        | Some (p, ps) \<Rightarrow> Inr (Some p, slot t key, hash_string key, t\<lparr>hc_table := (hc_table t)[slot t key := p # ps]\<rparr>))"
    using i ne unfolding hash_lookup_def ld slot_def Let_def by simp
  from assms(2-4) ids show thesis
  proof (cases rule: chain_search_ok)
    case 1
    then show thesis using look missing by (simp add: hash_abs_def chain_map_None)
  next
    case (2 p ps)
    define t' where "t' = t\<lparr>hc_table := (hc_table t)[slot t key := p # ps]\<rparr>"
    have m: "mset (p # ps) = mset ?ch" using 2(2) by simp
    note perm = chain_perm [OF ok m]
    note same = set_chain_same [OF assms(1) i perm(1) _ t'_def]
    have ids: "image_mset he_id (mset (p # ps)) = image_mset he_id (mset ?ch)" by (simp only: m)
    have "hash_abs t' = hash_abs t" unfolding same(2) [OF ids] perm(2) by (auto simp: hash_abs_def)
    moreover have "hash_abs t key = Some (he_data p)" using fun_cong [OF perm(2), of key] 2(3) by (simp add: hash_abs_def chain_map_Cons)
    ultimately have "fronted t key p ps t'" using same(1) [OF ids] m 2(3) by (simp add: fronted_def) (simp add: t'_def)
    with look 2(1) show thesis by (intro found) (simp_all add: t'_def)
  qed
qed

text \<open>The same for a string with its NUL.\<close>

lemma hash_lookup_str:
  assumes "hash_ok t" "k = c_str key"
  obtains (found) p ps t' where "hash_lookup t (key @ [NUL]) (strlen key) = Inr (Some p, slot t k, hash_string k, t')" "fronted t k p ps t'"
  | (missing) "hash_lookup t (key @ [NUL]) (strlen key) = Inr (None, slot t k, hash_string k, t)" "hash_abs t k = None"
  by (rule hash_lookup_spec [OF assms(1), of "strlen key" "key @ [NUL]" k])
     (use take_strlen [of key] assms(2) in \<open>auto intro: le_trans\<close>)

lemma fronted_facts:
  assumes "hash_ok t" "fronted t key p ps t'"
  shows "chain_ok t (slot t key) (p # ps)" "slot t key < length (hc_table t)" "hash_ok t'" "hash_abs t' = hash_abs t"
    "hc_table t' ! slot t key = p # ps" "slot t' = slot t" "chain_map ps key = None"
    "slot t k = slot t key \<Longrightarrow> k \<noteq> key \<Longrightarrow> chain_map ps k = hash_abs t k"
proof -
  note f = assms(2) [unfolded fronted_def]
  show i: "slot t key < length (hc_table t)" by (rule hash_index [OF assms(1)])
  show ok: "chain_ok t (slot t key) (p # ps)" using f by (auto intro: chain_perm(1) [OF hash_chain_ok [OF assms(1)]])
  show "hash_ok t'" "hash_abs t' = hash_abs t" using f by blast+
  show "hc_table t' ! slot t key = p # ps" "slot t' = slot t" using f i by simp_all
  show "chain_map ps key = None" using ok f by (auto simp: chain_map_None chain_ok_def)
  have "chain_map (p # ps) = chain_map (hc_table t ! slot t key)" using f by (intro chain_perm(2) [OF hash_chain_ok [OF assms(1)]]) simp
  then show "chain_map ps k = hash_abs t k" if "slot t k = slot t key" "k \<noteq> key"
    using that f by (auto simp: hash_abs_def chain_map_Cons fun_eq_iff dest: spec [of _ k])
qed

lemma push_entry_spec:
  assumes "hash_ok t" "k = c_str key" "hash_abs t k = None" "t' = push_entry t (slot t k) key (hash_string k) val"
  shows "hash_ok t' \<and> hash_abs t' = (hash_abs t)(k \<mapsto> val)"
proof -
  let ?ps = "hc_table t ! slot t k"
  let ?p = "\<lparr>he_id = hc_next t, he_string = k, he_hash = hash_string k, he_data = val\<rparr>"
  have i: "slot t k < length (hc_table t)" by (rule hash_index [OF assms(1)])
  have "k \<notin> he_string ` set ?ps" using assms(3) by (simp add: hash_abs_def chain_map_None)
  then have ok: "chain_ok t (slot t k) (?p # ?ps)" using hash_chain_ok [OF assms(1), of k] assms(2) by (simp add: chain_ok_def)
  have t': "t' = t\<lparr>hc_table := (hc_table t)[slot t k := ?p # ?ps], hc_memory := hc_memory t @ [hc_next t], hc_next := hc_next t + 1\<rparr>"
    by (simp add: assms(2,4) push_entry_def Let_def)
  have "mset (linked t') = mset (?p # linked t)"
    using linked_update [OF i, of "?p # ?ps"] by (simp add: t' linked_def)
  then have "mem_ok (hc_next t + 1) (hc_memory t @ [hc_next t]) (linked t') =
      mem_ok (hc_next t + 1) (hc_memory t @ [hc_next t]) (?p # linked t)" by (intro mem_ok_ids) simp
  moreover have "mem_ok (hc_next t + 1) (hc_memory t @ [hc_next t]) (?p # linked t)"
    using assms(1) by (auto simp: hash_ok_def mem_ok_def sorted_wrt_append less_Suc_eq)
  ultimately show ?thesis
    using set_chain [OF assms(1) i ok t'] by (auto simp: chain_map_Cons hash_abs_def fun_eq_iff)
qed

lemma set_front_spec:
  assumes "hash_ok t" "fronted t key p ps t'"
  shows "hash_ok (set_front t' (slot t key) val) \<and> hash_abs (set_front t' (slot t key) val) = (hash_abs t)(key \<mapsto> val)"
proof -
  note f = fronted_facts [OF assms]
  have i: "slot t key < length (hc_table t')" using assms(2) f(2) by (simp add: fronted_def)
  have "chain_ok t' (slot t key) (p\<lparr>he_data := val\<rparr> # ps)" using f(1) assms(2) by (simp add: chain_ok_def fronted_def)
  note set = set_chain_same [OF f(3) i this, of "set_front t' (slot t key) val"]
  have "he_string p = key" using assms(2) by (simp add: fronted_def)
  with set f(4-8) show ?thesis by (auto simp: set_front_def chain_map_Cons fun_eq_iff)
qed

lemma hash_insert_spec:
  assumes "hash_ok t" "k = c_str key"
  shows "\<exists>t'. hash_insert t key val = Inr (if hash_abs t k = None then None else Some ''exists'', t') \<and> hash_ok t' \<and>
     hash_abs t' = (if hash_abs t k = None then (hash_abs t)(k \<mapsto> val) else hash_abs t)"
  using assms
proof (cases rule: hash_lookup_str)
  case missing
  then show ?thesis using push_entry_spec [OF assms missing(2) refl] by (simp add: hash_insert_def)
qed (auto simp: hash_insert_def fronted_def)

lemma hash_jam_spec:
  assumes "hash_ok t" "k = c_str key"
  shows "\<exists>t'. hash_jam t key val = Inr (None, t') \<and> hash_ok t' \<and> hash_abs t' = (hash_abs t)(k \<mapsto> val)"
  using assms
proof (cases rule: hash_lookup_str)
  case missing
  then show ?thesis using push_entry_spec [OF assms missing(2) refl] by (simp add: hash_jam_def)
next
  case (found p ps t')
  then show ?thesis using set_front_spec [OF assms(1) found(2)] by (simp add: hash_jam_def)
qed

lemma hash_replace_spec:
  assumes "hash_ok t" "k = c_str key"
  shows "\<exists>t'. hash_replace t key val = Inr (hash_abs t k, t') \<and> hash_ok t' \<and>
     hash_abs t' = (if hash_abs t k = None then hash_abs t else (hash_abs t)(k \<mapsto> val))"
  using assms
proof (cases rule: hash_lookup_str)
  case missing
  then show ?thesis using assms by (simp add: hash_replace_def)
next
  case (found p ps t')
  then show ?thesis using set_front_spec [OF assms(1) found(2)] by (simp add: hash_replace_def fronted_def)
qed

lemma hash_find_spec:
  assumes "hash_ok t" "k = c_str key"
  shows "\<exists>t'. hash_find t key = Inr (hash_abs t k, t') \<and> hash_ok t' \<and> hash_abs t' = hash_abs t"
  using assms
  by (cases rule: hash_lookup_str) (use assms in \<open>auto simp: hash_find_def fronted_def\<close>)

lemma hash_find_n_spec:
  assumes "hash_ok t" "len \<le> length buf" "k = take len buf" "NUL \<notin> set k"
  shows "\<exists>t'. hash_find_n t buf len = Inr (hash_abs t k, t') \<and> hash_ok t' \<and> hash_abs t' = hash_abs t"
  using assms
  by (cases rule: hash_lookup_spec) (use assms(1) in \<open>auto simp: hash_find_n_def fronted_def\<close>)

lemma hash_find_n_beyond: "length buf < len \<Longrightarrow> hash_find_n t buf len = Inl Out_of_bounds"
  by (simp add: hash_find_n_def hash_lookup_def ld_def)

text \<open>What \<open>obstack_free\<close> leaves of an obstack is what was allocated before.\<close>

lemma takeWhile_before: "sorted_wrt (<) ns \<Longrightarrow> n \<in> set ns \<Longrightarrow> takeWhile (\<lambda>q. q \<noteq> n) ns = filter (\<lambda>q. q < (n :: nat)) ns"
  by (induction ns) (auto intro!: filter_False [symmetric])

lemma mem_ok_free:
  assumes "mem_ok n memory (p # ps)"
  shows "mem_ok n (takeWhile (\<lambda>q. q \<noteq> he_id p) memory) ps \<longleftrightarrow> (\<forall>q \<in> set ps. he_id q \<le> he_id p)" "mem_ok n memory ps"
    "he_id p \<in> set memory"
proof -
  have m: "he_id p \<in> set memory" "sorted_wrt (<) memory" "he_id ` set ps \<subseteq> set memory" "he_id p \<notin> he_id ` set ps"
    "distinct (map he_id ps)" "\<forall>i \<in> set memory. i < n" using assms by (simp_all add: mem_ok_def)
  show "mem_ok n memory ps" "he_id p \<in> set memory" using m by (simp_all add: mem_ok_def)
  have "mem_ok n (filter (\<lambda>q. q < he_id p) memory) ps \<longleftrightarrow> (\<forall>q \<in> set ps. he_id q < he_id p)"
    using m(3,5,6) sorted_wrt_filter [OF m(2), of "\<lambda>q. q < he_id p"] by (auto simp: mem_ok_def)
  also have "\<dots> \<longleftrightarrow> (\<forall>q \<in> set ps. he_id q \<le> he_id p)"
  proof
    assume "\<forall>q \<in> set ps. he_id q \<le> he_id p"
    then show "\<forall>q \<in> set ps. he_id q < he_id p" using m(4) by (metis image_eqI order_le_less)
  qed (simp add: less_imp_le)
  finally show "mem_ok n (takeWhile (\<lambda>q. q \<noteq> he_id p) memory) ps \<longleftrightarrow> (\<forall>q \<in> set ps. he_id q \<le> he_id p)"
    by (simp add: takeWhile_before [OF m(2,1)])
qed

lemma linked_chain: "hash_ok t \<Longrightarrow> p \<in> set (linked t) \<Longrightarrow> p \<in> set (hc_table t ! slot t (he_string p))"
proof -
  assume t: "hash_ok t" and "p \<in> set (linked t)"
  then obtain i where i: "i < length (hc_table t)" "p \<in> set (hc_table t ! i)" by (metis UN_iff in_set_conv_nth linked_def set_concat)
  moreover have "slot t (he_string p) = i" using t i by (simp add: hash_ok_def chain_ok_def)
  ultimately show ?thesis by simp
qed

lemma linked_unique: "hash_ok t \<Longrightarrow> p \<in> set (linked t) \<Longrightarrow> q \<in> set (linked t) \<Longrightarrow> he_string p = he_string q \<Longrightarrow> p = q"
proof -
  assume t: "hash_ok t" and p: "p \<in> set (linked t)" and q: "q \<in> set (linked t)" and eq: "he_string p = he_string q"
  have "inj_on he_string (set (hc_table t ! slot t (he_string q)))"
    using hash_chain_ok [OF t, of "he_string q"] by (simp add: chain_ok_def distinct_map)
  then show ?thesis using linked_chain [OF t p] linked_chain [OF t q] eq by (metis inj_onD)
qed

text \<open>The chain of a key without its entry, and the obstack with or without it.\<close>

lemma unlink_spec:
  assumes "hash_ok t" "fronted t k p ps t'"
    and "t1 = t\<lparr>hc_table := (hc_table t)[slot t k := ps], hc_memory := m, hc_next := hc_next t\<rparr>"
  shows "hash_abs t1 = (hash_abs t)(k := None)" "mem_ok (hc_next t) (hc_memory t) (p # linked t1)"
    "hash_ok t1 = mem_ok (hc_next t) m (linked t1)" "newest t k \<longleftrightarrow> (\<forall>q \<in> set (linked t1). he_id q \<le> he_id p)"
proof -
  note f = fronted_facts [OF assms(1,2)]
  have p: "he_string p = k" "mset (p # ps) = mset (hc_table t ! slot t k)" using assms(2) by (simp_all add: fronted_def)
  have ok: "chain_ok t (slot t k) ps" using f(1) by (simp add: chain_ok_def)
  note set = set_chain [OF assms(1) f(2) ok assms(3)]
  show "hash_ok t1 = mem_ok (hc_next t) m (linked t1)" by (rule set(1))
  show "hash_abs t1 = (hash_abs t)(k := None)" using set(2) f(7,8) by (auto simp: fun_eq_iff)
  have "mset (linked t1) + mset (p # ps) = mset ps + mset (linked t)"
    using linked_update [OF f(2), of ps] unfolding p(2) assms(3) by (simp add: linked_def)
  then have "mset ps + mset (p # linked t1) = mset ps + mset (linked t)"
    by (simp only: mset.simps union_mset_add_mset_left union_mset_add_mset_right add.commute [of "mset (linked t1)"])
  then have all: "mset (p # linked t1) = mset (linked t)" by (rule add_left_imp_eq)
  have "mem_ok (hc_next t) (hc_memory t) (p # linked t1) = mem_ok (hc_next t) (hc_memory t) (linked t)"
    by (rule mem_ok_ids) (simp only: all)
  then show mem: "mem_ok (hc_next t) (hc_memory t) (p # linked t1)" using assms(1) by (simp add: hash_ok_def)
  have sets: "set (linked t) = insert p (set (linked t1))" using mset_eq_setD [OF all] by simp
  have "q = p" if "q \<in> set (linked t)" "he_string q = k" for q
    by (rule linked_unique [OF assms(1)]) (use that sets p(1) in simp_all)
  moreover have "p \<in> set (linked t)" by (simp add: sets)
  ultimately have "newest t k \<longleftrightarrow> (\<forall>q \<in> set (linked t). he_id q \<le> he_id p)" using p(1) unfolding newest_def by metis
  then show "newest t k \<longleftrightarrow> (\<forall>q \<in> set (linked t1). he_id q \<le> he_id p)" by (simp add: sets)
qed

lemma hash_delete_spec:
  assumes "hash_ok t" "k = c_str key"
  shows "\<exists>t'. hash_delete t key freeme = Inr (hash_abs t k, t') \<and> hash_abs t' = (hash_abs t)(k := None) \<and>
    (hash_ok t' \<longleftrightarrow> \<not> freeme \<or> newest t k)"
  using assms
proof (cases rule: hash_lookup_str)
  case missing
  have "newest t k" using linked_chain [OF assms(1)] missing(2) by (auto simp: newest_def hash_abs_def chain_map_None)
  then show ?thesis using assms missing by (simp add: hash_delete_def fun_upd_idem)
next
  case (found p ps t')
  note f = fronted_facts [OF assms(1) found(2)]
  define m where "m = (if freeme then takeWhile (\<lambda>q. q \<noteq> he_id p) (hc_memory t) else hc_memory t)"
  define t1 where "t1 = t\<lparr>hc_table := (hc_table t)[slot t k := ps], hc_memory := m, hc_next := hc_next t\<rparr>"
  note un = unlink_spec [OF assms(1) found(2) t1_def]
  note free = mem_ok_free [OF un(2)]
  have "hash_ok t1 \<longleftrightarrow> \<not> freeme \<or> newest t k" unfolding un(3,4) using free(1,2) by (simp add: m_def)
  moreover have "hash_delete t key freeme = Inr (hash_abs t k, t1)"
    using found f(2) free(3) by (simp add: hash_delete_def t1_def m_def obstack_free_def fronted_def)
  ultimately show ?thesis using un(1) by blast
qed

lemma hash_new_sized_ok:
  assumes "sz \<noteq> 0" "unat sz < 2 ^ 32" "t = hash_new_sized sz"
  shows "hash_ok t \<and> hash_abs t = Map.empty"
proof -
  have u: "unat (ucast sz :: c_uint) = unat sz"
    using assms(2) by (simp add: unsigned_ucast_eq take_bit_word_eq_self take_bit_nat_eq_self)
  then have z: "(ucast sz :: c_uint) \<noteq> 0" using assms(1) by (metis unat_eq_0)
  then have "slot t k < unat sz" for k
    using slot_less [of t k] u by (simp add: assms(3) hash_new_sized_def)
  then have "hash_abs t k = None" for k
    by (simp add: hash_abs_def chain_map_def) (simp add: assms(3) hash_new_sized_def)
  with u z show ?thesis
    by (auto simp: assms(3) hash_new_sized_def hash_ok_def chain_ok_def mem_ok_def linked_def fun_eq_iff)
qed

lemma hash_traverse_spec:
  assumes "hash_ok t"
  shows "\<exists>kvs. hash_traverse t = Inr kvs \<and> distinct (map fst kvs) \<and> map_of kvs = hash_abs t"
proof -
  let ?f = "\<lambda>p. (he_string p, he_data p)"
  let ?kvs = "map ?f (concat (hc_table t))"
  have len: "length (hc_table t) = unat (hc_size t)" using assms by (simp add: hash_ok_def)
  have ok: "chain_ok t i (hc_table t ! i)" if "i < length (hc_table t)" for i
    using assms that by (simp add: hash_ok_def)
  have live: "\<forall>p \<in> set (concat (hc_table t)). he_id p \<in> set (hc_memory t)"
    using assms by (auto simp: hash_ok_def mem_ok_def linked_def)
  have "distinct (concat (map (map he_string) (hc_table t)))"
  proof (rule distinct_concat_nth)
    fix i assume "i < length (map (map he_string) (hc_table t))"
    then show "distinct (map (map he_string) (hc_table t) ! i)" using ok [of i] by (simp add: chain_ok_def)
  next
    fix i j assume ij: "i < length (map (map he_string) (hc_table t))" "j < length (map (map he_string) (hc_table t))" "i \<noteq> j"
    with ok [of i] ok [of j] show "set (map (map he_string) (hc_table t) ! i) \<inter> set (map (map he_string) (hc_table t) ! j) = {}"
      by (auto simp: chain_ok_def)
  qed
  then have d: "distinct (map fst ?kvs)" by (simp add: map_concat o_def)
  moreover have "map_of ?kvs key = hash_abs t key" for key
  proof (cases "hash_abs t key")
    case None
    have "key \<notin> he_string ` set (concat (hc_table t))"
    proof
      assume "key \<in> he_string ` set (concat (hc_table t))"
      then obtain ps p where "ps \<in> set (hc_table t)" "p \<in> set ps" "he_string p = key" by auto
      then obtain i where "i < length (hc_table t)" "p \<in> set (hc_table t ! i)" "he_string p = key"
        by (auto simp: in_set_conv_nth [of ps])
      with ok [of i] None show False by (auto simp: hash_abs_def chain_map_None chain_ok_def)
    qed
    with None show ?thesis by (force simp: map_of_eq_None_iff)
  next
    case (Some v)
    then have "(key, v) \<in> set (map ?f (hc_table t ! slot t key))"
      unfolding hash_abs_def chain_map_def by (rule map_of_SomeD)
    then have "(key, v) \<in> set ?kvs" using hash_index [OF assms, of key] by fastforce
    then show ?thesis using Some d by (simp add: map_of_is_SomeI)
  qed
  ultimately show ?thesis
    using len live by (auto simp: hash_traverse_def ld_def fun_eq_iff)
qed

interpretation gh: string_map hash_ok hash_abs hash_insert hash_find
proof unfold_locales
  fix t :: "'a hash_control" and k v w
  assume t: "hash_ok t"
  show "\<exists>t'. hash_find t k = Inr (hash_abs t (c_str k), t') \<and> hash_ok t' \<and> hash_abs t' = hash_abs t"
    by (rule hash_find_spec [OF t refl])
  assume "NUL \<notin> set k"
  then have ins: "\<exists>t'. hash_insert t k v = Inr (if hash_abs t k = None then None else Some ''exists'', t') \<and> hash_ok t' \<and>
     hash_abs t' = (if hash_abs t k = None then (hash_abs t)(k \<mapsto> v) else hash_abs t)"
    using hash_insert_spec [OF t, of k k v] by (simp add: c_str_id)
  show "hash_abs t k = None \<Longrightarrow>
      \<exists>t'. hash_insert t k v = Inr (None, t') \<and> hash_ok t' \<and> hash_abs t' = (hash_abs t)(k \<mapsto> v)"
    using ins by simp
  show "hash_abs t k = Some w \<Longrightarrow>
      \<exists>e t'. hash_insert t k v = Inr (Some e, t') \<and> hash_ok t' \<and> hash_abs t' = hash_abs t"
    using ins by auto
qed

text \<open>
  C10: a hash table of the assembler is a finite map. On a table that satisfies the invariant,
  with the string \<open>k\<close> behind \<open>key\<close>: an
  insertion refuses a key that is present, \<open>hash_jam\<close> overwrites it, \<open>hash_replace\<close> only changes
  a key that is there and returns the old value, and lookups change nothing, although all of them
  reorder the chains; all these return and keep the invariant. \<open>hash_find_n\<close> looks up the first
  \<open>n\<close> characters of a memory that has them, without a NUL, and runs over the end of a shorter one. A
  deletion returns the value and removes the key; the invariant is kept exactly when
  the entry is not given back or no entry that was allocated later is still in the
  table. Otherwise the table is left with an entry that was given back too.
\<close>

theorem hash_refines_map:
  assumes "hash_ok t" "k = c_str key"
  shows
    "(\<exists>t'. hash_insert t key val = Inr (if hash_abs t k = None then None else Some ''exists'', t') \<and> hash_ok t' \<and>
        hash_abs t' = (if hash_abs t k = None then (hash_abs t)(k \<mapsto> val) else hash_abs t)) \<and>
     (\<exists>t'. hash_jam t key val = Inr (None, t') \<and> hash_ok t' \<and> hash_abs t' = (hash_abs t)(k \<mapsto> val)) \<and>
     (\<exists>t'. hash_replace t key val = Inr (hash_abs t k, t') \<and> hash_ok t' \<and>
        hash_abs t' = (if hash_abs t k = None then hash_abs t else (hash_abs t)(k \<mapsto> val))) \<and>
     (\<exists>t'. hash_find t key = Inr (hash_abs t k, t') \<and> hash_ok t' \<and> hash_abs t' = hash_abs t) \<and>
     (n \<le> length key \<and> NUL \<notin> set (take n key) \<longrightarrow>
        (\<exists>t'. hash_find_n t key n = Inr (hash_abs t (take n key), t') \<and> hash_ok t' \<and> hash_abs t' = hash_abs t)) \<and>
     (length key < n \<longrightarrow> hash_find_n t key n = Inl Out_of_bounds) \<and>
     (\<exists>t'. hash_delete t key freeme = Inr (hash_abs t k, t') \<and> hash_abs t' = (hash_abs t)(k := None) \<and>
        (hash_ok t' \<longleftrightarrow> \<not> freeme \<or> newest t k)) \<and>
     (\<exists>kvs. hash_traverse t = Inr kvs \<and> distinct (map fst kvs) \<and> map_of kvs = hash_abs t)"
  using hash_insert_spec [OF assms] hash_jam_spec [OF assms] hash_replace_spec [OF assms]
    hash_find_spec [OF assms] hash_find_n_spec [OF assms(1)] hash_find_n_beyond [of key n t] hash_delete_spec [OF assms]
    hash_traverse_spec [OF assms(1)]
  by simp

theorem hash_refines_map_witness:
  "\<exists>t'. hash_jam (hash_new :: nat hash_control) ''add'' 1 = Inr (None, t') \<and> hash_abs t' = [''add'' \<mapsto> 1]"
proof -
  let ?t = "hash_new :: nat hash_control"
  have "hash_ok ?t \<and> hash_abs ?t = Map.empty"
    by (rule hash_new_sized_ok [of gas_hash_table_size]) (simp_all add: hash_new_def gas_hash_table_size_def)
  moreover have "''add'' = c_str ''add''" by (simp add: c_str_def NUL_def)
  ultimately show ?thesis using hash_refines_map [of ?t "''add''" "''add''" 1] by auto
qed

end
