(* ===== verification/Opcode_Table.thy ===== *)
theory Opcode_Table
  imports Fusion_ISA
begin

text \<open>
  The register names and instruction tables of \<^verbatim>\<open>opcodes/fusion-opc.c\<close>. A table is a list of
  the records of its initialiser, followed by the all-zero records with which C fills the
  rest of the array; a null name is \<open>None\<close>. The disassembler indexes the tables of the
  formats with a field of the instruction word, the assembler searches \<open>fusion_insn_all\<close>
  by name.
\<close>

subsection \<open>Register names\<close>

definition fusion_gpreg_name :: "string list" where
  "fusion_gpreg_name = [
    ''zero'', ''sp'', ''fp'', ''gp'', ''ra'', ''arg0'', ''arg1'', ''arg2'', ''arg3'',
    ''rval0'', ''rval1'', ''gr0'', ''gr1'', ''gr2'', ''gr3'', ''gr4'', ''gr5'', ''gr6'',
    ''gr7'', ''gr8'', ''gr9'', ''gr10'', ''tmp0'', ''tmp1'', ''tmp2'', ''tmp3'', ''tmp4'',
    ''tmp5'', ''tmp6'', ''tmp7'', ''hi0'', ''low0'']"

definition fusion_gpreg_num :: "string list" where
  "fusion_gpreg_num = [
    ''R0'', ''R1'', ''R2'', ''R3'', ''R4'', ''R5'', ''R6'', ''R7'', ''R8'', ''R9'', ''R10'',
    ''R11'', ''R12'', ''R13'', ''R14'', ''R15'', ''R16'', ''R17'', ''R18'', ''R19'', ''R20'',
    ''R21'', ''R22'', ''R23'', ''R24'', ''R25'', ''R26'', ''R27'', ''R28'', ''R29'', ''R30'',
    ''R31'']"

definition fusion_spreg_name :: "string list" where
  "fusion_spreg_name = [
    ''CPUREV'', ''CPNUM'', ''CPO0'', ''n/a'', ''CPO0'', ''n/a'', ''CPO1'', ''n/a'', ''CPO3'',
    ''n/a'', ''STAT'', ''n/a'', ''OPCAR'']"

subsection \<open>Instruction records\<close>

record fusion_opc_info_t =
  opc_name :: "string option"
  opc_index :: insn_t
  opc_args :: c_uint
  opc_frmt :: c_uint
  opc_cpid :: c_uint
  opc_imm_mask :: insn_t
  opc_opc :: insn_t

definition opc_info ::
  "string \<Rightarrow> insn_t \<Rightarrow> c_uint \<Rightarrow> c_uint \<Rightarrow> c_uint \<Rightarrow> insn_t \<Rightarrow> insn_t \<Rightarrow> fusion_opc_info_t" where
  "opc_info nm idx a f c m opc = \<lparr>opc_name = Some nm, opc_index = idx, opc_args = a, opc_frmt = f,
     opc_cpid = c, opc_imm_mask = m, opc_opc = opc\<rparr>"

definition opc_info_zero :: fusion_opc_info_t where
  "opc_info_zero = \<lparr>opc_name = None, opc_index = 0, opc_args = 0, opc_frmt = 0, opc_cpid = 0,
     opc_imm_mask = 0, opc_opc = 0\<rparr>"

text \<open>The identifiers of the macro instructions.\<close>

definition M_LA :: insn_t where "M_LA = 0"
definition M_CALL :: insn_t where "M_CALL = 1"
definition M_RET :: insn_t where "M_RET = 2"
definition M_MAX :: insn_t where "M_MAX = 3"

subsection \<open>Instruction tables\<close>

definition fusion_insn_R :: "fusion_opc_info_t list" where
  "fusion_insn_R =
    [opc_info ''add'' 0x00 USE_RDAB FRMT_R CPID_MAIN MASK_NO_IMM OPC_INT,
     opc_info ''sub'' 0x01 USE_RDAB FRMT_R CPID_MAIN MASK_NO_IMM OPC_INT,
     opc_info ''addu'' 0x02 USE_RDAB FRMT_R CPID_MAIN MASK_NO_IMM OPC_INT,
     opc_info ''subu'' 0x03 USE_RDAB FRMT_R CPID_MAIN MASK_NO_IMM OPC_INT,
     opc_info ''not'' 0x04 USE_RDAB FRMT_R CPID_MAIN MASK_NO_IMM OPC_INT,
     opc_info ''and'' 0x05 USE_RDAB FRMT_R CPID_MAIN MASK_NO_IMM OPC_INT,
     opc_info ''or'' 0x06 USE_RDAB FRMT_R CPID_MAIN MASK_NO_IMM OPC_INT,
     opc_info ''xor'' 0x07 USE_RDAB FRMT_R CPID_MAIN MASK_NO_IMM OPC_INT,
     opc_info ''sal'' 0x08 USE_RDAB FRMT_R CPID_MAIN MASK_NO_IMM OPC_INT,
     opc_info ''sar'' 0x09 USE_RDAB FRMT_R CPID_MAIN MASK_NO_IMM OPC_INT,
     opc_info ''sll'' 0x0a USE_RDAB FRMT_R CPID_MAIN MASK_NO_IMM OPC_INT,
     opc_info ''slr'' 0x0b USE_RDAB FRMT_R CPID_MAIN MASK_NO_IMM OPC_INT,
     opc_info ''comp'' 0x0c USE_RDAB FRMT_R CPID_MAIN MASK_NO_IMM OPC_INT,
     opc_info ''nri'' 0x0d USE_NONE FRMT_R CPID_MAIN MASK_NO_IMM OPC_INT,
     opc_info ''nri'' 0x0e USE_NONE FRMT_R CPID_MAIN MASK_NO_IMM OPC_INT,
     opc_info ''nri'' 0x0f USE_NONE FRMT_R CPID_MAIN MASK_NO_IMM OPC_INT,
     opc_info ''nop'' 0x10 USE_NONE FRMT_R CPID_MAIN MASK_NO_IMM OPC_INT]"

definition fusion_insn_I :: "fusion_opc_info_t list" where
  "fusion_insn_I =
    [opc_info ''addi'' 0x00 USE_RDAI FRMT_I CPID_MAIN MASK_IMM_I OPC_IMM,
     opc_info ''subi'' 0x01 USE_RDAI FRMT_I CPID_MAIN MASK_IMM_I OPC_IMM,
     opc_info ''addui'' 0x02 USE_RDAI FRMT_I CPID_MAIN MASK_IMM_I OPC_IMM,
     opc_info ''subui'' 0x03 USE_RDAI FRMT_I CPID_MAIN MASK_IMM_I OPC_IMM,
     opc_info ''noti'' 0x04 USE_RDI FRMT_I CPID_MAIN MASK_IMM_I OPC_IMM,
     opc_info ''andi'' 0x05 USE_RDAI FRMT_I CPID_MAIN MASK_IMM_I OPC_IMM,
     opc_info ''ori'' 0x06 USE_RDAI FRMT_I CPID_MAIN MASK_IMM_I OPC_IMM,
     opc_info ''xori'' 0x07 USE_RDAI FRMT_I CPID_MAIN MASK_IMM_I OPC_IMM,
     opc_info ''sali'' 0x08 USE_RDAI FRMT_I CPID_MAIN MASK_IMM_I OPC_IMM,
     opc_info ''sari'' 0x09 USE_RDAI FRMT_I CPID_MAIN MASK_IMM_I OPC_IMM,
     opc_info ''slli'' 0x0a USE_RDAI FRMT_I CPID_MAIN MASK_IMM_I OPC_IMM,
     opc_info ''slri'' 0x0b USE_RDAI FRMT_I CPID_MAIN MASK_IMM_I OPC_IMM,
     opc_info ''compi'' 0x0c USE_RDAI FRMT_I CPID_MAIN MASK_IMM_I OPC_IMM,
     opc_info ''nri'' 0x0d USE_NONE FRMT_I CPID_MAIN MASK_NO_IMM OPC_IMM,
     opc_info ''nri'' 0x0e USE_NONE FRMT_I CPID_MAIN MASK_NO_IMM OPC_IMM,
     opc_info ''nri'' 0x0f USE_NONE FRMT_I CPID_MAIN MASK_NO_IMM OPC_IMM]"

definition fusion_insn_L :: "fusion_opc_info_t list" where
  "fusion_insn_L =
    [opc_info ''lw'' 0x0 USE_RDAI FRMT_L CPID_MAIN MASK_IMM_L OPC_LD,
     opc_info ''lh'' 0x1 USE_RDAI FRMT_L CPID_MAIN MASK_IMM_L OPC_LD,
     opc_info ''lth'' 0x2 USE_RDAI FRMT_L CPID_MAIN MASK_IMM_L OPC_LD,
     opc_info ''lb'' 0x3 USE_RDAI FRMT_L CPID_MAIN MASK_IMM_L OPC_LD]"

definition fusion_insn_LI :: "fusion_opc_info_t list" where
  "fusion_insn_LI =
    [opc_info ''li'' 0x0 USE_RDI FRMT_LI CPID_MAIN MASK_IMM_LI OPC_LI,
     opc_info ''lsi'' 0x1 USE_RDI FRMT_LI CPID_MAIN MASK_IMM_LI OPC_LI,
     opc_info ''lgi'' 0x2 USE_RDI FRMT_LI CPID_MAIN MASK_IMM_LI OPC_LI,
     opc_info ''nri'' 0x3 USE_NONE FRMT_LI CPID_MAIN MASK_NO_IMM OPC_LI,
     opc_info ''lui'' 0x4 USE_RDI FRMT_LI CPID_MAIN MASK_IMM_LI OPC_LI,
     opc_info ''lusi'' 0x5 USE_RDI FRMT_LI CPID_MAIN MASK_IMM_LI OPC_LI,
     opc_info ''lugi'' 0x6 USE_RDI FRMT_LI CPID_MAIN MASK_IMM_LI OPC_LI,
     opc_info ''nri'' 0x7 USE_NONE FRMT_LI CPID_MAIN MASK_NO_IMM OPC_LI,
     opc_info ''lni'' 0x8 USE_RDI FRMT_LI CPID_MAIN MASK_IMM_LI OPC_LI,
     opc_info ''lnsi'' 0x9 USE_RDI FRMT_LI CPID_MAIN MASK_IMM_LI OPC_LI,
     opc_info ''lngi'' 0xa USE_RDI FRMT_LI CPID_MAIN MASK_IMM_LI OPC_LI,
     opc_info ''nri'' 0xb USE_NONE FRMT_LI CPID_MAIN MASK_NO_IMM OPC_LI,
     opc_info ''luni'' 0xc USE_RDI FRMT_LI CPID_MAIN MASK_IMM_LI OPC_LI,
     opc_info ''lunsi'' 0xd USE_RDI FRMT_LI CPID_MAIN MASK_IMM_LI OPC_LI,
     opc_info ''lungi'' 0xe USE_RDI FRMT_LI CPID_MAIN MASK_IMM_LI OPC_LI,
     opc_info ''nri'' 0xf USE_NONE FRMT_LI CPID_MAIN MASK_NO_IMM OPC_LI]
     @ replicate (NUM_INSN_LI - 16) opc_info_zero"

definition fusion_insn_S :: "fusion_opc_info_t list" where
  "fusion_insn_S =
    [opc_info ''sw'' 0x0 USE_RABI FRMT_S CPID_MAIN MASK_IMM_S OPC_ST,
     opc_info ''sh'' 0x1 USE_RABI FRMT_S CPID_MAIN MASK_IMM_S OPC_ST,
     opc_info ''sth'' 0x2 USE_RABI FRMT_S CPID_MAIN MASK_IMM_S OPC_ST,
     opc_info ''sb'' 0x3 USE_RABI FRMT_S CPID_MAIN MASK_IMM_S OPC_ST]"

definition fusion_insn_J :: "fusion_opc_info_t list" where
  "fusion_insn_J =
    [opc_info ''j'' 0x0 USE_I FRMT_J CPID_MAIN MASK_IMM_J OPC_JMP,
     opc_info ''jr'' 0x1 USE_RAI FRMT_J CPID_MAIN MASK_IMM_J OPC_JMP]"

definition fusion_insn_JL :: "fusion_opc_info_t list" where
  "fusion_insn_JL =
    [opc_info ''jal'' 0x0 USE_I FRMT_J CPID_MAIN MASK_IMM_J OPC_JLNK,
     opc_info ''jrl'' 0x1 USE_RAI FRMT_J CPID_MAIN MASK_IMM_J OPC_JLNK]"

definition fusion_insn_B :: "fusion_opc_info_t list" where
  "fusion_insn_B =
    [opc_info ''beq'' 0x0 USE_RABI FRMT_B CPID_MAIN MASK_IMM_B OPC_BRANCH,
     opc_info ''bne'' 0x1 USE_RABI FRMT_B CPID_MAIN MASK_IMM_B OPC_BRANCH,
     opc_info ''bgt'' 0x2 USE_RABI FRMT_B CPID_MAIN MASK_IMM_B OPC_BRANCH,
     opc_info ''blt'' 0x3 USE_RABI FRMT_B CPID_MAIN MASK_IMM_B OPC_BRANCH]"

text \<open>The rows behind \<open>pmd\<close> differ in their index only, which is listed.\<close>

definition fusion_insn_SYS :: "fusion_opc_info_t list" where
  "fusion_insn_SYS =
    [opc_info ''syscall'' 0x00 USE_RDAI FRMT_SYS CPID_MAIN MASK_IMM_SYS OPC_SYS,
     opc_info ''sysret'' 0x01 USE_RDAI FRMT_SYS CPID_MAIN MASK_IMM_SYS OPC_SYS,
     opc_info ''stspr'' 0x02 USE_RDA FRMT_SYS CPID_MAIN MASK_IMM_SYS OPC_SYS,
     opc_info ''ldspr'' 0x03 USE_RDA FRMT_SYS CPID_MAIN MASK_IMM_SYS OPC_SYS,
     opc_info ''sync'' 0x04 USE_NONE FRMT_SYS CPID_MAIN MASK_NO_IMM OPC_SYS,
     opc_info ''pmir'' 0x05 USE_I FRMT_SYS CPID_MAIN MASK_IMM_SYS OPC_SYS,
     opc_info ''pmd'' 0x06 USE_I FRMT_SYS CPID_MAIN MASK_IMM_SYS OPC_SYS]
     @ map (\<lambda>i. opc_info ''nri'' i USE_NONE FRMT_SYS CPID_MAIN MASK_NO_IMM 0x08)
        [0x07, 0x08, 0x09, 0x0a, 0x0b, 0x0c, 0x0d, 0x0e, 0x0f, 0x10, 0x11, 0x12, 0x13, 0x14, 0x15, 0x16,
         0x17, 0x18, 0x19, 0x1a, 0x1b, 0x1c, 0x1d, 0x1e, 0x1f, 0x20, 0x21, 0x22, 0x23, 0x24, 0x25, 0x26,
         0x27, 0x28, 0x29, 0x2a, 0x2b, 0x2c, 0x2d, 0x2e, 0x2f, 0x30, 0x31, 0x32, 0x33, 0x34, 0x35, 0x36,
         0x37, 0x38, 0x39, 0x3a, 0x3b, 0x3c, 0x3d, 0x3e, 0x3f, 0x40, 0x41, 0x42, 0x43, 0x44, 0x45, 0x46,
         0x47, 0x48, 0x49, 0x4a, 0x4b, 0x4c, 0x4d, 0x4e, 0x4f, 0x50, 0x51, 0x52, 0x53, 0x54, 0x55, 0x56,
         0x57, 0x58, 0x59, 0x5a, 0x5b, 0x5c, 0x5d, 0x5e, 0x5f, 0x60, 0x61, 0x62, 0x63, 0x64, 0x65, 0x66,
         0x67, 0x68, 0x69, 0x6a, 0x6b, 0x6c, 0x6d, 0x6e, 0x6f, 0x70, 0x71, 0x72, 0x73, 0x74, 0x75, 0x76,
         0x77, 0x78, 0x79, 0x7a, 0x7b, 0x7c, 0x7d, 0x7e, 0x7f, 0x80, 0x81, 0x82, 0x83, 0x84, 0x85, 0x86,
         0x87, 0x88, 0x89, 0x8a, 0x8b, 0x8c, 0x8d, 0x8e, 0x8f, 0x90, 0x91, 0x92, 0x93, 0x94, 0x95, 0x96,
         0x97, 0x98, 0x99, 0x9a, 0x9b, 0x9c, 0x9d, 0x9e, 0x9f, 0xa0, 0xa1, 0xa2, 0xa3, 0xa4, 0xa5, 0xa6,
         0xa7, 0xa8, 0xa9, 0xaa, 0xab, 0xac, 0xad, 0xae, 0xaf, 0xb0, 0xb1, 0xb2, 0xb3, 0xb4, 0xb5, 0xb6,
         0xb7, 0xb8, 0xb9, 0xba, 0xbb, 0xbc, 0xbd, 0xbe, 0xbf, 0xc0, 0xc1, 0xc2, 0xc3, 0xc4, 0xc5, 0xc6,
         0xc7, 0xc8, 0xc9, 0xca, 0xcb, 0xcc, 0xcd, 0xce, 0xcf, 0xd0, 0xd1, 0xd2, 0xd3, 0xd4, 0xd5, 0xd6,
         0xd7, 0xd8, 0xd9, 0xda, 0xdb, 0xdc, 0xdd, 0xde, 0xdf, 0xe0, 0xe1, 0xe2, 0xe3, 0xe4, 0xe5, 0xe6,
         0xe7, 0xe8, 0xe9, 0xea, 0xeb, 0xec, 0xed, 0xee, 0xef, 0xf0, 0xf1, 0xf2, 0xf3, 0xf4, 0xf5, 0xf6,
         0xf7, 0xf8, 0xf9, 0xfa, 0xfb, 0xfc, 0xfd, 0xfe, 0xff]"

definition fusion_insn_all :: "fusion_opc_info_t list" where
  "fusion_insn_all =
    [opc_info ''nop'' 0x00 USE_NONE FRMT_R CPID_MAIN MASK_NO_IMM 0x00,
     opc_info ''add'' 0x00 USE_RDAB FRMT_R CPID_MAIN MASK_NO_IMM OPC_INT,
     opc_info ''sub'' 0x01 USE_RDAB FRMT_R CPID_MAIN MASK_NO_IMM OPC_INT,
     opc_info ''addu'' 0x02 USE_RDAB FRMT_R CPID_MAIN MASK_NO_IMM OPC_INT,
     opc_info ''subu'' 0x03 USE_RDAB FRMT_R CPID_MAIN MASK_NO_IMM OPC_INT,
     opc_info ''not'' 0x04 USE_RDAB FRMT_R CPID_MAIN MASK_NO_IMM OPC_INT,
     opc_info ''and'' 0x05 USE_RDAB FRMT_R CPID_MAIN MASK_NO_IMM OPC_INT,
     opc_info ''or'' 0x06 USE_RDAB FRMT_R CPID_MAIN MASK_NO_IMM OPC_INT,
     opc_info ''xor'' 0x07 USE_RDAB FRMT_R CPID_MAIN MASK_NO_IMM OPC_INT,
     opc_info ''sal'' 0x08 USE_RDAB FRMT_R CPID_MAIN MASK_NO_IMM OPC_INT,
     opc_info ''sar'' 0x09 USE_RDAB FRMT_R CPID_MAIN MASK_NO_IMM OPC_INT,
     opc_info ''sll'' 0x0a USE_RDAB FRMT_R CPID_MAIN MASK_NO_IMM OPC_INT,
     opc_info ''slr'' 0x0b USE_RDAB FRMT_R CPID_MAIN MASK_NO_IMM OPC_INT,
     opc_info ''comp'' 0x0c USE_RDAB FRMT_R CPID_MAIN MASK_NO_IMM OPC_INT,
     opc_info ''nri'' 0x0d USE_NONE FRMT_R CPID_MAIN MASK_NO_IMM OPC_INT,
     opc_info ''addi'' 0x00 USE_RDAI FRMT_I CPID_MAIN MASK_IMM_I OPC_IMM,
     opc_info ''subi'' 0x01 USE_RDAI FRMT_I CPID_MAIN MASK_IMM_I OPC_IMM,
     opc_info ''addui'' 0x02 USE_RDAI FRMT_I CPID_MAIN MASK_IMM_I OPC_IMM,
     opc_info ''subui'' 0x03 USE_RDAI FRMT_I CPID_MAIN MASK_IMM_I OPC_IMM,
     opc_info ''noti'' 0x04 USE_RDI FRMT_I CPID_MAIN MASK_IMM_I OPC_IMM,
     opc_info ''andi'' 0x05 USE_RDAI FRMT_I CPID_MAIN MASK_IMM_I OPC_IMM,
     opc_info ''ori'' 0x06 USE_RDAI FRMT_I CPID_MAIN MASK_IMM_I OPC_IMM,
     opc_info ''xori'' 0x07 USE_RDAI FRMT_I CPID_MAIN MASK_IMM_I OPC_IMM,
     opc_info ''sali'' 0x08 USE_RDAI FRMT_I CPID_MAIN MASK_IMM_I OPC_IMM,
     opc_info ''sari'' 0x09 USE_RDAI FRMT_I CPID_MAIN MASK_IMM_I OPC_IMM,
     opc_info ''slli'' 0x0a USE_RDAI FRMT_I CPID_MAIN MASK_IMM_I OPC_IMM,
     opc_info ''slri'' 0x0b USE_RDAI FRMT_I CPID_MAIN MASK_IMM_I OPC_IMM,
     opc_info ''compi'' 0x0c USE_RDAI FRMT_I CPID_MAIN MASK_IMM_I OPC_IMM,
     opc_info ''lw'' 0x0 USE_RDAI_O FRMT_L CPID_MAIN MASK_IMM_L OPC_LD,
     opc_info ''lh'' 0x1 USE_RDAI_O FRMT_L CPID_MAIN MASK_IMM_L OPC_LD,
     opc_info ''lth'' 0x2 USE_RDAI_O FRMT_L CPID_MAIN MASK_IMM_L OPC_LD,
     opc_info ''lb'' 0x3 USE_RDAI_O FRMT_L CPID_MAIN MASK_IMM_L OPC_LD,
     opc_info ''li'' 0x0 USE_RDI FRMT_LI CPID_MAIN MASK_IMM_LI OPC_LI,
     opc_info ''lsi'' 0x1 USE_RDI FRMT_LI CPID_MAIN MASK_IMM_LI OPC_LI,
     opc_info ''lgi'' 0x2 USE_RDI FRMT_LI CPID_MAIN MASK_IMM_LI OPC_LI,
     opc_info ''lui'' 0x4 USE_RDI FRMT_LI CPID_MAIN MASK_IMM_LI OPC_LI,
     opc_info ''lusi'' 0x5 USE_RDI FRMT_LI CPID_MAIN MASK_IMM_LI OPC_LI,
     opc_info ''lugi'' 0x6 USE_RDI FRMT_LI CPID_MAIN MASK_IMM_LI OPC_LI,
     opc_info ''lni'' 0x8 USE_RDI FRMT_LI CPID_MAIN MASK_IMM_LI OPC_LI,
     opc_info ''lnsi'' 0x9 USE_RDI FRMT_LI CPID_MAIN MASK_IMM_LI OPC_LI,
     opc_info ''lngi'' 0xa USE_RDI FRMT_LI CPID_MAIN MASK_IMM_LI OPC_LI,
     opc_info ''luni'' 0xc USE_RDI FRMT_LI CPID_MAIN MASK_IMM_LI OPC_LI,
     opc_info ''lunsi'' 0xd USE_RDI FRMT_LI CPID_MAIN MASK_IMM_LI OPC_LI,
     opc_info ''lungi'' 0xe USE_RDI FRMT_LI CPID_MAIN MASK_IMM_LI OPC_LI,
     opc_info ''sw'' 0x0 USE_RABI_O FRMT_S CPID_MAIN MASK_IMM_S OPC_ST,
     opc_info ''sh'' 0x1 USE_RABI_O FRMT_S CPID_MAIN MASK_IMM_S OPC_ST,
     opc_info ''sth'' 0x2 USE_RABI_O FRMT_S CPID_MAIN MASK_IMM_S OPC_ST,
     opc_info ''sb'' 0x3 USE_RABI_O FRMT_S CPID_MAIN MASK_IMM_S OPC_ST,
     opc_info ''j'' 0x0 USE_I FRMT_J CPID_MAIN MASK_IMM_J OPC_JMP,
     opc_info ''jr'' 0x1 USE_RAI_O FRMT_J CPID_MAIN MASK_IMM_J OPC_JMP,
     opc_info ''jal'' 0x0 USE_I FRMT_J CPID_MAIN MASK_IMM_J OPC_JLNK,
     opc_info ''jrl'' 0x1 USE_RAI_O FRMT_J CPID_MAIN MASK_IMM_J OPC_JLNK,
     opc_info ''beq'' 0x0 USE_RABI FRMT_B CPID_MAIN MASK_IMM_B OPC_BRANCH,
     opc_info ''bne'' 0x1 USE_RABI FRMT_B CPID_MAIN MASK_IMM_B OPC_BRANCH,
     opc_info ''bgt'' 0x2 USE_RABI FRMT_B CPID_MAIN MASK_IMM_B OPC_BRANCH,
     opc_info ''blt'' 0x3 USE_RABI FRMT_B CPID_MAIN MASK_IMM_B OPC_BRANCH,
     opc_info ''syscall'' 0x00 USE_RDAI FRMT_SYS CPID_MAIN MASK_IMM_SYS OPC_SYS,
     opc_info ''sysret'' 0x01 USE_RDAI FRMT_SYS CPID_MAIN MASK_IMM_SYS OPC_SYS,
     opc_info ''stspr'' 0x02 USE_RDA FRMT_SYS CPID_MAIN MASK_IMM_SYS OPC_SYS,
     opc_info ''ldspr'' 0x03 USE_RDA FRMT_SYS CPID_MAIN MASK_IMM_SYS OPC_SYS,
     opc_info ''sync'' 0x04 USE_NONE FRMT_SYS CPID_MAIN MASK_NO_IMM OPC_SYS,
     opc_info ''pmir'' 0x05 USE_I FRMT_SYS CPID_MAIN MASK_IMM_SYS OPC_SYS,
     opc_info ''pmd'' 0x06 USE_I FRMT_SYS CPID_MAIN MASK_IMM_SYS OPC_SYS,
     opc_info ''call'' M_CALL USE_RAI_O FRMT_J CPID_MACRO MASK_IMM_J OPC_JLNK,
     opc_info ''la'' M_LA USE_RDI FRMT_LI CPID_MACRO MASK_IMM_LI OPC_LI,
     opc_info ''ret'' M_RET USE_RAI_O FRMT_J CPID_MACRO MASK_IMM_J OPC_JMP,
     opc_info_zero]
     @ replicate (NUM_INSN - 67) opc_info_zero"

subsection \<open>Reference definitions\<close>

text \<open>
  The table of the disassembler for an opcode, with the number of values of the field that
  indexes it; the instructions the assembler knows; and agreement of an instruction with
  the entry the disassembler finds for its index.
\<close>

definition format_tables :: "(insn_t \<times> nat \<times> fusion_opc_info_t list) list" where
  "format_tables = [(OPC_INT, 16, fusion_insn_R), (OPC_IMM, 16, fusion_insn_I),
     (OPC_LD, 4, fusion_insn_L), (OPC_LI, 16, fusion_insn_LI), (OPC_ST, 4, fusion_insn_S),
     (OPC_JMP, 2, fusion_insn_J), (OPC_JLNK, 2, fusion_insn_JL), (OPC_BRANCH, 4, fusion_insn_B),
     (OPC_SYS, 256, fusion_insn_SYS)]"

definition named_insns :: "fusion_opc_info_t list" where
  "named_insns = takeWhile (\<lambda>e. opc_name e \<noteq> None) fusion_insn_all"

definition main_insns :: "fusion_opc_info_t list" where
  "main_insns = filter (\<lambda>e. opc_cpid e = CPID_MAIN) named_insns"

definition dis_entry :: "fusion_opc_info_t \<Rightarrow> fusion_opc_info_t option" where
  "dis_entry e = (case map_of format_tables (opc_opc e) of
       None \<Rightarrow> None
     | Some (n, t) \<Rightarrow> if unat (opc_index e) < n then Some (t ! unat (opc_index e)) else None)"

definition entry_agrees :: "fusion_opc_info_t \<Rightarrow> bool" where
  "entry_agrees e = (case dis_entry e of
       None \<Rightarrow> False
     | Some d \<Rightarrow> opc_name d = opc_name e \<and> opc_frmt d = opc_frmt e \<and> opc_imm_mask d = opc_imm_mask e \<and> opc_opc d = opc_opc e)"

definition entry_args :: "fusion_opc_info_t \<Rightarrow> c_uint" where
  "entry_args e = (case dis_entry e of None \<Rightarrow> 0 | Some d \<Rightarrow> opc_args d)"

section \<open>Properties\<close>

lemmas table_defs =
  fusion_insn_R_def fusion_insn_I_def fusion_insn_L_def fusion_insn_LI_def fusion_insn_S_def
  fusion_insn_J_def fusion_insn_JL_def fusion_insn_B_def opc_info_def

lemma sys_entries:
  "fusion_insn_SYS ! 0 = opc_info ''syscall'' 0x00 USE_RDAI FRMT_SYS CPID_MAIN MASK_IMM_SYS OPC_SYS"
  "fusion_insn_SYS ! Suc 0 = opc_info ''sysret'' 0x01 USE_RDAI FRMT_SYS CPID_MAIN MASK_IMM_SYS OPC_SYS"
  "fusion_insn_SYS ! 2 = opc_info ''stspr'' 0x02 USE_RDA FRMT_SYS CPID_MAIN MASK_IMM_SYS OPC_SYS"
  "fusion_insn_SYS ! 3 = opc_info ''ldspr'' 0x03 USE_RDA FRMT_SYS CPID_MAIN MASK_IMM_SYS OPC_SYS"
  "fusion_insn_SYS ! 4 = opc_info ''sync'' 0x04 USE_NONE FRMT_SYS CPID_MAIN MASK_NO_IMM OPC_SYS"
  "fusion_insn_SYS ! 5 = opc_info ''pmir'' 0x05 USE_I FRMT_SYS CPID_MAIN MASK_IMM_SYS OPC_SYS"
  "fusion_insn_SYS ! 6 = opc_info ''pmd'' 0x06 USE_I FRMT_SYS CPID_MAIN MASK_IMM_SYS OPC_SYS"
  by (simp_all add: fusion_insn_SYS_def nth_append)

lemma table_lengths:
  "length fusion_insn_R = NUM_INSN_R" "length fusion_insn_I = NUM_INSN_I"
  "length fusion_insn_L = NUM_INSN_L" "length fusion_insn_LI = NUM_INSN_LI"
  "length fusion_insn_S = NUM_INSN_S" "length fusion_insn_J = NUM_INSN_J"
  "length fusion_insn_JL = NUM_INSN_JL" "length fusion_insn_B = NUM_INSN_B"
  "length fusion_insn_SYS = NUM_INSN_SYS" "length fusion_insn_all = NUM_INSN"
  by (simp_all add: table_defs fusion_insn_SYS_def fusion_insn_all_def NUM_INSN_def isa_defs)

lemma register_name_lengths [simp]:
  "length fusion_gpreg_name = 32" "length fusion_gpreg_num = 32" "length fusion_spreg_name = 13"
  by (simp_all add: fusion_gpreg_name_def fusion_gpreg_num_def fusion_spreg_name_def)

lemma named_insns_distinct: "distinct (map opc_name named_insns)"
  by (simp add: named_insns_def fusion_insn_all_def opc_info_def opc_info_zero_def)

lemma sys_table_named: "list_all (\<lambda>e. opc_name e \<noteq> None) fusion_insn_SYS"
  unfolding fusion_insn_SYS_def list_all_append list.pred_map comp_def by (simp add: opc_info_def)


end
