(* ===== verification/Gas_State.thy ===== *)
theory Gas_State
  imports Elf_Fusion Gas_Hash Opcode_Table
begin

text \<open>
  The state of the assembler and the routines of its core that the Fusion-Core port calls:
  messages (\<^verbatim>\<open>gas/messages.c\<close>), the input line (\<^verbatim>\<open>gas/read.c\<close>), fragments
  (\<^verbatim>\<open>gas/frags.c\<close>), fixups (\<^verbatim>\<open>gas/write.c\<close>) and symbols made from expressions
  (\<^verbatim>\<open>gas/expr.c\<close>).

  A routine with effects is a function from the state to a fault or a value and the next
  state; \<open>gbind\<close> runs two of them in sequence. The input is one buffer of characters, NUL
  included, and a \<open>char *\<close> into it is an index; reading or writing outside of it is a fault.
\<close>

subsection \<open>Expressions, fragments and fixups\<close>

datatype operatorT =
    O_illegal | O_absent | O_constant | O_symbol | O_symbol_rva | O_register | O_big | O_uminus
  | O_bit_not | O_logical_not | O_multiply | O_divide | O_modulus | O_left_shift | O_right_shift
  | O_bit_inclusive_or | O_bit_or_not | O_bit_exclusive_or | O_bit_and | O_add | O_subtract
  | O_eq | O_ne | O_lt | O_le | O_ge | O_gt | O_logical_and | O_logical_or | O_index
  | O_md nat | O_max

type_synonym offsetT = "64 word"

text \<open>A symbol is its number in the table of symbols; \<open>None\<close> is the null pointer.\<close>

record expressionS =
  X_add_symbol :: "nat option"
  X_op_symbol :: "nat option"
  X_add_number :: offsetT
  X_op :: operatorT

text \<open>The segments: the special ones, the common section and the numbered sections of the output.\<close>

datatype sym_segment =
    absolute_section | reg_section | expr_section | undefined_section | com_section | normal_section nat

record symbolS =
  sy_segment :: sym_segment
  sy_expression :: expressionS

datatype relax_stateT = rs_none | rs_fill | rs_other nat

record fragS =
  fr_address :: bfd_vma
  fr_fix :: nat
  fr_type :: relax_stateT
  fr_offset :: offsetT
  fr_var :: nat
  fr_literal :: bytes

record fixS =
  fx_frag :: "nat option"
  fx_where :: nat
  fx_size :: nat
  fx_addsy :: "nat option"
  fx_subsy :: "nat option"
  fx_offset :: bfd_vma
  fx_pcrel :: bool
  fx_r_type :: bfd_reloc_code
  fx_addnumber :: bfd_vma
  fx_tcbit :: bool
  fx_done :: bool
  fx_no_overflow :: bool
  fx_signed :: bool

text \<open>Messages are recorded with the format they are printed with.\<close>

datatype message = As_bad string | As_warn string

text \<open>
  \<open>gs_frags\<close> are the fragments of the current section, the last one is \<open>frag_now\<close>.
  \<open>gs_rooms\<close> is what the allocator gives: the room left after \<open>frag_now\<close>, followed by the
  room that each new fragment will have. \<open>gs_used\<close> are the symbols marked as
  used in a relocation and \<open>gs_text_align\<close> is the alignment of the text section. The last four
  fields are the static variables of the port: its hash tables, null before \<open>md_begin\<close>,
  \<open>expr_end\<close> and \<open>pending_reloc\<close>.
\<close>

record gas_state =
  gs_buf :: string
  gs_ilp :: nat
  gs_limit :: nat
  gs_msgs :: "message list"
  gs_frags :: "fragS list"
  gs_rooms :: "nat list"
  gs_fixes :: "fixS list"
  gs_symbols :: "symbolS list"
  gs_used :: "nat set"
  gs_text_align :: nat
  op_hash_ctrl :: "fusion_opc_info_t hash_control option"
  reg_names_hash :: "64 word hash_control option"
  expr_end :: nat
  pending_reloc :: bool

type_synonym 'a gas = "gas_state \<Rightarrow> ('a \<times> gas_state) result"

definition gret :: "'a \<Rightarrow> 'a gas" where
  "gret x = (\<lambda>s. Inr (x, s))"

definition gbind :: "'a gas \<Rightarrow> ('a \<Rightarrow> 'b gas) \<Rightarrow> 'b gas" where
  "gbind m f = (\<lambda>s. rbind (m s) (\<lambda>(x, s). f x s))"

definition gfail :: "c_fault \<Rightarrow> 'a gas" where
  "gfail e = (\<lambda>s. Inl e)"

definition glift :: "'a result \<Rightarrow> 'a gas" where
  "glift m = (\<lambda>s. rbind m (\<lambda>x. Inr (x, s)))"

definition as_bad :: "string \<Rightarrow> unit gas" where
  "as_bad msg = (\<lambda>s. Inr ((), s\<lparr>gs_msgs := gs_msgs s @ [As_bad msg]\<rparr>))"

definition as_warn :: "string \<Rightarrow> unit gas" where
  "as_warn msg = (\<lambda>s. Inr ((), s\<lparr>gs_msgs := gs_msgs s @ [As_warn msg]\<rparr>))"

definition gas_assert :: "bool \<Rightarrow> unit gas" where
  "gas_assert b = (if b then gret () else gfail Abort)"

subsection \<open>The input line\<close>

definition peek :: "nat \<Rightarrow> char gas" where
  "peek p = (\<lambda>s. rbind (rd8 (gs_buf s) p) (\<lambda>c. Inr (c, s)))"

definition poke :: "nat \<Rightarrow> char \<Rightarrow> unit gas" where
  "poke p c = (\<lambda>s. if p < length (gs_buf s) then Inr ((), s\<lparr>gs_buf := (gs_buf s)[p := c]\<rparr>)
     else Inl Out_of_bounds)"

text \<open>
  The table \<open>is_end_of_line\<close> after \<open>read_begin\<close>: NUL and newline end a line, and so does the
  separator of the target, a semicolon.
\<close>

definition is_end_of_line :: "char \<Rightarrow> bool" where
  "is_end_of_line c \<longleftrightarrow> c = NUL \<or> c = CHR 0x0A \<or> c = CHR '';''"

text \<open>The index of the first character from \<open>p\<close> on that satisfies \<open>P\<close>; without one the loop leaves the buffer.\<close>

fun scan_from :: "(char \<Rightarrow> bool) \<Rightarrow> string \<Rightarrow> nat \<Rightarrow> nat result" where
  "scan_from P [] p = Inl Out_of_bounds"
| "scan_from P (c # cs) p = (if P c then Inr p else scan_from P cs (Suc p))"

definition scan :: "(char \<Rightarrow> bool) \<Rightarrow> nat \<Rightarrow> nat gas" where
  "scan P p = (\<lambda>s. rbind (scan_from P (drop p (gs_buf s)) p) (\<lambda>q. Inr (q, s)))"

definition skip_blanks :: "nat \<Rightarrow> nat gas" where
  "skip_blanks p = scan (\<lambda>c. c \<noteq> CHR '' '' \<and> c \<noteq> CHR 0x09) p"

text \<open>\<open>ignore_rest_of_line\<close> stops at the end of the buffer or just after an end of line.\<close>

fun line_end :: "string \<Rightarrow> nat \<Rightarrow> nat \<Rightarrow> nat result" where
  "line_end cs limit p =
     (if p < limit then
        (case cs of [] \<Rightarrow> Inl Out_of_bounds
         | c # cs \<Rightarrow> if is_end_of_line c then Inr p else line_end cs limit (Suc p))
      else Inr p)"

declare line_end.simps [simp del]

definition ignore_rest_of_line :: "unit gas" where
  "ignore_rest_of_line = (\<lambda>s.
     rbind (line_end (drop (gs_ilp s) (gs_buf s)) (gs_limit s) (gs_ilp s)) (\<lambda>p.
     Inr ((), s\<lparr>gs_ilp := Suc p\<rparr>)))"

subsection \<open>Fragments\<close>

text \<open>
  \<open>frag_now\<close> is the last fragment. The check for the absolute and the common section in
  \<open>frag_more\<close> is left out: the current section is an ordinary one. Sizes are below
  \<open>2 ^ 63\<close>, where the overflow check of \<open>frag_grow\<close> cannot fail.
\<close>

definition frag_now :: "gas_state \<Rightarrow> nat" where
  "frag_now s = length (gs_frags s) - 1"

definition frag_now_fix_octets :: "gas_state \<Rightarrow> nat" where
  "frag_now_fix_octets s = length (fr_literal (last (gs_frags s)))"

definition upd_frag :: "nat \<Rightarrow> (fragS \<Rightarrow> fragS) \<Rightarrow> gas_state \<Rightarrow> gas_state" where
  "upd_frag i f s = s\<lparr>gs_frags := (gs_frags s)[i := f (gs_frags s ! i)]\<rparr>"

definition frag_wane :: "nat \<Rightarrow> gas_state \<Rightarrow> gas_state" where
  "frag_wane i = upd_frag i (\<lambda>f. f\<lparr>fr_type := rs_fill, fr_offset := 0, fr_var := 0\<rparr>)"

definition empty_frag :: fragS where
  "empty_frag = \<lparr>fr_address = 0, fr_fix = 0, fr_type = rs_none, fr_offset = 0, fr_var = 0, fr_literal = []\<rparr>"

definition frag_new :: "nat \<Rightarrow> gas_state \<Rightarrow> gas_state result" where
  "frag_new old_frags_var_max_size s =
     (if gs_frags s = [] then Inl Null_pointer
      else
        let s = upd_frag (frag_now s) (\<lambda>f. f\<lparr>fr_fix := frag_now_fix_octets s - old_frags_var_max_size\<rparr>) s in
        if fr_type (last (gs_frags s)) = rs_none then Inl Abort
        else Inr (s\<lparr>gs_frags := gs_frags s @ [empty_frag]\<rparr>))"

text \<open>\<open>while (obstack_room < nchars) { frag_wane (frag_now); frag_new (0); }\<close>\<close>

fun frag_grow_loop :: "nat list \<Rightarrow> nat \<Rightarrow> gas_state \<Rightarrow> gas_state result" where
  "frag_grow_loop [] nchars s = Inl No_return"
| "frag_grow_loop (r # rs) nchars s =
     (if r < nchars then rbind (frag_new 0 (frag_wane (frag_now s) s)) (\<lambda>s. frag_grow_loop rs nchars s)
      else Inr (s\<lparr>gs_rooms := r # rs\<rparr>))"

definition frag_grow :: "nat \<Rightarrow> unit gas" where
  "frag_grow nchars = (\<lambda>s. rbind (frag_grow_loop (gs_rooms s) nchars s) (\<lambda>s. Inr ((), s)))"

text \<open>The value is the position of the new bytes in \<open>frag_now\<close>; their contents are not yet set.\<close>

definition frag_more :: "nat \<Rightarrow> nat gas" where
  "frag_more nchars =
     gbind (frag_grow nchars) (\<lambda>_. \<lambda>s.
     if gs_frags s = [] then Inl Null_pointer
     else
       Inr (frag_now_fix_octets s,
         (upd_frag (frag_now s) (\<lambda>f. f\<lparr>fr_literal := fr_literal f @ replicate nchars 0\<rparr>) s)
           \<lparr>gs_rooms := (hd (gs_rooms s) - nchars) # tl (gs_rooms s)\<rparr>))"

text \<open>\<open>number_to_chars_bigendian\<close>: the bytes from the last to the first.\<close>

fun chars_loop :: "bytes \<Rightarrow> nat \<Rightarrow> bfd_vma \<Rightarrow> nat \<Rightarrow> bytes result" where
  "chars_loop p a val 0 = Inr p"
| "chars_loop p a val (Suc n) =
     rbind (wr8 p (a + n) (ucast (val AND 0xff))) (\<lambda>p. chars_loop p a (drop_bit 8 val) n)"

definition number_to_chars_bigendian :: "bytes \<Rightarrow> nat \<Rightarrow> bfd_vma \<Rightarrow> int \<Rightarrow> bytes result" where
  "number_to_chars_bigendian p a val n = (if n \<le> 0 then Inl Abort else chars_loop p a val (nat n))"

subsection \<open>Symbols made from expressions\<close>

definition new_symbol :: "expressionS \<Rightarrow> nat gas" where
  "new_symbol e = (\<lambda>s.
     Inr (length (gs_symbols s),
       s\<lparr>gs_symbols := gs_symbols s @
         [\<lparr>sy_segment = (if X_op e = O_constant then absolute_section
                        else if X_op e = O_register then reg_section else expr_section),
           sy_expression = e\<rparr>]\<rparr>))"

definition make_expr_symbol :: "expressionS \<Rightarrow> nat option gas" where
  "make_expr_symbol e =
     (if X_op e = O_symbol \<and> X_add_number e = 0 then gret (X_add_symbol e)
      else if X_op e = O_big then
        gbind (as_bad (if 0 <s X_add_number e then ''bignum invalid'' else ''floating point number invalid'')) (\<lambda>_.
        gbind (new_symbol \<lparr>X_add_symbol = None, X_op_symbol = None, X_add_number = 0, X_op = O_constant\<rparr>) (\<lambda>n.
        gret (Some n)))
      else gbind (new_symbol e) (\<lambda>n. gret (Some n)))"

subsection \<open>Fixups\<close>

text \<open>
  The value is the position of the fixup in the list of the section. A size that does not
  fit into the field \<open>fx_size\<close> of eight bits stops the assembler.
\<close>

definition fix_new_internal ::
  "nat option \<Rightarrow> nat \<Rightarrow> nat \<Rightarrow> nat option \<Rightarrow> nat option \<Rightarrow> offsetT \<Rightarrow> bool \<Rightarrow> bfd_reloc_code \<Rightarrow> bool
     \<Rightarrow> nat gas" where
  "fix_new_internal frag wh sz add_symbol sub_symbol offset pcrel r_type at_beginning = (\<lambda>s.
     if 256 \<le> sz then Inl Abort
     else
       let fix = \<lparr>fx_frag = frag, fx_where = wh, fx_size = sz, fx_addsy = add_symbol, fx_subsy = sub_symbol,
             fx_offset = offset, fx_pcrel = pcrel, fx_r_type = r_type, fx_addnumber = 0, fx_tcbit = False,
             fx_done = False, fx_no_overflow = False, fx_signed = False\<rparr> in
       if at_beginning then Inr (0, s\<lparr>gs_fixes := fix # gs_fixes s\<rparr>)
       else Inr (length (gs_fixes s), s\<lparr>gs_fixes := gs_fixes s @ [fix]\<rparr>))"

definition fix_new ::
  "nat option \<Rightarrow> nat \<Rightarrow> nat \<Rightarrow> nat option \<Rightarrow> offsetT \<Rightarrow> bool \<Rightarrow> bfd_reloc_code \<Rightarrow> nat gas" where
  "fix_new frag wh sz add_symbol offset pcrel r_type =
     fix_new_internal frag wh sz add_symbol None offset pcrel r_type False"

text \<open>The value is the fixup and the expression, which a sum of two symbols changes.\<close>

definition fix_new_exp ::
  "nat option \<Rightarrow> nat \<Rightarrow> nat \<Rightarrow> expressionS \<Rightarrow> bool \<Rightarrow> bfd_reloc_code \<Rightarrow> (nat \<times> expressionS) gas" where
  "fix_new_exp frag wh sz e pcrel r_type =
     (let fixup = (\<lambda>add sub off r_type.
            gbind (fix_new_internal frag wh sz add sub off pcrel r_type False) (\<lambda>n. gret (n, e))) in
      case X_op e of
        O_absent \<Rightarrow> fixup None None 0 r_type
      | O_register \<Rightarrow>
          gbind (as_bad ''register value used as expression'') (\<lambda>_. fixup None None 0 r_type)
      | O_add \<Rightarrow>
          gbind (make_expr_symbol e) (\<lambda>stmp.
          let e = e\<lparr>X_op := O_symbol, X_op_symbol := None, X_add_symbol := stmp, X_add_number := 0\<rparr> in
          gbind (fix_new_internal frag wh sz stmp None 0 pcrel r_type False) (\<lambda>n. gret (n, e)))
      | O_symbol_rva \<Rightarrow> fixup (X_add_symbol e) None (X_add_number e) BFD_RELOC_RVA
      | O_uminus \<Rightarrow> fixup None (X_add_symbol e) (X_add_number e) r_type
      | O_subtract \<Rightarrow> fixup (X_add_symbol e) (X_op_symbol e) (X_add_number e) r_type
      | O_symbol \<Rightarrow> fixup (X_add_symbol e) None (X_add_number e) r_type
      | O_constant \<Rightarrow> fixup None None (X_add_number e) r_type
      | _ \<Rightarrow> gbind (make_expr_symbol e) (\<lambda>add. fixup add None 0 r_type))"

subsection \<open>Contents of the section\<close>

definition section_bytes :: "gas_state \<Rightarrow> bytes" where
  "section_bytes s = concat (map fr_literal (gs_frags s))"

text \<open>There is room for \<open>n\<close> bytes in one fragment.\<close>

definition roomy :: "nat \<Rightarrow> gas_state \<Rightarrow> bool" where
  "roomy n s \<longleftrightarrow> gs_frags s \<noteq> [] \<and> (\<exists>r \<in> set (gs_rooms s). n \<le> r)"

text \<open>The state before the port is started, with an input buffer and an empty section.\<close>

definition start_state :: "string \<Rightarrow> gas_state" where
  "start_state buf = \<lparr>gs_buf = buf, gs_ilp = 0, gs_limit = length buf, gs_msgs = [], gs_frags = [empty_frag],
     gs_rooms = [64], gs_fixes = [], gs_symbols = [], gs_used = {}, gs_text_align = 0, op_hash_ctrl = None, reg_names_hash = None,
     expr_end = 0, pending_reloc = False\<rparr>"

definition no_expr :: expressionS where
  "no_expr = \<lparr>X_add_symbol = None, X_op_symbol = None, X_add_number = 0, X_op = O_absent\<rparr>"

subsection \<open>Sequencing\<close>

named_theorems gas_simps \<open>rewriting of routines applied to a state\<close>

lemma gas_apply [simp, gas_simps]:
  "gret x s = Inr (x, s)"
  "gbind m f s = rbind (m s) (\<lambda>(x, s). f x s)"
  "gfail e s = Inl e"
  "glift r s = rbind r (\<lambda>x. Inr (x, s))"
  "as_bad msg s = Inr ((), s\<lparr>gs_msgs := gs_msgs s @ [As_bad msg]\<rparr>)"
  "as_warn msg s = Inr ((), s\<lparr>gs_msgs := gs_msgs s @ [As_warn msg]\<rparr>)"
  by (simp_all add: gret_def gbind_def gfail_def glift_def as_bad_def as_warn_def)

lemma gas_assert_apply [simp, gas_simps]: "gas_assert b s = (if b then Inr ((), s) else Inl Abort)"
  by (simp add: gas_assert_def)

lemma peek_in [simp]: "p < length (gs_buf s) \<Longrightarrow> peek p s = Inr (gs_buf s ! p, s)"
  by (simp add: peek_def)

lemma scan_from_spec:
  "scan_from P (xs @ c # ys) p = Inr (p + length xs)" if "P c" "\<forall>x \<in> set xs. \<not> P x"
  using that by (induction xs arbitrary: p) auto

lemma scan_at:
  assumes "drop p (gs_buf s) = xs @ c # ys" "P c" "\<forall>x \<in> set xs. \<not> P x"
  shows "scan P p s = Inr (p + length xs, s)"
  using assms by (simp add: scan_def scan_from_spec)

lemma scan_here: "p < length (gs_buf s) \<Longrightarrow> P (gs_buf s ! p) \<Longrightarrow> scan P p s = Inr (p, s)"
  using scan_at [of p s "[]"] by (simp add: Cons_nth_drop_Suc [symmetric])

lemma skip_blanks_here:
  "p < length (gs_buf s) \<Longrightarrow> gs_buf s ! p \<noteq> CHR '' '' \<Longrightarrow> gs_buf s ! p \<noteq> CHR 0x09 \<Longrightarrow>
   skip_blanks p s = Inr (p, s)"
  by (simp add: skip_blanks_def scan_here)

lemma scan_exists:
  assumes "c \<in> set (drop p (gs_buf s))" "P c"
  obtains q where "scan P p s = Inr (q, s)"
proof -
  obtain xs y ys where "drop p (gs_buf s) = xs @ y # ys" "P y" "\<forall>x \<in> set xs. \<not> P x"
    using split_list_first_propE [of "drop p (gs_buf s)" P] assms by blast
  from scan_at [OF this] show ?thesis by (rule that)
qed

lemma scan_from_bound: "scan_from P cs p = Inr q \<Longrightarrow> p \<le> q \<and> q < p + length cs"
  by (induction cs arbitrary: p) (fastforce split: if_splits)+

lemma scan_bound: "scan P p s = Inr (q, s') \<Longrightarrow> q < length (gs_buf s)"
  using scan_from_bound [of P "drop p (gs_buf s)" p q] by (cases "p \<le> length (gs_buf s)") (auto simp: scan_def rbind_Inr_iff)

subsection \<open>Writing numbers\<close>

lemma chars_loop_bits:
  "i \<le> n \<Longrightarrow> chars_loop p a d (n - i) = put_bits_loop n i d p a True"
proof (induction "n - i" arbitrary: i p d)
  case (Suc k)
  then have "i < n" and n: "n - i = Suc (n - Suc i)" by simp_all
  moreover have "put_bits_loop n i d p a True =
      rbind (wr8 p (a + (n - Suc i)) (ucast (d AND 0xff))) (\<lambda>p. put_bits_loop n (Suc i) (drop_bit 8 d) p a True)"
    using \<open>i < n\<close> by (subst put_bits_loop.simps) simp
  moreover have "chars_loop p' a d' (n - Suc i) = put_bits_loop n (Suc i) d' p' a True" for p' d'
    using Suc(1) [of "Suc i"] Suc(2) \<open>i < n\<close> by simp
  ultimately show ?case by (simp add: n)
qed (simp add: put_bits_loop.simps)

lemma number_to_chars_bits:
  "0 < n \<Longrightarrow> number_to_chars_bigendian p a d (int n) = bfd_put_bits d p a (8 * int n) True"
  using chars_loop_bits [of 0 n p a d] by (simp add: number_to_chars_bigendian_def bfd_put_bits_def)

subsection \<open>Growing fragments\<close>

lemma upd_last:
  "gs_frags s \<noteq> [] \<Longrightarrow> gs_frags (upd_frag (frag_now s) f s) = butlast (gs_frags s) @ [f (last (gs_frags s))]"
  by (cases "gs_frags s" rule: rev_cases) (simp_all add: upd_frag_def frag_now_def)

lemma upd_frag_fields:
  "upd_frag i f s = s\<lparr>gs_frags := gs_frags (upd_frag i f s)\<rparr>"
  by (simp add: upd_frag_def)

lemma section_bytes_snoc:
  "gs_frags s \<noteq> [] \<Longrightarrow> section_bytes s = concat (map fr_literal (butlast (gs_frags s))) @ fr_literal (last (gs_frags s))"
  by (cases "gs_frags s" rule: rev_cases) (simp_all add: section_bytes_def)

lemma frag_new_after_wane:
  assumes "gs_frags s \<noteq> []"
  shows "\<exists>fs. frag_new 0 (frag_wane (frag_now s) s) = Inr (s\<lparr>gs_frags := fs\<rparr>) \<and> fs \<noteq> [] \<and>
    concat (map fr_literal fs) = section_bytes s"
proof -
  obtain fs f where f: "gs_frags s = fs @ [f]" using assms by (cases "gs_frags s" rule: rev_cases) auto
  show ?thesis
    by (rule exI [of _ "fs @ [f\<lparr>fr_type := rs_fill, fr_offset := 0, fr_var := 0, fr_fix := length (fr_literal f)\<rparr>,
         empty_frag]"])
       (simp add: f frag_new_def frag_wane_def upd_frag_def frag_now_def frag_now_fix_octets_def
         section_bytes_def empty_frag_def Let_def)
qed

lemma frag_grow_loop_ok:
  "gs_frags s \<noteq> [] \<Longrightarrow> \<exists>r \<in> set rooms. n \<le> r \<Longrightarrow>
   \<exists>fs r rs. frag_grow_loop rooms n s = Inr (s\<lparr>gs_frags := fs, gs_rooms := r # rs\<rparr>) \<and> fs \<noteq> [] \<and> n \<le> r \<and>
     concat (map fr_literal fs) = section_bytes s \<and> {x \<in> set rooms. n \<le> x} \<subseteq> insert r (set rs)"
proof (induction rooms arbitrary: s)
  case (Cons r rooms)
  show ?case
  proof (cases "r < n")
    case True
    obtain fs where fs: "frag_new 0 (frag_wane (frag_now s) s) = Inr (s\<lparr>gs_frags := fs\<rparr>)" "fs \<noteq> []"
      "concat (map fr_literal fs) = section_bytes s"
      using frag_new_after_wane [OF Cons.prems(1)] by blast
    have "{x \<in> set (r # rooms). n \<le> x} = {x \<in> set rooms. n \<le> x}" using True by auto
    with True fs Cons.prems Cons.IH [of "s\<lparr>gs_frags := fs\<rparr>"] show ?thesis
      by (auto simp: section_bytes_def)
  next
    case False
    with Cons.prems show ?thesis
      by (intro exI [of _ "gs_frags s"] exI [of _ r] exI [of _ rooms]) (auto simp: section_bytes_def)
  qed
qed simp

lemma frag_more_ok:
  assumes "gs_frags s \<noteq> []" "\<exists>r \<in> set (gs_rooms s). n \<le> r"
  obtains a fs rs where "frag_more n s = Inr (a, s\<lparr>gs_frags := fs, gs_rooms := rs\<rparr>)" "fs \<noteq> []"
    "fr_literal (last fs) = take a (fr_literal (last fs)) @ replicate n 0" "length (fr_literal (last fs)) = a + n"
    "concat (map fr_literal (butlast fs)) @ take a (fr_literal (last fs)) = section_bytes s"
    "\<forall>m. (\<exists>r \<in> set (gs_rooms s). n + m \<le> r) \<longrightarrow> (\<exists>r \<in> set rs. m \<le> r)"
proof -
  obtain fs r rs where g: "frag_grow_loop (gs_rooms s) n s = Inr (s\<lparr>gs_frags := fs, gs_rooms := r # rs\<rparr>)"
    "fs \<noteq> []" "n \<le> r" "concat (map fr_literal fs) = section_bytes s"
    and rooms: "{x \<in> set (gs_rooms s). n \<le> x} \<subseteq> insert r (set rs)"
    using frag_grow_loop_ok [OF assms] by blast
  obtain gs f where fs: "fs = gs @ [f]" using g(2) by (cases fs rule: rev_cases) auto
  have "\<exists>x \<in> set ((r - n) # rs). m \<le> x" if "y \<in> set (gs_rooms s)" "n + m \<le> y" for y m
  proof -
    have "y \<in> insert r (set rs)" using rooms that by auto
    with that(2) show ?thesis by (auto intro: bexI [of _ y])
  qed
  with g fs show ?thesis
    by (intro that [of "length (fr_literal f)" "(r - n) # rs" "gs @ [f\<lparr>fr_literal := fr_literal f @ replicate n 0\<rparr>]"])
       (auto simp: frag_more_def frag_grow_def frag_now_fix_octets_def upd_frag_def frag_now_def)
qed

end
