(* ===== verification/Tc_Parse.thy ===== *)
theory Tc_Parse
  imports Gas_State
begin

text \<open>
  The operand parsers of \<^verbatim>\<open>gas/config/tc-fusion.c\<close>. A register is an \<open>int\<close>, \<open>-1\<close> after an
  error; a position in the input line is an index into the buffer, and a parser that takes a
  \<open>char **\<close> returns the new position. Reads happen in the order of the code and only where
  the code reads. The expression reader of the assembler is the parameter \<open>expression\<close>.
\<close>

subsection \<open>Characters\<close>

text \<open>The value of a character of the (signed) type \<open>char\<close>.\<close>

definition schar :: "char \<Rightarrow> int" where
  "schar c = sint (of_nat (of_char c) :: 8 word)"

definition isdigit :: "char \<Rightarrow> bool" where
  "isdigit c \<longleftrightarrow> 48 \<le> schar c \<and> schar c \<le> 57"

definition gif :: "bool gas \<Rightarrow> 'a gas \<Rightarrow> 'a gas \<Rightarrow> 'a gas" where
  "gif c m n = gbind c (\<lambda>b. if b then m else n)"

text \<open>\<open>s[0] == .. && s[1] == .. && ..\<close>, read up to the first difference.\<close>

fun prefix_at :: "string \<Rightarrow> nat \<Rightarrow> bool gas" where
  "prefix_at [] p = gret True"
| "prefix_at (c # cs) p = gbind (peek p) (\<lambda>d. if d = c then prefix_at cs (Suc p) else gret False)"

definition check_sep :: "nat \<Rightarrow> char list \<Rightarrow> string \<Rightarrow> unit gas" where
  "check_sep p seps msg = gbind (peek p) (\<lambda>c. if c \<in> set seps then gret () else as_bad msg)"

subsection \<open>Registers\<close>

definition reg_error :: "string \<Rightarrow> nat \<Rightarrow> (int \<times> nat) gas" where
  "reg_error msg ptr = gbind (as_bad msg) (\<lambda>_. gbind ignore_rest_of_line (\<lambda>_. gret (-1, ptr)))"

text \<open>
  \<open>$n\<close> and \<open>$Rn\<close> run the same statements: the first digit is read at \<open>s[1]\<close>, the second at
  \<open>s[2]\<close>, and \<open>ptr\<close> stays where it is.
\<close>

definition numeric_register :: "nat \<Rightarrow> nat \<Rightarrow> (int \<times> nat) gas" where
  "numeric_register ptr s =
     gbind (peek (s + 1)) (\<lambda>c1.
     gbind (peek (s + 2)) (\<lambda>c2.
     let reg = (if isdigit c2 then (schar c1 - 48) * 10 else 0) + (schar c2 - 48) in
     if reg > 31 then gbind (as_bad ''Your register number is too damn high: %s'') (\<lambda>_. gret (-1, ptr))
     else gret (reg, ptr)))"

definition sep4 :: "char list" where
  "sep4 = [CHR '' '', CHR 0x09, CHR '','', NUL]"

definition sep5 :: "char list" where
  "sep5 = [CHR '' '', CHR 0x09, CHR '','', CHR '')'', NUL]"

definition simple_register :: "nat \<Rightarrow> nat \<Rightarrow> nat \<Rightarrow> char list \<Rightarrow> int \<Rightarrow> (int \<times> nat) gas" where
  "simple_register ptr s len seps reg =
     gbind (check_sep (s + len) seps ''not a real register: %s'') (\<lambda>_. gret (reg, ptr + len))"

definition named_register :: "nat \<Rightarrow> nat \<Rightarrow> (int \<times> nat) gas" where
  "named_register ptr s =
     gif (prefix_at ''zero'' s) (simple_register ptr s 4 sep5 0)
     (gif (prefix_at ''sp'' s) (simple_register ptr s 2 sep4 1)
     (gif (prefix_at ''fp'' s) (simple_register ptr s 2 sep4 2)
     (gif (prefix_at ''gp'' s)
       (gbind (peek (s + 2)) (\<lambda>c.
        if c = CHR '' '' \<or> c = CHR 0x09 then gret (3, ptr + 2)
        else gbind (poke (s + 2) (CHR '','')) (\<lambda>_. gret (3, ptr + 2))))
     (gif (prefix_at ''ra'' s) (simple_register ptr s 2 sep4 4)
     (gif (prefix_at ''arg'' s)
       (gbind (peek (s + 3)) (\<lambda>c.
        let reg = schar c - 48 in
        if reg < 0 \<or> reg > 3 then reg_error ''illegal argument register'' ptr
        else gret (reg + 5, ptr + 4)))
     (gif (prefix_at ''rval'' s)
       (gbind (check_sep (s + 5) sep4 ''not a real register: %s'') (\<lambda>_.
        gbind (peek (s + 4)) (\<lambda>c.
        let reg = schar c - 48 in
        if reg < 0 \<or> reg > 1 then reg_error ''illegal return value regsiter'' ptr
        else gret (reg + 9, ptr + 5))))
     (gif (prefix_at ''gr'' s)
       (gbind (peek (s + 2)) (\<lambda>c.
        let reg = schar c - 48 in
        if reg < 0 \<or> reg > 9 then reg_error ''illegal general use register'' ptr
        else gif (prefix_at ''10'' (s + 2)) (gret (21, ptr + 4)) (gret (reg + 11, ptr + 3))))
     (gif (prefix_at ''tmp'' s)
       (gbind (check_sep (s + 4) sep5 ''illegal temporary use register: %s'') (\<lambda>_.
        gbind (peek (s + 3)) (\<lambda>c.
        let reg = schar c - 48 in
        if reg < 0 \<or> reg > 8 then reg_error ''illegal temporary use register'' ptr
        else gret (reg + 22, ptr + 4))))
     (gif (prefix_at ''hi0'' s) (simple_register ptr s 3 sep4 30)
     (gif (prefix_at ''low0'' s) (simple_register ptr s 4 sep4 31)
       (reg_error ''expecting register, unknown operand:%s'' ptr)))))))))))"

definition parse_register_operand :: "nat \<Rightarrow> (int \<times> nat) gas" where
  "parse_register_operand ptr =
     gbind (skip_blanks ptr) (\<lambda>s.
     gbind (peek s) (\<lambda>c0.
     gbind (peek (s + 1)) (\<lambda>c1.
     if c0 \<noteq> CHR ''$'' \<and> (isdigit c1 \<or> c1 = CHR ''R'') then
       reg_error ''number regsiters require '$' or 'R': %s'' ptr
     else if c0 = CHR ''$'' \<and> isdigit c1 then numeric_register ptr s
     else if c0 = CHR ''$'' \<and> c1 = CHR ''R'' then numeric_register ptr s
     else if c0 = CHR ''$'' \<and> \<not> isdigit c1 then
       reg_error '''$' is for number registers only: %s'' ptr
     else named_register ptr s)))"

subsection \<open>Operands\<close>

text \<open>
  The variables that the parsers fill in: the registers, the immediate as the 32 bits of the
  \<open>int\<close>, and the expression \<open>imm_expr\<close>.
\<close>

record operands =
  Rd :: int
  RSa :: int
  RSb :: int
  imm :: "32 word"
  imm_expr :: expressionS

text \<open>A register, then the character after it, which should be a comma, is stepped over.\<close>

definition comma :: "string \<Rightarrow> nat \<Rightarrow> nat gas" where
  "comma msg p =
     gbind (peek p) (\<lambda>c.
     gbind (if c \<noteq> CHR '','' then as_warn msg else gret ()) (\<lambda>_. gret (p + 1)))"

definition warn_rest :: "nat \<Rightarrow> unit gas" where
  "warn_rest p = gbind (peek p) (\<lambda>c. if c \<noteq> NUL then as_warn ''ignored rest of line: %s'' else gret ())"

definition comma_registers :: string where
  "comma_registers = ''expecting comma deliminated registers''"

definition comma_operands :: string where
  "comma_operands = ''expecting comma deliminated operands''"

definition parse_rdab :: "operands \<Rightarrow> nat \<Rightarrow> (int \<times> operands) gas" where
  "parse_rdab ops op_end =
     gbind (skip_blanks op_end) (\<lambda>p.
     gbind (parse_register_operand p) (\<lambda>(rd, p).
     gbind (comma comma_registers p) (\<lambda>p.
     gbind (skip_blanks p) (\<lambda>p.
     gbind (parse_register_operand p) (\<lambda>(rsa, p).
     gbind (comma comma_registers p) (\<lambda>p.
     gbind (skip_blanks p) (\<lambda>p.
     gbind (parse_register_operand p) (\<lambda>(rsb, p).
     let ops = ops\<lparr>Rd := rd, RSa := rsa, RSb := rsb\<rparr> in
     if rsb = 4 then gret (0, ops)
     else
       gbind (scan (\<lambda>c. c = NUL) p) (\<lambda>p.
       gbind (warn_rest p) (\<lambda>_. gret (0, ops)))))))))))"

definition parse_rda :: "operands \<Rightarrow> nat \<Rightarrow> (int \<times> operands) gas" where
  "parse_rda ops op_end =
     gbind (skip_blanks op_end) (\<lambda>p.
     gbind (parse_register_operand p) (\<lambda>(rd, p).
     gbind (comma comma_registers p) (\<lambda>p.
     gbind (skip_blanks p) (\<lambda>p.
     gbind (parse_register_operand p) (\<lambda>(rsa, p).
     gbind (skip_blanks p) (\<lambda>p.
     gbind (warn_rest p) (\<lambda>_. gret (0, ops\<lparr>Rd := rd, RSa := rsa\<rparr>))))))))"

definition parse_rab :: "operands \<Rightarrow> nat \<Rightarrow> (int \<times> operands) gas" where
  "parse_rab ops op_end =
     gbind (skip_blanks op_end) (\<lambda>p.
     gbind (parse_register_operand p) (\<lambda>(rsa, p).
     gbind (comma comma_registers p) (\<lambda>p.
     gbind (skip_blanks p) (\<lambda>p.
     gbind (parse_register_operand p) (\<lambda>(rsb, p).
     gbind (comma comma_operands p) (\<lambda>p.
     gbind (skip_blanks p) (\<lambda>p.
     gbind (warn_rest p) (\<lambda>_. gret (0, ops\<lparr>RSa := rsa, RSb := rsb\<rparr>)))))))))"

definition getExpression :: "expressionS gas \<Rightarrow> nat \<Rightarrow> expressionS gas" where
  "getExpression expression str = (\<lambda>s.
     rbind (expression (s\<lparr>gs_ilp := str\<rparr>)) (\<lambda>(ep, s').
     Inr (ep, s'\<lparr>expr_end := gs_ilp s', gs_ilp := gs_ilp s\<rparr>)))"

definition imm_relocs :: "bfd_reloc_code list" where
  "imm_relocs = [BFD_RELOC_FUSION_14_PCREL, BFD_RELOC_FUSION_21_PCREL, BFD_RELOC_16_PCREL,
     BFD_RELOC_HI16_PCREL, BFD_RELOC_32, BFD_RELOC_16, BFD_RELOC_FUSION_HI16, BFD_RELOC_8,
     BFD_RELOC_FUSION_LOAD, BFD_RELOC_FUSION_STORE, BFD_RELOC_FUSION_21, BFD_RELOC_FUSION_12,
     BFD_RELOC_NONE]"

definition parse_imm ::
  "expressionS gas \<Rightarrow> bfd_reloc_code \<Rightarrow> operands \<Rightarrow> nat \<Rightarrow> (operands \<times> nat) gas" where
  "parse_imm expression reloc ops op_end =
     gbind (skip_blanks op_end) (\<lambda>p.
     gbind (getExpression expression p) (\<lambda>e.
     if reloc \<in> set imm_relocs then gret (ops\<lparr>imm := ucast (X_add_number e), imm_expr := e\<rparr>, p)
     else gbind (as_bad ''not recognized relocation: %d'') (\<lambda>_. gfail Abort)))"

text \<open>The last two steps of the parsers with an immediate at the end.\<close>

definition parse_imm_last ::
  "expressionS gas \<Rightarrow> bfd_reloc_code \<Rightarrow> operands \<Rightarrow> nat \<Rightarrow> (int \<times> operands \<times> nat) gas" where
  "parse_imm_last expression reloc ops p =
     gbind (skip_blanks p) (\<lambda>p.
     gbind (parse_imm expression reloc ops p) (\<lambda>(ops, p).
     gbind (skip_blanks p) (\<lambda>p. gret (0, ops, p))))"

definition parse_rdai ::
  "expressionS gas \<Rightarrow> bfd_reloc_code \<Rightarrow> operands \<Rightarrow> nat \<Rightarrow> (int \<times> operands \<times> nat) gas" where
  "parse_rdai expression reloc ops op_end =
     gbind (skip_blanks op_end) (\<lambda>p.
     gbind (parse_register_operand p) (\<lambda>(rd, p).
     gbind (comma comma_operands p) (\<lambda>p.
     gbind (skip_blanks p) (\<lambda>p.
     gbind (parse_register_operand p) (\<lambda>(rsa, p).
     gbind (comma comma_operands p) (\<lambda>p.
     parse_imm_last expression reloc (ops\<lparr>Rd := rd, RSa := rsa\<rparr>) p))))))"

definition parse_rdi ::
  "expressionS gas \<Rightarrow> bfd_reloc_code \<Rightarrow> operands \<Rightarrow> nat \<Rightarrow> (int \<times> operands \<times> nat) gas" where
  "parse_rdi expression reloc ops op_end =
     gbind (skip_blanks op_end) (\<lambda>p.
     gbind (parse_register_operand p) (\<lambda>(rd, p).
     gbind (comma comma_registers p) (\<lambda>p.
     parse_imm_last expression reloc (ops\<lparr>Rd := rd\<rparr>) p)))"

definition parse_rai ::
  "expressionS gas \<Rightarrow> bfd_reloc_code \<Rightarrow> operands \<Rightarrow> nat \<Rightarrow> (int \<times> operands \<times> nat) gas" where
  "parse_rai expression reloc ops op_end =
     gbind (skip_blanks op_end) (\<lambda>p.
     gbind (parse_register_operand p) (\<lambda>(rsa, p).
     gbind (comma comma_registers p) (\<lambda>p.
     parse_imm_last expression reloc (ops\<lparr>RSa := rsa\<rparr>) p)))"

definition parse_rabi ::
  "expressionS gas \<Rightarrow> bfd_reloc_code \<Rightarrow> operands \<Rightarrow> nat \<Rightarrow> (int \<times> operands \<times> nat) gas" where
  "parse_rabi expression reloc ops op_end =
     gbind (skip_blanks op_end) (\<lambda>p.
     gbind (parse_register_operand p) (\<lambda>(rsa, p).
     gbind (comma comma_registers p) (\<lambda>p.
     gbind (parse_register_operand p) (\<lambda>(rsb, p).
     gbind (comma comma_registers p) (\<lambda>p.
     parse_imm_last expression reloc (ops\<lparr>RSa := rsa, RSb := rsb\<rparr>) p)))))"

text \<open>
  The search for the parenthesis before a base register: \<open>None\<close> when the string ends first.
\<close>

definition find_paren :: "string \<Rightarrow> nat \<Rightarrow> nat option gas" where
  "find_paren msg p =
     gbind (scan (\<lambda>c. c = CHR ''('' \<or> c = NUL) p) (\<lambda>q.
     gbind (peek q) (\<lambda>c.
     if c = CHR ''('' then gret (Some (q + 1))
     else gbind (as_bad msg) (\<lambda>_. gret None)))"

definition skip_closing :: "nat \<Rightarrow> nat gas" where
  "skip_closing p = scan (\<lambda>c. c \<noteq> CHR '' '' \<and> c \<noteq> CHR 0x09 \<and> c \<noteq> CHR '')'') p"

definition parse_rdai_offset ::
  "expressionS gas \<Rightarrow> bfd_reloc_code \<Rightarrow> operands \<Rightarrow> nat \<Rightarrow> (int \<times> operands) gas" where
  "parse_rdai_offset expression reloc ops op_end =
     gbind (skip_blanks op_end) (\<lambda>p.
     gbind (parse_register_operand p) (\<lambda>(rd, p).
     gbind (comma comma_operands p) (\<lambda>p.
     gbind (skip_blanks p) (\<lambda>p.
     gbind (parse_imm expression reloc (ops\<lparr>Rd := rd\<rparr>) p) (\<lambda>(ops, p).
     gbind (find_paren ''expecting `(' before end: %s'' p) (\<lambda>q.
     case q of None \<Rightarrow> gret (-1, ops)
     | Some p \<Rightarrow>
         gbind (parse_register_operand p) (\<lambda>(rsa, p).
         gbind (skip_closing (p + 1)) (\<lambda>p. gret (0, ops\<lparr>RSa := rsa\<rparr>)))))))))"

text \<open>A macro has no base register; the step over the closing parenthesis happens all the same.\<close>

definition parse_rai_offset ::
  "expressionS gas \<Rightarrow> bfd_reloc_code \<Rightarrow> c_uint \<Rightarrow> operands \<Rightarrow> nat \<Rightarrow> (int \<times> operands) gas" where
  "parse_rai_offset expression reloc cpid ops op_end =
     gbind (skip_blanks op_end) (\<lambda>p.
     gbind (parse_imm expression reloc ops p) (\<lambda>(ops, p).
     if cpid \<noteq> CPID_MACRO then
       gbind (find_paren ''expecting `(' before end'' p) (\<lambda>q.
       case q of None \<Rightarrow> gret (-1, ops)
       | Some p \<Rightarrow>
           gbind (parse_register_operand p) (\<lambda>(rsa, p).
           gbind (skip_closing (p + 1)) (\<lambda>p. gret (0, ops\<lparr>RSa := rsa\<rparr>))))
     else gbind (skip_closing (p + 1)) (\<lambda>p. gret (0, ops))))"

definition parse_rabi_offset ::
  "expressionS gas \<Rightarrow> bfd_reloc_code \<Rightarrow> operands \<Rightarrow> nat \<Rightarrow> (int \<times> operands) gas" where
  "parse_rabi_offset expression reloc ops op_end =
     gbind (skip_blanks op_end) (\<lambda>p.
     gbind (parse_register_operand p) (\<lambda>(rsb, p).
     gbind (comma comma_operands p) (\<lambda>p.
     gbind (skip_blanks p) (\<lambda>p.
     gbind (parse_imm expression reloc (ops\<lparr>RSb := rsb\<rparr>) p) (\<lambda>(ops, p).
     gbind (find_paren ''expecting `(' before end'' p) (\<lambda>q.
     case q of None \<Rightarrow> gret (-1, ops)
     | Some p \<Rightarrow>
         gbind (parse_register_operand p) (\<lambda>(rsa, p).
         gbind (skip_closing (p + 1)) (\<lambda>p. gret (0, ops\<lparr>RSa := rsa\<rparr>)))))))))"


subsection \<open>What the register parser should do\<close>

text \<open>
  The characters that the parser accepts after the name of register \<open>i\<close>, the complaint
  otherwise, and the state after the name with a character \<open>t\<close> behind it at position \<open>q\<close>:
  the branch of \<open>gp\<close> writes a comma over any character but a blank.
\<close>

definition blank :: "char \<Rightarrow> bool" where
  "blank c \<longleftrightarrow> c = CHR '' '' \<or> c = CHR 0x09"

definition accepts_after :: "nat \<Rightarrow> char \<Rightarrow> bool" where
  "accepts_after i t \<longleftrightarrow> i \<in> {3, 5, 6, 7, 8, 11, 12, 13, 14, 15, 16, 17, 18, 19, 20, 21} \<or>
     t \<in> set (if i = 0 \<or> 22 \<le> i \<and> i \<le> 29 then sep5 else sep4)"

definition after_register :: "nat \<Rightarrow> nat \<Rightarrow> char \<Rightarrow> gas_state \<Rightarrow> gas_state" where
  "after_register i q t s =
     (if i = 3 \<and> \<not> blank t then s\<lparr>gs_buf := (gs_buf s)[q := CHR '','']\<rparr>
      else if accepts_after i t then s
      else s\<lparr>gs_msgs := gs_msgs s @
        [As_bad (if 22 \<le> i \<and> i \<le> 29 then ''illegal temporary use register: %s'' else ''not a real register: %s'')]\<rparr>)"

section \<open>Properties\<close>

subsection \<open>Reading the line\<close>

lemma drop_plus: "drop (p + k) xs = drop k (drop p xs)"
  by (simp add: add.commute)

fun prefix_of :: "string \<Rightarrow> string \<Rightarrow> bool result" where
  "prefix_of [] xs = Inr True"
| "prefix_of (c # cs) [] = Inl Out_of_bounds"
| "prefix_of (c # cs) (x # xs) = (if x = c then prefix_of cs xs else Inr False)"

lemma prefix_at_line:
  "prefix_at cs p s = rbind (prefix_of cs (drop p (gs_buf s))) (\<lambda>b. Inr (b, s))"
proof (induction cs arbitrary: p)
  case (Cons c cs)
  show ?case
  proof (cases "p < length (gs_buf s)")
    case True
    then show ?thesis
      using Cons.IH by (simp add: Cons_nth_drop_Suc [symmetric])
  qed (simp add: peek_def rd8_def)
qed (simp)

lemma rd8_line:
  "rd8 (pre @ xs) (length pre) = rd8 xs 0" "rd8 (pre @ xs) (Suc (length pre)) = rd8 xs 1"
  "rd8 (pre @ xs) (Suc (Suc (length pre))) = rd8 xs 2"
  "rd8 (pre @ xs) (length pre + k) = rd8 xs k"
  by (simp_all add: rd8_def nth_append)

lemma rd8_Cons:
  "rd8 (x # xs) 0 = Inr x" "rd8 (x # xs) (Suc k) = rd8 xs k" "rd8 (x # xs) (numeral m) = rd8 xs (pred_numeral m)"
  by (simp_all add: rd8_def numeral_eq_Suc)

lemmas line_simps = peek_def prefix_at_line rd8_line rd8_Cons

declare prefix_at.simps [simp del]

lemma gif_apply [simp, gas_simps]: "gif c m n s = rbind (c s) (\<lambda>(b, s). (if b then m else n) s)"
  by (simp add: gif_def)

lemma skip_blanks_drop:
  assumes "drop p (gs_buf s) = w @ c # rest" "\<forall>b \<in> set w. blank b" "\<not> blank c"
  shows "skip_blanks p s = Inr (p + length w, s)"
  using assms unfolding skip_blanks_def by (intro scan_at) (auto simp: blank_def)

lemma schar_code [simp]: "of_char c < (128::nat) \<Longrightarrow> schar c = int (of_char c)"
  by (simp add: schar_def sint_uint signed_take_bit_eq_if_positive bit_iff_odd unsigned_of_nat take_bit_nat_eq_self take_bit_int_eq_self)


lemma schar_digits [simp]:
  "schar CHR ''0'' = 48" "schar CHR ''1'' = 49" "schar CHR ''2'' = 50" "schar CHR ''3'' = 51"
  "schar CHR ''4'' = 52" "schar CHR ''5'' = 53" "schar CHR ''6'' = 54" "schar CHR ''7'' = 55"
  "schar CHR ''8'' = 56" "schar CHR ''9'' = 57" "schar CHR '','' = 44"
  by simp_all

lemma named_register_names:
  "list_all (\<lambda>(i, n). \<forall>pre t rest s ptr. gs_buf s = pre @ n @ t # rest \<longrightarrow> (i = 12 \<longrightarrow> t \<noteq> CHR ''0'') \<longrightarrow>
     named_register ptr (length pre) s = Inr ((int i, ptr + length n), after_register i (length pre + length n) t s))
   (enumerate 0 fusion_gpreg_name)"
  by (simp add: fusion_gpreg_name_def named_register_def line_simps simple_register_def check_sep_def poke_def
     after_register_def accepts_after_def blank_def)


lemma register_names_start:
  "list_all (\<lambda>n. \<exists>c d n'. n = c # d # n' \<and> \<not> blank c \<and> c \<noteq> CHR ''$'' \<and> d \<noteq> CHR ''R'' \<and> \<not> isdigit d) fusion_gpreg_name"
  by (simp add: fusion_gpreg_name_def blank_def isdigit_def)

lemma parse_register_name:
  assumes "i < 32" "drop p (gs_buf s) = w @ fusion_gpreg_name ! i @ t # rest" "\<forall>b \<in> set w. blank b"
    "i = 12 \<longrightarrow> t \<noteq> CHR ''0''"
  shows "parse_register_operand p s =
    Inr ((int i, p + length (fusion_gpreg_name ! i)),
      after_register i (p + length w + length (fusion_gpreg_name ! i)) t s)"
proof -
  define n where "n = fusion_gpreg_name ! i"
  define pre where "pre = take p (gs_buf s) @ w"
  have buf: "gs_buf s = pre @ n @ t # rest"
    using assms(2) unfolding pre_def n_def by (metis append.assoc append_take_drop_id)
  have pre: "length pre = p + length w"
  proof -
    have "drop p (gs_buf s) \<noteq> []" using assms(2) by simp
    then show ?thesis by (simp add: pre_def)
  qed
  obtain c d n' where n: "n = c # d # n'" "\<not> blank c" "c \<noteq> CHR ''$''" "d \<noteq> CHR ''R''" "\<not> isdigit d"
    using register_names_start assms(1) by (auto simp: n_def list_all_length)
  have skip: "skip_blanks p s = Inr (length pre, s)"
    using skip_blanks_drop [OF _ assms(3) n(2)] assms(2) n(1) by (simp add: n_def pre)
  have "parse_register_operand p s = named_register p (length pre) s"
    using n buf by (simp add: parse_register_operand_def skip line_simps)
  also have "\<dots> = Inr ((int i, p + length n), after_register i (length pre + length n) t s)"
    using named_register_names assms(1,4) buf
    by (auto simp: list_all_length nth_enumerate_eq n_def)
  finally show ?thesis by (simp add: n_def pre)
qed


subsection \<open>Numbered registers\<close>

lemma parse_numeric:
  assumes "drop p (gs_buf s) = w @ CHR ''$'' # c1 # c2 # rest" "\<forall>b \<in> set w. blank b" "isdigit c1 \<or> c1 = CHR ''R''"
  shows "parse_register_operand p s =
    (let reg = (if isdigit c2 then (schar c1 - 48) * 10 else 0) + (schar c2 - 48) in
     if reg > 31 then Inr ((-1, p), s\<lparr>gs_msgs := gs_msgs s @ [As_bad ''Your register number is too damn high: %s'']\<rparr>)
     else Inr ((reg, p), s))"
proof -
  define pre where "pre = take p (gs_buf s) @ w"
  have buf: "gs_buf s = pre @ CHR ''$'' # c1 # c2 # rest"
    using assms(1) unfolding pre_def by (metis append.assoc append_take_drop_id)
  have "drop p (gs_buf s) \<noteq> []" using assms(1) by simp
  then have pre: "length pre = p + length w" by (simp add: pre_def)
  have skip: "skip_blanks p s = Inr (length pre, s)"
    using skip_blanks_drop [OF assms(1,2)] by (simp add: blank_def pre)
  have "parse_register_operand p s = numeric_register p (length pre) s"
    using assms(3) buf by (auto simp: parse_register_operand_def skip line_simps)
  then show ?thesis using buf by (simp add: numeric_register_def line_simps Let_def)
qed


subsection \<open>Sequences of operands\<close>

lemma after_register_same:
  assumes "t = CHR '','' \<or> t = NUL \<and> i \<noteq> 3" "drop q (gs_buf s) = t # rest"
  shows "after_register i q t s = s"
proof -
  have "(gs_buf s)[q := t] = gs_buf s"
    using assms(2) by (metis list_update_id nth_via_drop)
  with assms(1) show ?thesis
    by (auto simp: after_register_def accepts_after_def sep4_def sep5_def blank_def NUL_def)
qed

lemma drop_next: "drop p xs = ys @ zs \<Longrightarrow> drop (p + length ys) xs = zs"
  by (metis append_eq_conv_conj drop_plus)

lemma drop_next_Cons: "drop p xs = ys @ z # zs \<Longrightarrow> drop (Suc (p + length ys)) xs = zs"
  using drop_next [of p xs "ys @ [z]" zs] by simp

lemma skip_blanks_name:
  assumes "i < 32" "drop p (gs_buf s) = w @ fusion_gpreg_name ! i @ rest" "\<forall>b \<in> set w. blank b"
  shows "skip_blanks p s = Inr (p + length w, s)"
proof -
  obtain c d n' where n: "fusion_gpreg_name ! i = c # d # n'" "\<not> blank c"
    using register_names_start assms(1) by (auto simp: list_all_length)
  with skip_blanks_drop [OF _ assms(3) n(2)] assms(2) show ?thesis by simp
qed

lemma register_operand:
  assumes "i < 32" "drop p (gs_buf s) = fusion_gpreg_name ! i @ t # rest" "t = CHR '','' \<or> t = NUL \<and> i \<noteq> 3"
  shows "parse_register_operand p s = Inr ((int i, p + length (fusion_gpreg_name ! i)), s)"
proof -
  from assms(3) have t: "t \<noteq> CHR ''0''" by (auto simp: NUL_def)
  show ?thesis
    using parse_register_name [OF assms(1), of p s "[]" t rest] assms(2) t
      after_register_same [OF assms(3) drop_next [OF assms(2)]] by simp
qed

lemma comma_here:
  assumes "drop p (gs_buf s) = CHR '','' # rest"
  shows "comma msg p s = Inr (Suc p, s)"
proof -
  from assms have "p < length (gs_buf s)" by (metis drop_all linorder_not_less list.distinct(1))
  with assms show ?thesis by (simp add: comma_def nth_via_drop)
qed

text \<open>One register operand and its comma.\<close>

lemma register_comma:
  assumes "i < 32" "drop p (gs_buf s) = fusion_gpreg_name ! i @ CHR '','' # rest"
  shows "parse_register_operand p s = Inr ((int i, p + length (fusion_gpreg_name ! i)), s)"
    "comma msg (p + length (fusion_gpreg_name ! i)) s = Inr (Suc (p + length (fusion_gpreg_name ! i)), s)"
    "drop (Suc (p + length (fusion_gpreg_name ! i))) (gs_buf s) = rest"
  using register_operand [OF assms] comma_here [OF drop_next [OF assms(2)]] drop_next_Cons [OF assms(2)] by simp_all

lemma blank_register_comma:
  assumes "i < 32" "drop p (gs_buf s) = w @ fusion_gpreg_name ! i @ CHR '','' # rest" "\<forall>b \<in> set w. blank b"
  obtains q r where "skip_blanks p s = Inr (q, s)" "parse_register_operand q s = Inr ((int i, r), s)"
    "\<forall>msg. comma msg r s = Inr (Suc r, s)" "drop (Suc r) (gs_buf s) = rest"
  using skip_blanks_name [OF assms] register_comma [OF assms(1) drop_next [OF assms(2)]]
  by (intro that) simp_all

lemma blank_register_end:
  assumes "i < 32" "i \<noteq> 3" "drop p (gs_buf s) = w @ fusion_gpreg_name ! i @ NUL # rest" "\<forall>b \<in> set w. blank b"
  obtains q r where "skip_blanks p s = Inr (q, s)" "parse_register_operand q s = Inr ((int i, r), s)"
    "drop r (gs_buf s) = NUL # rest"
  using skip_blanks_name [OF assms(1,3,4)] register_operand [OF assms(1) drop_next [OF assms(3)]] assms(2)
    drop_next [OF drop_next [OF assms(3)]] by (intro that) simp_all

lemma at_end:
  assumes "drop q (gs_buf s) = NUL # rest"
  shows "scan (\<lambda>c. c = NUL) q s = Inr (q, s)" "warn_rest q s = Inr ((), s)" "skip_blanks q s = Inr (q, s)"
proof -
  from assms have "q < length (gs_buf s)" "gs_buf s ! q = NUL"
    by (metis drop_all linorder_not_less list.distinct(1)) (rule nth_via_drop [OF assms])
  then show "scan (\<lambda>c. c = NUL) q s = Inr (q, s)" "warn_rest q s = Inr ((), s)" "skip_blanks q s = Inr (q, s)"
    by (simp_all add: scan_here warn_rest_def skip_blanks_here NUL_def)
qed

lemma parse_rdab_ok:
  assumes "a < 32" "b < 32" "c < 32" "c \<noteq> 3"
    and "drop p (gs_buf s) = w1 @ fusion_gpreg_name ! a @ CHR '','' # w2 @ fusion_gpreg_name ! b @ CHR '','' #
      w3 @ fusion_gpreg_name ! c @ NUL # rest"
    and "\<forall>x \<in> set w1. blank x" "\<forall>x \<in> set w2. blank x" "\<forall>x \<in> set w3. blank x"
  shows "parse_rdab ops p s = Inr ((0, ops\<lparr>Rd := int a, RSa := int b, RSb := int c\<rparr>), s)"
proof -
  obtain q1 r1 where 1: "skip_blanks p s = Inr (q1, s)" "parse_register_operand q1 s = Inr ((int a, r1), s)"
    "\<forall>msg. comma msg r1 s = Inr (Suc r1, s)"
    and d1: "drop (Suc r1) (gs_buf s) = w2 @ fusion_gpreg_name ! b @ CHR '','' # w3 @ fusion_gpreg_name ! c @ NUL # rest"
    using assms(1,5,6) by (rule blank_register_comma)
  obtain q2 r2 where 2: "skip_blanks (Suc r1) s = Inr (q2, s)" "parse_register_operand q2 s = Inr ((int b, r2), s)"
    "\<forall>msg. comma msg r2 s = Inr (Suc r2, s)"
    and d2: "drop (Suc r2) (gs_buf s) = w3 @ fusion_gpreg_name ! c @ NUL # rest"
    using assms(2) d1 assms(7) by (rule blank_register_comma)
  obtain q3 r3 where 3: "skip_blanks (Suc r2) s = Inr (q3, s)" "parse_register_operand q3 s = Inr ((int c, r3), s)"
    and d3: "drop r3 (gs_buf s) = NUL # rest"
    using assms(3,4) d2 assms(8) by (rule blank_register_end)
  show ?thesis by (simp add: parse_rdab_def 1 2 3 at_end [OF d3] Let_def)
qed

lemma line_end_returns: "limit \<le> p + length cs \<Longrightarrow> \<exists>q. line_end cs limit p = Inr q"
proof (induction cs arbitrary: p)
  case (Cons c cs)
  then show ?case using Cons.IH [of "Suc p"] by (simp add: line_end.simps [of "c # cs"])
qed (simp add: line_end.simps)

lemma reg_error_returns:
  assumes "gs_limit s \<le> length (gs_buf s)"
  obtains q where "reg_error msg ptr s = Inr ((-1, ptr), s\<lparr>gs_msgs := gs_msgs s @ [As_bad msg], gs_ilp := q\<rparr>)"
proof -
  have "gs_limit s \<le> gs_ilp s + length (drop (gs_ilp s) (gs_buf s))" using assms by simp
  then obtain q where "line_end (drop (gs_ilp s) (gs_buf s)) (gs_limit s) (gs_ilp s) = Inr q"
    using line_end_returns by blast
  then show ?thesis by (intro that [of "Suc q"]) (simp add: reg_error_def ignore_rest_of_line_def)
qed

lemma isdigit_not: "isdigit d \<Longrightarrow> \<not> blank d" "isdigit d \<Longrightarrow> d \<noteq> CHR ''$''" "isdigit d \<Longrightarrow> d \<noteq> CHR '',''" "isdigit d \<Longrightarrow> d \<noteq> NUL"
  "isdigit d \<Longrightarrow> d \<noteq> CHR ''z''" "isdigit d \<Longrightarrow> d \<noteq> CHR ''s''" "isdigit d \<Longrightarrow> d \<noteq> CHR ''f''" "isdigit d \<Longrightarrow> d \<noteq> CHR ''g''"
  "isdigit d \<Longrightarrow> d \<noteq> CHR ''r''" "isdigit d \<Longrightarrow> d \<noteq> CHR ''a''" "isdigit d \<Longrightarrow> d \<noteq> CHR ''t''" "isdigit d \<Longrightarrow> d \<noteq> CHR ''h''"
  "isdigit d \<Longrightarrow> d \<noteq> CHR ''l''"
  by (auto simp: isdigit_def blank_def NUL_def)

lemma digit_pair_register:
  assumes "drop p (gs_buf s) = d1 # d2 # rest" "isdigit d1" "isdigit d2"
  shows "parse_register_operand p s = reg_error ''number regsiters require '$' or 'R': %s'' p s"
proof -
  define pre where "pre = take p (gs_buf s)"
  have buf: "gs_buf s = pre @ d1 # d2 # rest" using assms(1) by (metis append_take_drop_id pre_def)
  have "drop p (gs_buf s) \<noteq> []" using assms(1) by simp
  then have pre: "length pre = p" by (simp add: pre_def)
  have skip: "skip_blanks p s = Inr (length pre, s)"
    using skip_blanks_drop [of p s "[]" d1] assms isdigit_not(1) by (simp add: pre)
  show ?thesis using assms(2,3) isdigit_not(2) by (simp add: parse_register_operand_def skip line_simps buf)
qed

lemma digit_register:
  assumes "drop p (gs_buf s) = d1 # CHR '','' # rest" "isdigit d1"
  shows "parse_register_operand p s = reg_error ''expecting register, unknown operand:%s'' p s"
proof -
  define pre where "pre = take p (gs_buf s)"
  have buf: "gs_buf s = pre @ d1 # CHR '','' # rest" using assms(1) by (metis append_take_drop_id pre_def)
  have "drop p (gs_buf s) \<noteq> []" using assms(1) by simp
  then have pre: "length pre = p" by (simp add: pre_def)
  have skip: "skip_blanks p s = Inr (length pre, s)"
    using skip_blanks_drop [of p s "[]" d1] assms isdigit_not(1) by (simp add: pre)
  have "parse_register_operand p s = named_register p (length pre) s"
    using isdigit_not(2) [OF assms(2)] by (simp add: parse_register_operand_def skip line_simps buf isdigit_def)
  then show ?thesis using assms(2) by (simp add: named_register_def line_simps buf isdigit_not)
qed

lemma not_comma:
  assumes "drop p (gs_buf s) = c # rest" "c \<noteq> CHR '',''"
  shows "comma msg p s = Inr (Suc p, s\<lparr>gs_msgs := gs_msgs s @ [As_warn msg]\<rparr>)"
proof -
  have "p < length (gs_buf s)" "gs_buf s ! p = c"
    using assms(1) by (metis drop_all linorder_not_less list.distinct(1)) (rule nth_via_drop [OF assms(1)])
  with assms(2) show ?thesis by (simp add: comma_def)
qed

text \<open>
  C39: numbered registers. \<open>$\<close> and two digits give the register's number but leave the
  position on the \<open>$\<close>, so that as an operand before the last one they are refused: the
  parser goes on inside the number and reports an error. \<open>$\<close> and one digit before a comma
  gives register -4 without a message.
\<close>

theorem numbered_registers:
  assumes "isdigit d1" "isdigit d2" "10 * (schar d1 - 48) + (schar d2 - 48) \<le> 31"
    and "drop p (gs_buf s) = CHR ''$'' # d1 # d2 # CHR '','' # rest" "NUL \<in> set rest" "gs_limit s \<le> length (gs_buf s)"
    and "drop q (gs_buf s) = CHR ''$'' # d1 # CHR '','' # rest'"
  shows "parse_register_operand p s = Inr ((10 * (schar d1 - 48) + (schar d2 - 48), p), s) \<and>
    (\<exists>ops' s'. parse_rdab ops p s = Inr ((0, ops'), s') \<and> RSa ops' = -1 \<and>
      As_bad ''number regsiters require '$' or 'R': %s'' \<in> set (gs_msgs s')) \<and>
    parse_register_operand q s = Inr ((-4, q), s)"
proof (intro conjI)
  have n: "parse_register_operand p s = Inr ((10 * (schar d1 - 48) + (schar d2 - 48), p), s)"
    using parse_numeric [of p s "[]" d1 d2] assms(1-4) by (simp add: Let_def algebra_simps)
  then show "parse_register_operand p s = Inr ((10 * (schar d1 - 48) + (schar d2 - 48), p), s)" .
  show "parse_register_operand q s = Inr ((-4, q), s)"
    using parse_numeric [of q s "[]" d1 "CHR '',''"] assms(1,7) by (simp add: Let_def isdigit_def)
  have p1: "drop (Suc p) (gs_buf s) = d1 # d2 # CHR '','' # rest" using drop_next [of p "gs_buf s" "[CHR ''$'']"] assms(4) by simp
  have p2: "drop (Suc (Suc p)) (gs_buf s) = d2 # CHR '','' # rest" using drop_next [of "Suc p" "gs_buf s" "[d1]"] p1 by simp
  define s1 where "s1 = s\<lparr>gs_msgs := gs_msgs s @ [As_warn comma_registers]\<rparr>"
  have c1: "skip_blanks p s = Inr (p, s)" "comma comma_registers p s = Inr (Suc p, s1)"
    using skip_blanks_drop [of p s "[]" "CHR ''$''"] not_comma [of p s] assms(4) by (simp_all add: blank_def s1_def)
  have b1: "skip_blanks (Suc p) s1 = Inr (Suc p, s1)"
    using skip_blanks_drop [of "Suc p" s1 "[]" d1] p1 isdigit_not(1) [OF assms(1)] by (simp add: s1_def)
  have "gs_limit s1 \<le> length (gs_buf s1)" using assms(6) by (simp add: s1_def)
  then obtain q2 where r2: "reg_error ''number regsiters require '$' or 'R': %s'' (Suc p) s1 = Inr ((-1, Suc p),
      s1\<lparr>gs_msgs := gs_msgs s1 @ [As_bad ''number regsiters require '$' or 'R': %s''], gs_ilp := q2\<rparr>)" by (rule reg_error_returns)
  define s2 where "s2 = s1\<lparr>gs_msgs := gs_msgs s1 @ [As_bad ''number regsiters require '$' or 'R': %s''], gs_ilp := q2\<rparr>"
  define s3 where "s3 = s2\<lparr>gs_msgs := gs_msgs s2 @ [As_warn comma_registers]\<rparr>"
  have e2: "parse_register_operand (Suc p) s1 = Inr ((-1, Suc p), s2)" "comma comma_registers (Suc p) s2 = Inr (Suc (Suc p), s3)"
    "skip_blanks (Suc (Suc p)) s3 = Inr (Suc (Suc p), s3)"
    using digit_pair_register [of "Suc p" s1 d1 d2] not_comma [of "Suc p" s2 d1] skip_blanks_drop [of "Suc (Suc p)" s3 "[]" d2]
      p1 p2 assms(1,2) r2 isdigit_not(1) [OF assms(2)] isdigit_not(3) [OF assms(1)]
    by (simp_all add: s1_def s2_def s3_def)
  have "gs_limit s3 \<le> length (gs_buf s3)" using assms(6) by (simp add: s1_def s2_def s3_def)
  then obtain q4 where r4: "reg_error ''expecting register, unknown operand:%s'' (Suc (Suc p)) s3 = Inr ((-1, Suc (Suc p)),
      s3\<lparr>gs_msgs := gs_msgs s3 @ [As_bad ''expecting register, unknown operand:%s''], gs_ilp := q4\<rparr>)" by (rule reg_error_returns)
  define s4 where "s4 = s3\<lparr>gs_msgs := gs_msgs s3 @ [As_bad ''expecting register, unknown operand:%s''], gs_ilp := q4\<rparr>"
  have e4: "parse_register_operand (Suc (Suc p)) s3 = Inr ((-1, Suc (Suc p)), s4)"
    using digit_register [of "Suc (Suc p)" s3 d2] p2 assms(2) r4 by (simp add: s1_def s2_def s3_def s4_def)
  have "NUL \<in> set (drop (Suc (Suc p)) (gs_buf s4))" using p2 assms(5) by (simp add: s1_def s2_def s3_def s4_def)
  then obtain e where e: "scan (\<lambda>c. c = NUL) (Suc (Suc p)) s4 = Inr (e, s4)" by (rule scan_exists) simp
  have "\<exists>t. warn_rest e s4 = Inr ((), t) \<and> set (gs_msgs s4) \<subseteq> set (gs_msgs t)"
  proof -
    have "e < length (gs_buf s4)" using scan_bound [OF e] .
    then show ?thesis by (auto simp: warn_rest_def)
  qed
  then obtain t where t: "warn_rest e s4 = Inr ((), t)" "set (gs_msgs s4) \<subseteq> set (gs_msgs t)" by blast
  have "parse_rdab ops p s = Inr ((0, ops\<lparr>Rd := 10 * (schar d1 - 48) + (schar d2 - 48), RSa := -1, RSb := -1\<rparr>), t)"
    by (simp add: parse_rdab_def c1 n b1 e2 e4 e t(1) Let_def)
  then show "\<exists>ops' s'. parse_rdab ops p s = Inr ((0, ops'), s') \<and> RSa ops' = -1 \<and>
      As_bad ''number regsiters require '$' or 'R': %s'' \<in> set (gs_msgs s')"
    using t(2) by (auto simp: s2_def s3_def s4_def)
qed

theorem numbered_registers_witness:
  "\<exists>ops s. parse_rdab \<lparr>Rd = 0, RSa = 0, RSb = 0, imm = 0, imm_expr = no_expr\<rparr> 0
      (start_state (''$12,sp,fp,$1,'' @ [NUL])) = Inr ((0, ops), s) \<and> RSa ops = -1"
proof -
  have "isdigit CHR ''1''" "isdigit CHR ''2''" by (simp_all add: isdigit_def)
  then show ?thesis
    using numbered_registers [of "CHR ''1''" "CHR ''2''" 0 "start_state (''$12,sp,fp,$1,'' @ [NUL])" "''sp,fp,$1,'' @ [NUL]" 10 "[NUL]"
        "\<lparr>Rd = 0, RSa = 0, RSb = 0, imm = 0, imm_expr = no_expr\<rparr>"]
    by (simp add: start_state_def) blast
qed

text \<open>
  C40: \<open>gp\<close> as the last register. Where the code means to compare the character after \<open>gp\<close>
  with a comma it assigns one, over the NUL that ends the line; the search for the end of the
  line then leaves it, and leaves the buffer when no other NUL follows.
\<close>

theorem gp_last_overruns:
  assumes "a < 32" "b < 32" "NUL \<notin> set rest"
    and "drop p (gs_buf s) = fusion_gpreg_name ! a @ '','' @ fusion_gpreg_name ! b @ '',gp'' @ NUL # rest"
  shows "parse_rdab ops p s = Inl Out_of_bounds"
proof -
  have n3: "fusion_gpreg_name ! 3 = ''gp''" by (simp add: fusion_gpreg_name_def)
  have nil: "\<forall>x \<in> set []. blank x" by simp
  have d: "drop p (gs_buf s) = [] @ fusion_gpreg_name ! a @ CHR '','' # [] @ fusion_gpreg_name ! b @ CHR '','' # ''gp'' @ NUL # rest"
    using assms(4) by simp
  obtain q1 r1 where 1: "skip_blanks p s = Inr (q1, s)" "parse_register_operand q1 s = Inr ((int a, r1), s)"
    "\<forall>msg. comma msg r1 s = Inr (Suc r1, s)"
    and d1: "drop (Suc r1) (gs_buf s) = [] @ fusion_gpreg_name ! b @ CHR '','' # ''gp'' @ NUL # rest"
    using assms(1) d nil by (rule blank_register_comma)
  obtain q2 r2 where 2: "skip_blanks (Suc r1) s = Inr (q2, s)" "parse_register_operand q2 s = Inr ((int b, r2), s)"
    "\<forall>msg. comma msg r2 s = Inr (Suc r2, s)" and d2: "drop (Suc r2) (gs_buf s) = ''gp'' @ NUL # rest"
    using assms(2) d1 nil by (rule blank_register_comma)
  define q where "q = Suc r2 + 2"
  define s' where "s' = s\<lparr>gs_buf := (gs_buf s)[q := CHR '','']\<rparr>"
  have 3: "skip_blanks (Suc r2) s = Inr (Suc r2, s)" using skip_blanks_drop [of "Suc r2" s "[]" "CHR ''g''"] d2 by (simp add: blank_def)
  have 4: "parse_register_operand (Suc r2) s = Inr ((3, q), s')"
    using parse_register_name [of 3 "Suc r2" s "[]" NUL rest] d2
    by (simp add: n3 after_register_def blank_def NUL_def q_def s'_def)
  have "drop q (gs_buf s) = NUL # rest" using drop_next [of "Suc r2" "gs_buf s" "''gp''"] d2 by (simp add: q_def)
  then have "drop q (gs_buf s') = CHR '','' # rest"
    by (simp add: s'_def drop_update_swap)
  moreover have "scan_from (\<lambda>c. c = NUL) xs k = Inl Out_of_bounds" if "NUL \<notin> set xs" for xs k
    using that by (induction xs arbitrary: k) auto
  ultimately have "scan (\<lambda>c. c = NUL) q s' = Inl Out_of_bounds"
    using assms(3) by (simp add: scan_def NUL_def)
  then show ?thesis by (simp add: parse_rdab_def 1 2 3 4 Let_def)
qed

theorem gp_last_overruns_witness:
  "parse_rdab \<lparr>Rd = 0, RSa = 0, RSb = 0, imm = 0, imm_expr = no_expr\<rparr> 0 (start_state (''sp,fp,gp'' @ [NUL])) = Inl Out_of_bounds"
  by (rule gp_last_overruns [of 1 2 "[]"]) (simp_all add: fusion_gpreg_name_def start_state_def)

text \<open>
  C35: the names of the registers. After any blanks, every register name is recognised as its
  number, the position moves by the length of the name, and the state is the one described by
  \<open>after_register\<close>: unchanged when the character after the name is accepted, otherwise with one
  error message; only \<open>gp\<close> writes a comma over the character after it.
\<close>

theorem register_names:
  assumes "i < 32" "drop p (gs_buf s) = w @ fusion_gpreg_name ! i @ t # rest" "\<forall>b \<in> set w. blank b"
    and "i = 12 \<longrightarrow> t \<noteq> CHR ''0''"
  shows "parse_register_operand p s =
    Inr ((int i, p + length (fusion_gpreg_name ! i)),
      after_register i (p + length w + length (fusion_gpreg_name ! i)) t s)"
  using assms by (rule parse_register_name)

theorem register_names_witness:
  "parse_register_operand 3 (start_state ''lw sp)'') =
     Inr ((1, 5), (start_state ''lw sp)'')\<lparr>gs_msgs := [As_bad ''not a real register: %s'']\<rparr>)"
  using register_names [of 1 3 "start_state ''lw sp)''" "[]" "CHR '')''" "[]"]
  by (simp add: fusion_gpreg_name_def start_state_def after_register_def accepts_after_def sep4_def NUL_def)

end
