(* ===== verification/Tc_Assemble.thy ===== *)
theory Tc_Assemble
  imports Tc_Parse
begin

text \<open>
  The assembler proper of \<^verbatim>\<open>gas/config/tc-fusion.c\<close>: instructions under construction and
  their place in the fragments, the tables filled by \<open>md_begin\<close>, macro expansion, the choice of
  a relocation and \<open>md_assemble\<close>. Debug line information (\<open>dwarf2_emit_insn\<close>) is not modelled.
\<close>

subsection \<open>Instructions and fragments\<close>

text \<open>
  \<open>cl_frag\<close> is the number of the fragment and \<open>fixptr\<close> the number of the fixup of the
  current section; \<open>None\<close> is the null pointer.
\<close>

record fusion_cl_insn =
  insn_mo :: fusion_opc_info_t
  insn_word :: insn_t
  cl_frag :: "nat option"
  frag_offset :: nat
  fixptr :: "nat option"

definition create_insn :: "fusion_opc_info_t \<Rightarrow> fusion_cl_insn" where
  "create_insn mo = \<lparr>insn_mo = mo, insn_word = opc_opc mo, cl_frag = None, frag_offset = 0, fixptr = None\<rparr>"

definition md_number_to_chars :: "bytes \<Rightarrow> nat \<Rightarrow> bfd_vma \<Rightarrow> int \<Rightarrow> bytes result" where
  "md_number_to_chars p a use nbytes = number_to_chars_bigendian p a use nbytes"

definition install_insn :: "fusion_cl_insn \<Rightarrow> unit gas" where
  "install_insn ip = (\<lambda>s.
     case cl_frag ip of
       None \<Rightarrow> Inl Null_pointer
     | Some i \<Rightarrow>
         rbind (rd8 (gs_frags s) i) (\<lambda>fr.
         rbind (md_number_to_chars (fr_literal fr) (frag_offset ip) (ucast (insn_word ip)) 4) (\<lambda>lit.
         Inr ((), upd_frag i (\<lambda>fr. fr\<lparr>fr_literal := lit\<rparr>) s))))"

definition upd_fix :: "nat \<Rightarrow> (fixS \<Rightarrow> fixS) \<Rightarrow> unit gas" where
  "upd_fix n f = (\<lambda>s. rbind (rd8 (gs_fixes s) n) (\<lambda>fix. Inr ((), s\<lparr>gs_fixes := (gs_fixes s)[n := f fix]\<rparr>)))"

definition move_insn :: "fusion_cl_insn \<Rightarrow> nat \<Rightarrow> nat \<Rightarrow> fusion_cl_insn gas" where
  "move_insn ip fr off =
     (let ip = ip\<lparr>cl_frag := Some fr, frag_offset := off\<rparr> in
      gbind (case fixptr ip of None \<Rightarrow> gret ()
             | Some n \<Rightarrow> upd_fix n (\<lambda>fix. fix\<lparr>fx_frag := Some fr, fx_where := off\<rparr>)) (\<lambda>_.
      gbind (install_insn ip) (\<lambda>_. gret ip)))"

definition add_fixed_insn :: "fusion_cl_insn \<Rightarrow> fusion_cl_insn gas" where
  "add_fixed_insn ip = gbind (frag_more 4) (\<lambda>f s. move_insn ip (frag_now s) f s)"

subsection \<open>The tables of names\<close>

datatype reg_file = REGF_GPR | REGF_FPR | REGF_SYS | REGF_MAX

fun reg_file_num :: "reg_file \<Rightarrow> c_uint" where
  "reg_file_num REGF_GPR = 0"
| "reg_file_num REGF_FPR = 1"
| "reg_file_num REGF_SYS = 2"
| "reg_file_num REGF_MAX = 3"

definition ENCODE_REG_HASH :: "reg_file \<Rightarrow> c_uint \<Rightarrow> 64 word" where
  "ENCODE_REG_HASH rf n = ucast (n * reg_file_num REGF_MAX + reg_file_num rf + 1)"

definition DECODE_REG_FILE :: "64 word \<Rightarrow> 64 word" where
  "DECODE_REG_FILE h = (h - 1) mod ucast (reg_file_num REGF_MAX)"

definition DECODE_REG_NUM :: "64 word \<Rightarrow> 64 word" where
  "DECODE_REG_NUM h = (h - 1) div ucast (reg_file_num REGF_MAX)"

definition hash_reg_name :: "reg_file \<Rightarrow> string \<Rightarrow> c_uint \<Rightarrow> unit gas" where
  "hash_reg_name regf name n = (\<lambda>s.
     case reg_names_hash s of
       None \<Rightarrow> Inl Null_pointer
     | Some t \<Rightarrow>
         rbind (hash_insert t name (ENCODE_REG_HASH regf n)) (\<lambda>(retval, t).
         case retval of
           Some _ \<Rightarrow> Inl (Fatal ''internal error: can't hash `%s': %s'')
         | None \<Rightarrow> Inr ((), s\<lparr>reg_names_hash := Some t\<rparr>)))"

fun reg_names_loop :: "reg_file \<Rightarrow> string list \<Rightarrow> nat list \<Rightarrow> unit gas" where
  "reg_names_loop regf names [] = gret ()"
| "reg_names_loop regf names (i # is) =
     gbind (glift (rd8 names i)) (\<lambda>nm.
     gbind (hash_reg_name regf nm (of_nat i)) (\<lambda>_. reg_names_loop regf names is))"

definition hash_reg_names :: "reg_file \<Rightarrow> string list \<Rightarrow> nat \<Rightarrow> unit gas" where
  "hash_reg_names regf names n = reg_names_loop regf names [0..<n]"

definition reg_lookup_internal :: "string \<Rightarrow> reg_file \<Rightarrow> c_uint gas" where
  "reg_lookup_internal nm regf = (\<lambda>s.
     case reg_names_hash s of
       None \<Rightarrow> Inl Null_pointer
     | Some t \<Rightarrow>
         rbind (hash_find t nm) (\<lambda>(r, t).
         let s = s\<lparr>reg_names_hash := Some t\<rparr> in
         case r of
           None \<Rightarrow> Inr (-1, s)
         | Some h \<Rightarrow>
             if DECODE_REG_FILE h \<noteq> ucast (reg_file_num regf) then Inr (-1, s)
             else Inr (ucast (DECODE_REG_NUM h), s)))"

definition validate_fusion_insn :: "fusion_opc_info_t \<Rightarrow> bool" where
  "validate_fusion_insn opc = True"

text \<open>
  The loop over \<open>fusion_insn_all\<close>: a name is entered once, for the first of the consecutive
  entries that have it. The list is the rest of the array.
\<close>

function op_names_loop ::
  "fusion_opc_info_t list \<Rightarrow> fusion_opc_info_t hash_control \<Rightarrow> fusion_opc_info_t hash_control result" where
  "op_names_loop [] t = Inl Out_of_bounds"
| "op_names_loop (e # es) t =
     (case opc_name e of
        None \<Rightarrow> Inr t
      | Some name \<Rightarrow>
          rbind (hash_insert t name e) (\<lambda>(hash_error, t).
          if hash_error \<noteq> None then Inl (Fatal ''Assembler is broken. I'm not touching that file, fix me plz.'')
          else if \<not> list_all validate_fusion_insn (e # takeWhile (\<lambda>e. opc_name e = Some name) es)
          then Inl (Fatal ''Assembler is broken. Instruction not valid'')
          else op_names_loop (dropWhile (\<lambda>e. opc_name e = Some name) es) t))"
  by pat_completeness auto
termination
  by (relation "measure (\<lambda>(es, t). length es)") (auto simp: le_imp_less_Suc length_dropWhile_le)

definition record_alignment :: "nat \<Rightarrow> gas_state \<Rightarrow> gas_state" where
  "record_alignment align s = (if align > gs_text_align s then s\<lparr>gs_text_align := align\<rparr> else s)"

text \<open>\<open>arch_ok\<close> is the value of \<open>bfd_set_arch_mach (stdoutput, bfd_arch_fusion, 0)\<close>.\<close>

definition md_begin :: "bool \<Rightarrow> unit gas" where
  "md_begin arch_ok =
     gbind (if arch_ok then gret () else as_warn ''Couldn't set architecture and machine'') (\<lambda>_.
     gbind (glift (op_names_loop fusion_insn_all hash_new)) (\<lambda>t.
     gbind (\<lambda>s. Inr ((), s\<lparr>op_hash_ctrl := Some t, reg_names_hash := Some hash_new\<rparr>)) (\<lambda>_.
     gbind (hash_reg_names REGF_GPR fusion_gpreg_name 32) (\<lambda>_.
     gbind (hash_reg_names REGF_GPR fusion_gpreg_num 32) (\<lambda>_.
     (\<lambda>s. Inr ((), record_alignment 2 s)))))))"

definition tc_fusion_regname_to_dw2regnum :: "string \<Rightarrow> int gas" where
  "tc_fusion_regname_to_dw2regnum regname =
     gbind (reg_lookup_internal regname REGF_GPR) (\<lambda>r.
     if sint r \<ge> 0 then gret (sint r)
     else gbind (as_bad (''unknown register `%s'' @ [CHR 0x27])) (\<lambda>_. gret (-1)))"

subsection \<open>Putting instructions out\<close>

definition fusion_apply_const_reloc :: "bfd_reloc_code \<Rightarrow> bfd_vma \<Rightarrow> insn_t result" where
  "fusion_apply_const_reloc reloc_type val =
     (case reloc_type of
        BFD_RELOC_32 \<Rightarrow> Inr (ucast val)
      | BFD_RELOC_16_PCREL \<Rightarrow> Inr (ucast (GET_IMM_LI val))
      | BFD_RELOC_16 \<Rightarrow> Inr (ucast (GET_IMM_LI val))
      | BFD_RELOC_HI16_PCREL \<Rightarrow> Inr (ucast (GET_IMM_LI (drop_bit 16 val)))
      | BFD_RELOC_FUSION_HI16 \<Rightarrow> Inr (ucast (GET_IMM_LI (drop_bit 16 val)))
      | BFD_RELOC_8 \<Rightarrow> Inr (ucast (GEN_SYS_IMM val))
      | BFD_RELOC_FUSION_STORE \<Rightarrow> Inr (ucast (GEN_S_IMM val))
      | BFD_RELOC_FUSION_LOAD \<Rightarrow> Inr (ucast (GEN_L_IMM val))
      | BFD_RELOC_FUSION_12 \<Rightarrow> Inr (ucast (GEN_I_IMM val))
      | BFD_RELOC_FUSION_21 \<Rightarrow> Inr (ucast (GEN_J_IMM val))
      | _ \<Rightarrow> Inl Abort)"

definition append_insn :: "fusion_cl_insn \<Rightarrow> expressionS option \<Rightarrow> bfd_reloc_code \<Rightarrow> unit gas" where
  "append_insn ip addr_expr reloc_type =
     gbind
       (if reloc_type \<noteq> BFD_RELOC_UNUSED then
          gbind (gas_assert (addr_expr \<noteq> None)) (\<lambda>_.
          gbind (glift (fusion_reloc_type_lookup reloc_type)) (\<lambda>howto.
          case howto of
            None \<Rightarrow> gbind (as_bad ''Unsupported Fusion-Core relocation number: %d'') (\<lambda>_. gfail Null_pointer)
          | Some howto \<Rightarrow>
              gbind (glift (bfd_get_reloc_size howto)) (\<lambda>sz.
              gbind (fix_new_exp (cl_frag ip) (frag_offset ip) sz (the addr_expr) False reloc_type) (\<lambda>(n, _).
              gbind (upd_fix n (\<lambda>fix. fix\<lparr>fx_tcbit := False\<rparr>)) (\<lambda>_.
              gret (ip\<lparr>fixptr := Some n\<rparr>))))))
        else gret ip) (\<lambda>ip.
     gbind (add_fixed_insn ip) (\<lambda>ip. install_insn ip))"

subsection \<open>Macros\<close>

text \<open>
  \<open>macro_build\<close> has a format and a variable list of arguments, which are registers and
  relocation codes.
\<close>

datatype macro_arg = Arg_reg int | Arg_reloc bfd_reloc_code

fun macro_args ::
  "string \<Rightarrow> macro_arg list \<Rightarrow> bool \<Rightarrow> insn_t \<Rightarrow> bfd_reloc_code \<Rightarrow> (insn_t \<times> bfd_reloc_code) result" where
  "macro_args [] args has_ep w r = Inr (w, r)"
| "macro_args (c # fmt) args has_ep w r =
     (if c = CHR ''d'' then
        (case args of Arg_reg x # args \<Rightarrow> macro_args fmt args has_ep (w OR GEN_RD (of_int x)) r | _ \<Rightarrow> Inl Out_of_bounds)
      else if c = CHR ''a'' then
        (case args of Arg_reg x # args \<Rightarrow> macro_args fmt args has_ep (w OR GEN_RSA (of_int x)) r | _ \<Rightarrow> Inl Out_of_bounds)
      else if c = CHR ''b'' then
        (case args of Arg_reg x # args \<Rightarrow> macro_args fmt args has_ep (w OR GEN_RSB (of_int x)) r | _ \<Rightarrow> Inl Out_of_bounds)
      else if c \<in> {CHR ''s'', CHR ''i'', CHR ''u'', CHR ''j''} then
        (if has_ep then
           (case args of Arg_reloc r # args \<Rightarrow> macro_args fmt args has_ep w r | _ \<Rightarrow> Inl Out_of_bounds)
         else Inl Abort)
      else if c = CHR '','' then macro_args fmt args has_ep w r
      else Inl (Fatal ''internal error: invalid macro. nice one''))"

definition macro_word :: "fusion_opc_info_t \<Rightarrow> insn_t" where
  "macro_word mo = GEN_OPC (opc_opc mo) OR
     (if opc_opc mo = OPC_LI then GEN_DSEL_LI (opc_index mo)
      else if opc_opc mo = OPC_IMM then GEN_ALUOP (opc_index mo)
      else if opc_opc mo = OPC_LD then GEN_FUNCT_L (opc_index mo)
      else if opc_opc mo = OPC_ST then GEN_FUNCT_S (opc_index mo)
      else 0)"

definition find_op :: "string \<Rightarrow> fusion_opc_info_t option gas" where
  "find_op name = (\<lambda>s.
     case op_hash_ctrl s of
       None \<Rightarrow> Inl Null_pointer
     | Some t \<Rightarrow> rbind (hash_find t name) (\<lambda>(r, t). Inr (r, s\<lparr>op_hash_ctrl := Some t\<rparr>)))"

definition macro_build :: "expressionS option \<Rightarrow> string \<Rightarrow> string \<Rightarrow> macro_arg list \<Rightarrow> unit gas" where
  "macro_build ep name fmt args =
     gbind (find_op name) (\<lambda>mo.
     case mo of
       None \<Rightarrow> gfail Null_pointer
     | Some mo \<Rightarrow>
         gbind (gas_assert (opc_name mo = Some name)) (\<lambda>_.
         gbind (glift (macro_args fmt args (ep \<noteq> None) (macro_word mo) BFD_RELOC_UNUSED)) (\<lambda>(w, r).
         gbind (gas_assert (if r = BFD_RELOC_UNUSED then ep = None else ep \<noteq> None)) (\<lambda>_.
         append_insn ((create_insn mo)\<lparr>insn_word := w\<rparr>) ep r))))"

definition IS_ZEXT_32BIT_NUM :: "offsetT \<Rightarrow> bool" where
  "IS_ZEXT_32BIT_NUM x \<longleftrightarrow> x AND NOT 0xffffffff = 0 \<or> x AND NOT 0x7fffffff = NOT 0xffffffff"

definition IS_SEXT_32BIT_NUM :: "offsetT \<Rightarrow> bool" where
  "IS_SEXT_32BIT_NUM x \<longleftrightarrow> x AND NOT 0x7fffffff = 0 \<or> x AND NOT 0x7fffffff = NOT 0x7fffffff"

definition normalize_constant_expr :: "expressionS \<Rightarrow> expressionS" where
  "normalize_constant_expr ex =
     (if (X_op ex = O_constant \<or> X_op ex = O_symbol) \<and> IS_ZEXT_32BIT_NUM (X_add_number ex)
      then ex\<lparr>X_add_number := ((X_add_number ex AND 0xffffffff) XOR 0x80000000) - 0x80000000\<rparr>
      else ex)"

definition check_absolute_expr :: "fusion_cl_insn \<Rightarrow> expressionS \<Rightarrow> expressionS gas" where
  "check_absolute_expr ip ex =
     gbind (if X_op ex = O_big then as_bad ''unsupported large constand; dat num too numb''
            else if X_op ex \<noteq> O_constant
            then as_bad ''instruction %s requires absolute expression; get that outa here''
            else gret ()) (\<lambda>_. gret (normalize_constant_expr ex))"

definition fusion_call :: "int \<Rightarrow> expressionS \<Rightarrow> unit gas" where
  "fusion_call tmp ep =
     (let low = ucast (ucast (X_add_number ep) AND 0x0000ffff :: 32 word);
          lower = ep\<lparr>X_add_number := low\<rparr>;
          upper = ep\<lparr>X_add_number := X_add_number ep - low\<rparr> in
      gbind (macro_build (Some upper) ''lui'' ''d,i'' [Arg_reg tmp, Arg_reloc BFD_RELOC_FUSION_HI16]) (\<lambda>_.
      macro_build (Some lower) ''jrl'' ''a,j'' [Arg_reg tmp, Arg_reloc BFD_RELOC_FUSION_21]))"

definition fusion_return :: "expressionS \<Rightarrow> unit gas" where
  "fusion_return ep =
     macro_build (Some (ep\<lparr>X_add_number := 0\<rparr>)) ''jr'' ''a,j'' [Arg_reg 4, Arg_reloc BFD_RELOC_FUSION_21]"

definition load_const :: "int \<Rightarrow> expressionS \<Rightarrow> unit gas" where
  "load_const reg ep =
     (let lower = ucast (ucast (X_add_number ep) AND 0xffff :: 32 word) :: offsetT;
          upper = X_add_number ep - lower in
      if X_op ep \<noteq> O_constant then as_bad ''unsupported large constant''
      else
        gbind (if upper \<noteq> 0 then
                 gbind (macro_build (Some ep) ''lui'' ''d, u'' [Arg_reg reg, Arg_reloc BFD_RELOC_FUSION_HI16]) (\<lambda>_.
                 gret reg)
               else gret 0) (\<lambda>hi_reg.
        if lower \<noteq> 0 \<or> hi_reg = 0 then
          macro_build (Some ep) ''li'' ''d, u'' [Arg_reg reg, Arg_reloc BFD_RELOC_16]
        else gret ()))"

definition load_address :: "int \<Rightarrow> expressionS \<Rightarrow> unit gas" where
  "load_address reg ep =
     gbind (if X_op ep \<noteq> O_constant \<and> X_op ep \<noteq> O_symbol then
              gbind (as_bad (''expression should be constant or symbol. can't knock on a door without an address. '' @
                [CHR 0x0A] @ '' No loading in a red zone.''))
                (\<lambda>_. gret (ep\<lparr>X_op := O_constant\<rparr>))
            else gret ep) (\<lambda>ep.
     if X_op ep = O_constant then load_const reg ep
     else if IS_SEXT_32BIT_NUM (X_add_number ep) then
       gbind (macro_build (Some ep) ''lui'' ''d,i'' [Arg_reg reg, Arg_reloc BFD_RELOC_FUSION_HI16]) (\<lambda>_.
       macro_build (Some ep) ''lni'' ''d,i'' [Arg_reg reg, Arg_reloc BFD_RELOC_16])
     else gret ())"

definition macro :: "fusion_cl_insn \<Rightarrow> expressionS \<Rightarrow> unit gas" where
  "macro ip e =
     (let rd = uint (GET_RD (insn_word ip)); macro_id = opc_index (insn_mo ip) in
      if opc_cpid (insn_mo ip) \<noteq> CPID_MACRO then as_bad ''Not a macro, broken assembler''
      else if macro_id = M_LA then load_address rd e
      else if macro_id = M_CALL then fusion_call 22 e
      else if macro_id = M_RET then fusion_return e
      else as_bad ''Macro %s not implemented'')"

subsection \<open>Relocations of the operands\<close>

definition return_reloc :: "fusion_opc_info_t \<Rightarrow> bfd_reloc_code gas" where
  "return_reloc insn =
     (let opc = opc_opc insn; idx = opc_index insn;
          jump =
            (if opc_cpid insn = CPID_MACRO then gret BFD_RELOC_FUSION_21
             else if idx = 0 then gret BFD_RELOC_FUSION_21_PCREL
             else if idx = 1 then gret BFD_RELOC_FUSION_21
             else gfail (Fatal
               ''What did you do?? That jump insn can't have a third option in whether it uses regs or not'')) in
      if opc = OPC_INT then gret BFD_RELOC_UNUSED
      else if opc = OPC_IMM then gret BFD_RELOC_FUSION_12
      else if opc = OPC_LD then gret BFD_RELOC_FUSION_LOAD
      else if opc = OPC_ST then gret BFD_RELOC_FUSION_STORE
      else if opc = OPC_LI then
        gret (if idx \<in> {3, 4, 5, 11, 12, 13} then BFD_RELOC_FUSION_HI16 else BFD_RELOC_16)
      else if opc = OPC_JMP then jump
      else if opc = OPC_JLNK then jump
      else if opc = OPC_BRANCH then gret BFD_RELOC_FUSION_14_PCREL
      else if opc = OPC_SYS then
        gret (if opc_imm_mask insn = MASK_NO_IMM then BFD_RELOC_UNUSED else BFD_RELOC_8)
      else if opc = 0x00 then gret BFD_RELOC_UNUSED
      else gbind (as_bad ''Unknown opcode, how did you manage that?: %s'') (\<lambda>_. gret BFD_RELOC_UNUSED))"

subsection \<open>Assembling a line\<close>

text \<open>
  The operands of an instruction without an immediate and with one; \<open>None\<close> when a register
  is unknown. The results of the operand parsers are ignored by the code.
\<close>

definition operands_no_imm :: "c_uint \<Rightarrow> operands \<Rightarrow> nat \<Rightarrow> operands option gas" where
  "operands_no_imm args ops op_end =
     gbind
       (if args = USE_NONE then
          gbind (skip_blanks op_end) (\<lambda>p. gbind (warn_rest p) (\<lambda>_. gret ops))
        else if args = USE_RDAB then gbind (parse_rdab ops op_end) (\<lambda>(_, ops). gret ops)
        else if args = USE_RDA then gbind (parse_rda ops op_end) (\<lambda>(_, ops). gret ops)
        else if args = USE_RAB then gbind (parse_rab ops op_end) (\<lambda>(_, ops). gret ops)
        else gret ops) (\<lambda>ops.
     if Rd ops = -1 \<or> RSa ops = -1 \<or> RSb ops = -1
     then gbind (as_bad ''unknown register used %s'') (\<lambda>_. gret None)
     else gret (Some ops))"

definition operands_imm ::
  "expressionS gas \<Rightarrow> bfd_reloc_code \<Rightarrow> c_uint \<Rightarrow> c_uint \<Rightarrow> operands \<Rightarrow> nat \<Rightarrow> operands gas" where
  "operands_imm expression reloc cpid args ops op_end =
     (if args = USE_RDAI then gbind (parse_rdai expression reloc ops op_end) (\<lambda>(_, ops, _). gret ops)
      else if args = USE_RDI then gbind (parse_rdi expression reloc ops op_end) (\<lambda>(_, ops, _). gret ops)
      else if args = USE_RAI then gbind (parse_rai expression reloc ops op_end) (\<lambda>(_, ops, _). gret ops)
      else if args = USE_RABI then gbind (parse_rabi expression reloc ops op_end) (\<lambda>(_, ops, _). gret ops)
      else if args = USE_RDAI_O then gbind (parse_rdai_offset expression reloc ops op_end) (\<lambda>(_, ops). gret ops)
      else if args = USE_RAI_O then gbind (parse_rai_offset expression reloc cpid ops op_end) (\<lambda>(_, ops). gret ops)
      else if args = USE_RABI_O then gbind (parse_rabi_offset expression reloc ops op_end) (\<lambda>(_, ops). gret ops)
      else if args = USE_I then
        gbind (parse_imm expression reloc ops op_end) (\<lambda>(ops, p).
        gbind (skip_blanks p) (\<lambda>p. gbind (peek p) (\<lambda>_. gret ops)))
      else gret ops)"

text \<open>The instruction word, the expression and the relocation that the opcode gives.\<close>

definition build_word ::
  "fusion_cl_insn \<Rightarrow> bfd_reloc_code \<Rightarrow> operands \<Rightarrow> (fusion_cl_insn \<times> expressionS \<times> bfd_reloc_code) gas" where
  "build_word ip reloc ops =
     (let insn = insn_mo ip; opc = opc_opc insn; idx = opc_index insn; e = imm_expr ops;
          rd = of_int (Rd ops); rsa = of_int (RSa ops); rsb = of_int (RSb ops);
          ret = (\<lambda>w. gret (ip\<lparr>insn_word := w\<rparr>, e, reloc));
          jump = (\<lambda>w. gret (ip\<lparr>insn_word := w\<rparr>, e, if RSa ops \<noteq> 0 then BFD_RELOC_FUSION_21 else reloc)) in
      if opc = OPC_INT then ret (MAKE_R_TYPE rd rsa rsb 0 idx)
      else if opc = OPC_IMM then
        gbind (check_absolute_expr ip e) (\<lambda>e.
        gret (ip\<lparr>insn_word := MAKE_I_TYPE rd rsa (imm ops) idx\<rparr>, e, reloc))
      else if opc = OPC_LD then ret (MAKE_L_TYPE rd rsa idx (imm ops))
      else if opc = OPC_ST then ret (MAKE_S_TYPE idx rsa rsb (imm ops))
      else if opc = OPC_LI then ret (MAKE_LI_TYPE rd idx (imm ops))
      else if opc = OPC_JMP then jump (MAKE_J_TYPE rsa (imm ops))
      else if opc = OPC_JLNK then jump (MAKE_JL_TYPE rsa (imm ops))
      else if opc = OPC_BRANCH then ret (MAKE_B_TYPE rsa rsb (imm ops) idx)
      else if opc = OPC_SYS then ret (MAKE_SYS_TYPE rd rsa idx (imm ops))
      else if opc = 0x00 then ret 0
      else gbind (as_bad ''Unknown opcode, how did you manage that?: %s'') (\<lambda>_. ret 0))"

text \<open>
  \<open>None\<close> is the value \<open>FALSE\<close>. \<open>e0\<close> is the expression passed in, of which only \<open>X_op\<close> is
  initialised.
\<close>

definition assemble_insn_bin ::
  "expressionS gas \<Rightarrow> nat \<Rightarrow> fusion_cl_insn \<Rightarrow> expressionS
     \<Rightarrow> (fusion_cl_insn \<times> expressionS \<times> bfd_reloc_code) option gas" where
  "assemble_insn_bin expression str ip e0 =
     (let insn = insn_mo ip; cpid = opc_cpid insn; args = opc_args insn;
          ops = \<lparr>Rd = 0, RSa = 0, RSb = 0, imm = 0, imm_expr = e0\<lparr>X_op := O_absent\<rparr>\<rparr> in
      gbind (return_reloc insn) (\<lambda>reloc.
      if cpid > CPID_MAX then gbind (as_bad ''Unknown co-processor instruction: %s'') (\<lambda>_. gret None)
      else if cpid = CPID_MAIN \<or> cpid = CPID_MACRO then
        if args > MAX_USE_OP then gbind (as_bad ''Incorrect arguments, what did you do? insn: %s'') (\<lambda>_. gret None)
        else
          gbind (if opc_imm_mask insn = MASK_NO_IMM then operands_no_imm args ops str
                 else gbind (operands_imm expression reloc cpid args ops str) (\<lambda>ops. gret (Some ops))) (\<lambda>ops.
          case ops of
            None \<Rightarrow> gret None
          | Some ops \<Rightarrow> gbind (build_word ip reloc ops) (\<lambda>r. gret (Some r)))
      else gbind (as_bad ''No co-processor instructions exist yet, don't know what this is: %s'') (\<lambda>_. gret None)))"

text \<open>The string that starts at \<open>p\<close>, up to its NUL.\<close>

definition c_string :: "nat \<Rightarrow> string gas" where
  "c_string p = gbind (scan (\<lambda>c. c = NUL) p) (\<lambda>q s. Inr (take (q - p) (drop p (gs_buf s)), s))"

definition emit_line :: "expressionS gas \<Rightarrow> expressionS \<Rightarrow> nat \<Rightarrow> fusion_opc_info_t \<Rightarrow> unit gas" where
  "emit_line expression e0 op_end insn =
     gbind (assemble_insn_bin expression op_end (create_insn insn) e0) (\<lambda>r.
     case r of
       None \<Rightarrow> as_bad ''Couldn't assemble instruction:%s''
     | Some (ip, e, reloc) \<Rightarrow>
         gbind (if opc_cpid (insn_mo ip) = CPID_MACRO then macro ip e
                else if opc_cpid (insn_mo ip) = CPID_MAIN then append_insn ip (Some e) reloc
                else gfail (Fatal ''Unimplemented CPID'')) (\<lambda>_ s.
         if pending_reloc s then as_warn (''something forgot to clean up ooooooh'' @ [CHR 0x0A]) s else Inr ((), s)))"

definition md_assemble :: "expressionS gas \<Rightarrow> expressionS \<Rightarrow> nat \<Rightarrow> unit gas" where
  "md_assemble expression e0 str =
     gbind (skip_blanks str) (\<lambda>op_start.
     gbind (scan (\<lambda>c. c = NUL \<or> is_end_of_line c \<or> c = CHR '' '') op_start) (\<lambda>op_end.
     gbind (peek op_end) (\<lambda>pend.
     gbind (poke op_end NUL) (\<lambda>_.
     gbind (if op_end = op_start then as_bad ''couldn't find instruction'' else gret ()) (\<lambda>_.
     gbind (c_string op_start) (\<lambda>name.
     gbind (find_op name) (\<lambda>insn.
     gbind (poke op_end pend) (\<lambda>_.
     case insn of
       None \<Rightarrow> as_bad ''Unknown instruction: %s''
     | Some insn \<Rightarrow> emit_line expression e0 op_end insn))))))))"

subsection \<open>Specification\<close>

definition word_bytes :: "insn_t \<Rightarrow> bytes" where
  "word_bytes w = [ucast (drop_bit 24 w), ucast (drop_bit 16 w), ucast (drop_bit 8 w), ucast w]"

text \<open>
  \<open>emitted w fx s s'\<close>: the step from \<open>s\<close> to \<open>s'\<close> appends the word \<open>w\<close> to the section and the
  fixup \<open>fx\<close>, placed at the word, to the fixups, and changes nothing else but the fragments.
\<close>

definition place_fix :: "nat \<Rightarrow> nat \<Rightarrow> fixS \<Rightarrow> fixS" where
  "place_fix fr off f = f\<lparr>fx_frag := Some fr, fx_where := off\<rparr>"

definition emitted :: "insn_t \<Rightarrow> fixS option \<Rightarrow> gas_state \<Rightarrow> gas_state \<Rightarrow> bool" where
  "emitted w fx s s' \<longleftrightarrow> (\<exists>fs rs a.
     s' = s\<lparr>gs_frags := fs, gs_rooms := rs,
       gs_fixes := gs_fixes s @ (case fx of None \<Rightarrow> [] | Some f \<Rightarrow> [place_fix (length fs - 1) a f])\<rparr> \<and>
     fs \<noteq> [] \<and> a + 4 = length (fr_literal (last fs)) \<and>
     concat (map fr_literal fs) = section_bytes s @ word_bytes w)"

text \<open>The fixup of an expression that is absent, a constant or a symbol with an offset.\<close>

definition simple_expr :: "expressionS \<Rightarrow> bool" where
  "simple_expr e \<longleftrightarrow> X_op e \<in> {O_absent, O_constant, O_symbol}"

definition insn_fix :: "expressionS \<Rightarrow> bfd_reloc_code \<Rightarrow> fixS" where
  "insn_fix e r = \<lparr>fx_frag = None, fx_where = 0, fx_size = 4,
     fx_addsy = (if X_op e = O_symbol then X_add_symbol e else None), fx_subsy = None,
     fx_offset = (if X_op e = O_absent then 0 else X_add_number e), fx_pcrel = False, fx_r_type = r,
     fx_addnumber = 0, fx_tcbit = False, fx_done = False, fx_no_overflow = False, fx_signed = False\<rparr>"

definition insn_relocs :: "bfd_reloc_code set" where
  "insn_relocs = set imm_relocs - {BFD_RELOC_NONE}"

definition op_map :: "string \<rightharpoonup> fusion_opc_info_t" where
  "op_map = map_of (map (\<lambda>e. (the (opc_name e), e)) named_insns)"

definition reg_codes :: "string list \<Rightarrow> (string \<times> 64 word) list" where
  "reg_codes names = map (\<lambda>i. (names ! i, ENCODE_REG_HASH REGF_GPR (of_nat i))) [0..<32]"

definition reg_map :: "string \<rightharpoonup> 64 word" where
  "reg_map = map_of (reg_codes fusion_gpreg_name) ++ map_of (reg_codes fusion_gpreg_num)"

definition tables_ready :: "gas_state \<Rightarrow> bool" where
  "tables_ready s \<longleftrightarrow>
     (\<exists>t. op_hash_ctrl s = Some t \<and> hash_ok t \<and> hash_abs t = op_map) \<and>
     (\<exists>r. reg_names_hash s = Some r \<and> hash_ok r \<and> hash_abs r = reg_map)"

section \<open>Properties\<close>

subsection \<open>Emitting a word\<close>

lemma length_word_bytes [simp]: "length (word_bytes w) = 4"
  by (simp add: word_bytes_def)

lemma number_to_chars_word:
  assumes "a + 4 \<le> length p"
  shows "md_number_to_chars p a (ucast w) 4 = Inr (splice p a (word_bytes w))"
proof -
  have "nat 4 = Suc (Suc (Suc (Suc 0)))" by simp
  moreover have "(ucast (ucast w :: bfd_vma) :: bfd_byte) = ucast w"
    "(ucast (drop_bit 8 (ucast w :: bfd_vma)) :: bfd_byte) = ucast (drop_bit 8 w)"
    "(ucast (drop_bit 16 (ucast w :: bfd_vma)) :: bfd_byte) = ucast (drop_bit 16 w)"
    "(ucast (drop_bit 24 (ucast w :: bfd_vma)) :: bfd_byte) = ucast (drop_bit 24 w)"
    by (auto intro!: bit_word_eqI simp: bit_simps)
  ultimately have "md_number_to_chars p a (ucast w) 4 =
      Inr (p[a + 3 := ucast w, a + 2 := ucast (drop_bit 8 w), a + 1 := ucast (drop_bit 16 w), a := ucast (drop_bit 24 w)])"
    using assms by (simp add: md_number_to_chars_def number_to_chars_bigendian_def ucast_and_ff numeral_eq_Suc)
  also have "p[a + 3 := ucast w, a + 2 := ucast (drop_bit 8 w), a + 1 := ucast (drop_bit 16 w), a := ucast (drop_bit 24 w)] =
      splice p a (word_bytes w)"
    using assms by (intro nth_equalityI) (auto simp: nth_splice word_bytes_def nth_list_update nth_Cons' )
  finally show ?thesis .
qed

lemma splice_end: "splice (xs @ ys) (length xs) zs = xs @ zs" if "length zs = length ys"
  using that by (simp add: splice_def)

lemma splice_twice: "a + length vs \<le> length p \<Longrightarrow> length vs = length ws \<Longrightarrow> splice (splice p a vs) a ws = splice p a ws"
  by (intro nth_equalityI) (auto simp: nth_splice)

lemma install_insn_ok:
  assumes "cl_frag ip = Some i" "i < length (gs_frags s)" "frag_offset ip + 4 \<le> length (fr_literal (gs_frags s ! i))"
  shows "install_insn ip s = Inr ((), s\<lparr>gs_frags := (gs_frags s)[i := (gs_frags s ! i)
     \<lparr>fr_literal := splice (fr_literal (gs_frags s ! i)) (frag_offset ip) (word_bytes (insn_word ip))\<rparr>]\<rparr>)"
  using assms by (simp add: install_insn_def number_to_chars_word upd_frag_def)

lemma add_fixed_insn_ok:
  assumes "roomy 4 s" "gs_fixes s = fxs @ (case fx of None \<Rightarrow> [] | Some f \<Rightarrow> [f])"
    "fixptr ip = map_option (\<lambda>_. length fxs) fx"
  obtains ip' s' where "add_fixed_insn ip s = Inr (ip', s')" "install_insn ip' s' = Inr ((), s')"
    "emitted (insn_word ip) fx (s\<lparr>gs_fixes := fxs\<rparr>) s'" "\<forall>m. roomy (4 + m) s \<longrightarrow> roomy m s'"
proof -
  obtain a fs rs where m: "frag_more 4 s = Inr (a, s\<lparr>gs_frags := fs, gs_rooms := rs\<rparr>)" "fs \<noteq> []"
    "fr_literal (last fs) = take a (fr_literal (last fs)) @ replicate 4 0" "length (fr_literal (last fs)) = a + 4"
    "concat (map fr_literal (butlast fs)) @ take a (fr_literal (last fs)) = section_bytes s"
    and rooms: "\<forall>m. (\<exists>r \<in> set (gs_rooms s). 4 + m \<le> r) \<longrightarrow> (\<exists>r \<in> set rs. m \<le> r)"
    using assms(1) [unfolded roomy_def, THEN conjunct1] assms(1) [unfolded roomy_def, THEN conjunct2]
    by (rule frag_more_ok)
  obtain gs f where fs: "fs = gs @ [f]" using m(2) by (cases fs rule: rev_cases) auto
  define pre where "pre = take a (fr_literal f)"
  have f: "fr_literal f = pre @ replicate 4 0"
    using m(3) unfolding fs last_snoc pre_def .
  have pre: "length pre = a" "concat (map fr_literal gs) @ pre = section_bytes s"
    using m(4,5) by (simp_all add: fs pre_def)
  define w where "w = insn_word ip"
  define f' where "f' = f\<lparr>fr_literal := pre @ word_bytes w\<rparr>"
  define ip' where "ip' = ip\<lparr>cl_frag := Some (length gs), frag_offset := a\<rparr>"
  define fixs where "fixs = fxs @ (case fx of None \<Rightarrow> [] | Some f \<Rightarrow> [place_fix (length gs) a f])"
  define s' where "s' = s\<lparr>gs_frags := gs @ [f'], gs_rooms := rs, gs_fixes := fixs\<rparr>"
  have splice: "splice (pre @ ys) a (word_bytes w) = pre @ word_bytes w" if "length ys = 4" for ys
    using splice_end [of "word_bytes w" ys pre] that pre(1) by simp
  have fx': "(case fixptr ip of None \<Rightarrow> gret () | Some n \<Rightarrow> upd_fix n (place_fix (length gs) a)) (s\<lparr>gs_frags := fs, gs_rooms := rs\<rparr>) =
      Inr ((), s\<lparr>gs_frags := fs, gs_rooms := rs, gs_fixes := fixs\<rparr>)"
    using assms(2,3) by (cases fx) (simp_all add: upd_fix_def fixs_def)
  have install: "install_insn ip' (s\<lparr>gs_frags := fs, gs_rooms := rs, gs_fixes := fixs\<rparr>) = Inr ((), s')"
    by (subst install_insn_ok [of _ "length gs"])
       (simp_all add: fs ip'_def f pre splice [unfolded w_def] s'_def f'_def w_def)
  have "add_fixed_insn ip s = rbind (move_insn ip (length gs) a (s\<lparr>gs_frags := fs, gs_rooms := rs\<rparr>)) Inr"
    by (simp add: add_fixed_insn_def m(1) frag_now_def fs rbind_def split: sum.split)
  also have "\<dots> = Inr (ip', s')"
    using fx' install unfolding place_fix_def
    by (simp add: move_insn_def ip'_def Let_def)
  finally have "add_fixed_insn ip s = Inr (ip', s')" .
  moreover have "install_insn ip' s' = Inr ((), s')"
    by (subst install_insn_ok [of _ "length gs"]) (simp_all add: ip'_def s'_def f'_def f pre splice [unfolded w_def] w_def)
  moreover have "emitted (insn_word ip) fx (s\<lparr>gs_fixes := fxs\<rparr>) s'"
    unfolding emitted_def w_def [symmetric]
    by (intro exI [of _ "gs @ [f']"] exI [of _ rs] exI [of _ a])
       (use pre in \<open>cases fx; simp add: s'_def fixs_def f'_def section_bytes_def\<close>)
  moreover have "\<forall>m. roomy (4 + m) s \<longrightarrow> roomy m s'"
    using rooms by (simp add: roomy_def s'_def)
  ultimately show ?thesis by (rule that)
qed

lemma roomy_fixes [simp]: "roomy n (s\<lparr>gs_fixes := x\<rparr>) = roomy n s"
  by (simp add: roomy_def)

lemma insn_reloc_size:
  assumes "r \<in> insn_relocs"
  obtains h where "fusion_reloc_type_lookup r = Inr (Some h)" "bfd_get_reloc_size h = Inr 4"
proof -
  have "\<exists>h. fusion_reloc_type_lookup r = Inr (Some h) \<and> bfd_get_reloc_size h = Inr 4"
    using assms
    by (auto simp: insn_relocs_def imm_relocs_def fusion_reloc_type_lookup_def fusion_reloc_map_def rd8_def
       fusion_elf_howto_table_def reloc_number_defs HOWTO_def bfd_get_reloc_size_def)
  with that show ?thesis by blast
qed

lemma fix_new_exp_simple:
  "simple_expr e \<Longrightarrow> fix_new_exp None 0 4 e False r s =
   Inr ((length (gs_fixes s), e), s\<lparr>gs_fixes := gs_fixes s @ [insn_fix e r]\<rparr>)"
  by (auto simp: simple_expr_def fix_new_exp_def fix_new_internal_def insn_fix_def Let_def)

lemma append_insn_ok:
  assumes "roomy 4 s" "cl_frag ip = None" "frag_offset ip = 0" "fixptr ip = None" "simple_expr e"
    "r = BFD_RELOC_UNUSED \<or> r \<in> insn_relocs"
  obtains s' where "append_insn ip (Some e) r s = Inr ((), s')"
    "emitted (insn_word ip) (if r = BFD_RELOC_UNUSED then None else Some (insn_fix e r)) s s'"
    "\<forall>m. roomy (4 + m) s \<longrightarrow> roomy m s'"
proof (cases "r = BFD_RELOC_UNUSED")
  case True
  obtain ip' s' where "add_fixed_insn ip s = Inr (ip', s')" "install_insn ip' s' = Inr ((), s')"
    "emitted (insn_word ip) None (s\<lparr>gs_fixes := gs_fixes s\<rparr>) s'" "\<forall>m. roomy (4 + m) s \<longrightarrow> roomy m s'"
    using add_fixed_insn_ok [OF assms(1), of "gs_fixes s" None ip] assms(4) by auto
  with True that [of s'] show ?thesis by (simp add: append_insn_def)
next
  case False
  then obtain h where h: "fusion_reloc_type_lookup r = Inr (Some h)" "bfd_get_reloc_size h = Inr 4"
    using assms(6) by (blast elim: insn_reloc_size)
  define fx where "fx = insn_fix e r"
  have fx: "fx\<lparr>fx_tcbit := False\<rparr> = fx" by (simp add: fx_def insn_fix_def)
  obtain ip' s' where "add_fixed_insn (ip\<lparr>fixptr := Some (length (gs_fixes s))\<rparr>) (s\<lparr>gs_fixes := gs_fixes s @ [fx]\<rparr>) = Inr (ip', s')"
    "install_insn ip' s' = Inr ((), s')" "emitted (insn_word ip) (Some fx) s s'" "\<forall>m. roomy (4 + m) s \<longrightarrow> roomy m s'"
    using add_fixed_insn_ok [of "s\<lparr>gs_fixes := gs_fixes s @ [fx]\<rparr>" "gs_fixes s" "Some fx"
        "ip\<lparr>fixptr := Some (length (gs_fixes s))\<rparr>"] assms(1) by auto
  with False that [of s'] show ?thesis
    by (simp add: append_insn_def h assms fix_new_exp_simple upd_fix_def fx fx_def [symmetric])
qed

subsection \<open>The tables\<close>

lemma op_names_loop_insert_all:
  assumes "distinct (map opc_name es)" "None \<notin> set (map opc_name es)" "opc_name e = None"
  shows "op_names_loop (es @ e # rest) t =
    rbind (insert_all hash_insert (map (\<lambda>e. (the (opc_name e), e)) es) t) (\<lambda>(err, t).
      if err = None then Inr t else Inl (Fatal ''Assembler is broken. I'm not touching that file, fix me plz.''))"
  using assms
proof (induction es arbitrary: t)
  case (Cons x es)
  then obtain n where n: "opc_name x = Some n" by (cases "opc_name x") auto
  have "dropWhile (\<lambda>e. opc_name e = Some n) (es @ e # rest) = es @ e # rest"
    using Cons.prems n by (cases es) auto
  with Cons n show ?case
    by (auto simp: rbind_def validate_fusion_insn_def list_all_iff split: sum.split option.split)
qed (simp add: op_names_loop.simps)

lemma reg_names_loop_insert_all:
  assumes "reg_names_hash s = Some t" "\<forall>i \<in> set is. i < length names"
  shows "reg_names_loop regf names is s =
    rbind (insert_all hash_insert (map (\<lambda>i. (names ! i, ENCODE_REG_HASH regf (of_nat i))) is) t) (\<lambda>(err, t).
      if err = None then Inr ((), s\<lparr>reg_names_hash := Some t\<rparr>) else Inl (Fatal ''internal error: can't hash `%s': %s''))"
  using assms
proof (induction "is" arbitrary: s t)
  case (Cons i "is")
  then show ?case
    by (auto simp: hash_reg_name_def rbind_def split: sum.split option.split)
qed simp

lemma hash_new_ok: "hash_ok (hash_new :: 'a hash_control) \<and> hash_abs (hash_new :: 'a hash_control) = Map.empty"
  unfolding hash_new_def by (rule hash_new_sized_ok [OF _ _ refl]) (simp_all add: gas_hash_table_size_def)

lemma insert_all_new:
  fixes kvs :: "(string \<times> 'a) list"
  assumes "distinct (map fst kvs)" "\<forall>k \<in> set (map fst kvs). NUL \<notin> set k"
  obtains t where "insert_all hash_insert kvs hash_new = Inr (None, t)" "hash_ok t" "hash_abs t = map_of kvs"
  using gh.insert_all_distinct [of "hash_new :: 'a hash_control" kvs] assms hash_new_ok [where 'a = 'a] by auto

lemma register_names_distinct: "distinct (fusion_gpreg_name @ fusion_gpreg_num)"
  by (simp add: fusion_gpreg_name_def fusion_gpreg_num_def)

lemma register_names_chars: "\<forall>k \<in> set (fusion_gpreg_name @ fusion_gpreg_num). NUL \<notin> set k"
  by (simp add: fusion_gpreg_name_def fusion_gpreg_num_def NUL_def)

lemma reg_codes_keys: "length names = 32 \<Longrightarrow> map fst (reg_codes names) = names"
  by (simp add: reg_codes_def comp_def) (metis map_nth)

lemma fusion_insn_all_named: "\<exists>e rest. fusion_insn_all = named_insns @ e # rest \<and> opc_name e = None"
  unfolding named_insns_def fusion_insn_all_def opc_info_def opc_info_zero_def
  by (simp add: NUM_INSN_def isa_defs)

lemma named_insns_named: "None \<notin> set (map opc_name named_insns)"
  by (auto simp: named_insns_def dest!: set_takeWhileD)

lemma named_insns_keys: "distinct (map fst (map (\<lambda>e. (the (opc_name e), e)) named_insns))"
proof -
  have "map fst (map (\<lambda>e. (the (opc_name e), e)) named_insns) = map the (map opc_name named_insns)" by simp
  moreover have "inj_on the (set (map opc_name named_insns))"
    using named_insns_named by (metis inj_onI option.expand)
  ultimately show ?thesis using named_insns_distinct by (simp only: distinct_map)
qed

lemma named_insns_strings: "\<forall>k \<in> set (map fst (map (\<lambda>e. (the (opc_name e), e)) named_insns)). NUL \<notin> set k"
  by (simp add: named_insns_def fusion_insn_all_def opc_info_def opc_info_zero_def NUL_def)

lemma md_begin_ok:
  obtains s' where "md_begin arch_ok s = Inr ((), s')" "tables_ready s'" "gs_text_align s' = max 2 (gs_text_align s)"
    "gs_msgs s' = gs_msgs s @ (if arch_ok then [] else [As_warn ''Couldn't set architecture and machine''])"
    "s' = s\<lparr>gs_msgs := gs_msgs s', gs_text_align := gs_text_align s', op_hash_ctrl := op_hash_ctrl s',
      reg_names_hash := reg_names_hash s'\<rparr>"
proof -
  obtain e rest where all: "fusion_insn_all = named_insns @ e # rest" "opc_name e = None"
    using fusion_insn_all_named by blast
  obtain t where t: "insert_all hash_insert (map (\<lambda>e. (the (opc_name e), e)) named_insns) hash_new = Inr (None, t)"
    "hash_ok t" "hash_abs t = op_map"
    using insert_all_new [OF named_insns_keys named_insns_strings] by (auto simp: op_map_def)
  have ops: "op_names_loop fusion_insn_all hash_new = Inr t"
    unfolding all(1) using op_names_loop_insert_all [OF named_insns_distinct named_insns_named all(2)] t(1) by simp
  have d: "distinct (map fst (reg_codes fusion_gpreg_name))" "distinct (map fst (reg_codes fusion_gpreg_num))"
    "set fusion_gpreg_name \<inter> set fusion_gpreg_num = {}"
    using register_names_distinct by (simp_all add: reg_codes_keys)
  have c: "\<forall>k \<in> set (map fst (reg_codes fusion_gpreg_name)). NUL \<notin> set k" "\<forall>k \<in> set (map fst (reg_codes fusion_gpreg_num)). NUL \<notin> set k"
    using register_names_chars by (simp_all only: reg_codes_keys register_name_lengths set_append) auto
  obtain r1 where r1: "insert_all hash_insert (reg_codes fusion_gpreg_name) hash_new = Inr (None, r1)"
    "hash_ok r1" "hash_abs r1 = map_of (reg_codes fusion_gpreg_name)"
    using d(1) c(1) by (rule insert_all_new)
  have "\<forall>k \<in> set (map fst (reg_codes fusion_gpreg_num)). hash_abs r1 k = None \<and> NUL \<notin> set k"
    using d(3) c(2) by (auto simp: r1(3) map_of_eq_None_iff reg_codes_keys simp flip: set_map)
  then obtain r2 where r2: "insert_all hash_insert (reg_codes fusion_gpreg_num) r1 = Inr (None, r2)"
    "hash_ok r2" "hash_abs r2 = reg_map"
    using gh.insert_all_distinct [OF r1(2) d(2)] by (auto simp: r1(3) reg_map_def)
  define s1 where "s1 = (if arch_ok then s else s\<lparr>gs_msgs := gs_msgs s @ [As_warn ''Couldn't set architecture and machine'']\<rparr>)"
  have "md_begin arch_ok s = Inr ((), record_alignment 2 (s1\<lparr>op_hash_ctrl := Some t, reg_names_hash := Some r2\<rparr>))"
    by (simp add: md_begin_def s1_def ops hash_reg_names_def reg_names_loop_insert_all reg_codes_def [symmetric] r1 r2)
  moreover have "tables_ready (record_alignment 2 (s1\<lparr>op_hash_ctrl := Some t, reg_names_hash := Some r2\<rparr>))"
    using t r2 by (simp add: tables_ready_def record_alignment_def)
  ultimately show ?thesis
    by (rule that) (auto simp: record_alignment_def s1_def)
qed

text \<open>
  C36: starting up the port always returns: no name is refused by the hash tables, so that
  neither of the fatal errors of \<open>md_begin\<close> can happen, and afterwards the tables hold exactly
  the instructions of \<open>fusion_insn_all\<close> and both families of register names.
\<close>

theorem md_begin_ready:
  "\<exists>s'. md_begin arch_ok s = Inr ((), s') \<and> tables_ready s' \<and> gs_text_align s' = max 2 (gs_text_align s) \<and>
    gs_msgs s' = gs_msgs s @ (if arch_ok then [] else [As_warn ''Couldn't set architecture and machine'']) \<and>
    s' = s\<lparr>gs_msgs := gs_msgs s', gs_text_align := gs_text_align s', op_hash_ctrl := op_hash_ctrl s',
      reg_names_hash := reg_names_hash s'\<rparr>"
  by (rule md_begin_ok [of arch_ok s]) blast

lemma reg_code_decode:
  assumes "i < 32"
  shows "DECODE_REG_FILE (ENCODE_REG_HASH REGF_GPR (of_nat i)) = 0"
    "DECODE_REG_NUM (ENCODE_REG_HASH REGF_GPR (of_nat i)) = of_nat i"
proof -
  have small: "(ucast (of_nat n :: c_uint) :: 64 word) = of_nat n" if "n < 100" for n
    using that by (simp add: unsigned_of_nat take_bit_nat_eq_self)
  have "(of_nat i * reg_file_num REGF_MAX + reg_file_num REGF_GPR + 1 :: c_uint) = of_nat (i * 3 + 1)" by simp
  then have "ENCODE_REG_HASH REGF_GPR (of_nat i) = of_nat (i * 3 + 1)"
    unfolding ENCODE_REG_HASH_def using assms by (simp only: small)
  then have e: "ENCODE_REG_HASH REGF_GPR (of_nat i) - 1 = of_nat (i * 3)" by simp
  have u: "unat (of_nat (i * 3) :: 64 word) = i * 3" using assms by (simp add: unat_of_nat take_bit_nat_eq_self del: of_nat_mult)
  show "DECODE_REG_FILE (ENCODE_REG_HASH REGF_GPR (of_nat i)) = 0"
    unfolding DECODE_REG_FILE_def e by (simp add: word_unat_eq_iff unat_mod_distrib u del: of_nat_mult)
  show "DECODE_REG_NUM (ENCODE_REG_HASH REGF_GPR (of_nat i)) = of_nat i"
    unfolding DECODE_REG_NUM_def e using assms
    by (simp add: word_unat_eq_iff unat_div_distrib u unat_of_nat take_bit_nat_eq_self del: of_nat_mult)
qed

lemma reg_codes_None: "length ns = 32 \<Longrightarrow> map_of (reg_codes ns) k = None \<longleftrightarrow> k \<notin> set ns"
  by (metis map_of_eq_None_iff reg_codes_keys set_map)

lemma reg_map_names:
  assumes "i < 32"
  shows "reg_map (fusion_gpreg_name ! i) = Some (ENCODE_REG_HASH REGF_GPR (of_nat i))"
    "reg_map (fusion_gpreg_num ! i) = Some (ENCODE_REG_HASH REGF_GPR (of_nat i))"
proof -
  have d: "distinct fusion_gpreg_name" "distinct fusion_gpreg_num" "set fusion_gpreg_name \<inter> set fusion_gpreg_num = {}"
    using register_names_distinct by simp_all
  have m: "map_of (reg_codes ns) (ns ! i) = Some (ENCODE_REG_HASH REGF_GPR (of_nat i))"
    if "distinct ns" "length ns = 32" for ns
    using that assms by (intro map_of_is_SomeI) (auto simp: reg_codes_keys, auto simp: reg_codes_def)
  have "fusion_gpreg_name ! i \<in> set fusion_gpreg_name" using assms by (intro nth_mem) simp
  then have "map_of (reg_codes fusion_gpreg_num) (fusion_gpreg_name ! i) = None"
    using d(3) by (auto simp: reg_codes_None disjoint_iff)
  then show "reg_map (fusion_gpreg_name ! i) = Some (ENCODE_REG_HASH REGF_GPR (of_nat i))"
    using m [OF d(1)] by (simp add: reg_map_def map_add_def)
  show "reg_map (fusion_gpreg_num ! i) = Some (ENCODE_REG_HASH REGF_GPR (of_nat i))"
    using m [OF d(2)] by (simp add: reg_map_def map_add_def)
qed

text \<open>
  The register numbers of the debug information. Every register name, by use or by
  number, is looked up to its number; any other string is reported and gives -1.
\<close>

theorem dw2regnum_names:
  assumes "tables_ready s" "NUL \<notin> set nm"
  shows "(i < 32 \<and> (nm = fusion_gpreg_name ! i \<or> nm = fusion_gpreg_num ! i) \<longrightarrow>
      (\<exists>s'. tc_fusion_regname_to_dw2regnum nm s = Inr (int i, s') \<and> tables_ready s' \<and> gs_msgs s' = gs_msgs s)) \<and>
    (nm \<notin> set fusion_gpreg_name \<union> set fusion_gpreg_num \<longrightarrow>
      (\<exists>s'. tc_fusion_regname_to_dw2regnum nm s = Inr (-1, s') \<and> tables_ready s' \<and>
        gs_msgs s' = gs_msgs s @ [As_bad (''unknown register `%s'' @ [CHR 0x27])]))"
proof -
  from assms(1) obtain r0 where r0: "reg_names_hash s = Some r0" "hash_ok r0" "hash_abs r0 = reg_map"
    by (auto simp: tables_ready_def)
  from gh.find_abs [OF r0(2), of nm] obtain r where
    r: "hash_find r0 nm = Inr (reg_map nm, r)" "hash_ok r" "hash_abs r = reg_map" using assms(2) by (auto simp: r0(3) c_str_id)
  have ready: "tables_ready (s\<lparr>reg_names_hash := Some r\<rparr>)" "tables_ready (s\<lparr>reg_names_hash := Some r, gs_msgs := ms\<rparr>)" for ms
    using assms(1) r(2,3) by (simp_all add: tables_ready_def)
  show ?thesis
  proof (intro conjI impI)
    assume i: "i < 32 \<and> (nm = fusion_gpreg_name ! i \<or> nm = fusion_gpreg_num ! i)"
    then have "reg_map nm = Some (ENCODE_REG_HASH REGF_GPR (of_nat i))" using reg_map_names by auto
    moreover have "sint (ucast (of_nat i :: 64 word) :: 32 word) = int i"
      using i by (simp add: sint_uint signed_take_bit_eq_if_positive bit_iff_odd unsigned_of_nat take_bit_nat_eq_self take_bit_int_eq_self)
    ultimately show "\<exists>s'. tc_fusion_regname_to_dw2regnum nm s = Inr (int i, s') \<and> tables_ready s' \<and> gs_msgs s' = gs_msgs s"
      using i ready(1) by (simp add: tc_fusion_regname_to_dw2regnum_def reg_lookup_internal_def r0 r reg_code_decode)
  next
    assume "nm \<notin> set fusion_gpreg_name \<union> set fusion_gpreg_num"
    then have "reg_map nm = None"
      by (simp add: reg_map_def reg_codes_None)
    then show "\<exists>s'. tc_fusion_regname_to_dw2regnum nm s = Inr (-1, s') \<and> tables_ready s' \<and>
        gs_msgs s' = gs_msgs s @ [As_bad (''unknown register `%s'' @ [CHR 0x27])]"
      using ready(2) by (simp add: tc_fusion_regname_to_dw2regnum_def reg_lookup_internal_def r0 r)
  qed
qed

theorem dw2regnum_names_witness:
  "\<exists>s s'. md_begin True (start_state []) = Inr ((), s) \<and> tc_fusion_regname_to_dw2regnum ''tmp0'' s = Inr (22, s')"
proof -
  obtain s where s: "md_begin True (start_state []) = Inr ((), s)" "tables_ready s"
    using md_begin_ok [of True "start_state []"] by blast
  have "fusion_gpreg_name ! 22 = ''tmp0''" by (simp add: fusion_gpreg_name_def)
  with s dw2regnum_names [OF s(2), of "''tmp0''" 22] show ?thesis by (auto simp: NUL_def)
qed

lemma start_ready:
  obtains s where "md_begin True (start_state buf) = Inr ((), s)" "tables_ready s" "gs_buf s = buf" "\<forall>n \<le> 64. roomy n s"
    "\<not> pending_reloc s" "section_bytes s = []" "gs_fixes s = []" "gs_msgs s = []"
proof (rule md_begin_ok [of True "start_state buf"])
  fix s assume s: "md_begin True (start_state buf) = Inr ((), s)" "tables_ready s"
    "gs_msgs s = gs_msgs (start_state buf) @ (if True then [] else [As_warn ''Couldn't set architecture and machine''])"
    "s = (start_state buf)\<lparr>gs_msgs := gs_msgs s, gs_text_align := gs_text_align s, op_hash_ctrl := op_hash_ctrl s,
      reg_names_hash := reg_names_hash s\<rparr>"
  have f: "gs_buf s = buf" "gs_frags s = [empty_frag]" "gs_rooms s = [64]" "gs_fixes s = []" "\<not> pending_reloc s"
    by (subst s(4), simp add: start_state_def)+
  show thesis
    by (rule that [OF s(1,2)]) (use f s(3) in \<open>simp_all add: roomy_def section_bytes_def empty_frag_def start_state_def\<close>)
qed

end
