(* ===== verification/Tc_Line.thy ===== *)
theory Tc_Line
  imports Tc_Assemble
begin

text \<open>
  What \<open>md_assemble\<close> does with a line of assembly text: the lookup of the mnemonic, the operands
  of every form, and the word and the fixup that result.
\<close>

subsection \<open>Specification\<close>

definition name_char :: "char \<Rightarrow> bool" where
  "name_char c \<longleftrightarrow> c \<noteq> NUL \<and> \<not> is_end_of_line c \<and> \<not> blank c"

text \<open>
  What the port relies on of the expression reader for the text of an immediate: it returns
  the expression \<open>e\<close> and moves \<open>input_line_pointer\<close> only.
\<close>

definition reads :: "expressionS gas \<Rightarrow> string \<Rightarrow> expressionS \<Rightarrow> bool" where
  "reads expression tx e \<longleftrightarrow> (\<forall>s q. drop q (gs_buf s) = tx \<longrightarrow>
     (\<exists>r. expression (s\<lparr>gs_ilp := q\<rparr>) = Inr (e, s\<lparr>gs_ilp := r\<rparr>)))"

definition starts_operand :: "string \<Rightarrow> bool" where
  "starts_operand tx \<longleftrightarrow> (case tx of [] \<Rightarrow> False | c # _ \<Rightarrow> \<not> blank c)"

text \<open>
  The text of the operands of an instruction in the form the input scrubber delivers, the
  instruction it stands for and the relocation of its immediate.
\<close>

definition operand_text :: "c_uint \<Rightarrow> nat \<Rightarrow> nat \<Rightarrow> nat \<Rightarrow> string \<Rightarrow> string" where
  "operand_text args rd rsa rsb x =
     (let r = (\<lambda>i. fusion_gpreg_name ! i) in
      if args = USE_RDAB then r rd @ '','' @ r rsa @ '','' @ r rsb
      else if args = USE_RDAI then r rd @ '','' @ r rsa @ '','' @ x
      else if args = USE_RDI then r rd @ '','' @ x
      else if args = USE_RABI then r rsa @ '','' @ r rsb @ '','' @ x
      else if args = USE_RDAI_O then r rd @ '','' @ x @ ''('' @ r rsa @ '')''
      else if args = USE_RABI_O then r rsb @ '','' @ x @ ''('' @ r rsa @ '')''
      else if args = USE_RAI_O then x @ ''('' @ r rsa @ '')''
      else x)"

text \<open>What follows the immediate on the line.\<close>

definition imm_tail :: "c_uint \<Rightarrow> nat \<Rightarrow> string" where
  "imm_tail args rsa =
     (if args = USE_RDAI_O \<or> args = USE_RABI_O \<or> args = USE_RAI_O then ''('' @ fusion_gpreg_name ! rsa @ '')'' else [])"

definition line_insn :: "fusion_opc_info_t \<Rightarrow> nat \<Rightarrow> nat \<Rightarrow> nat \<Rightarrow> offsetT \<Rightarrow> insn" where
  "line_insn mo rd rsa rsb n =
     (let opc = opc_opc mo; idx = opc_index mo in
      if opc = OPC_INT then R_insn (of_nat rd) (of_nat rsa) (of_nat rsb) 0 (ucast idx)
      else if opc = OPC_IMM then I_insn (of_nat rd) (of_nat rsa) (ucast n) (ucast idx)
      else if opc = OPC_LD then L_insn (of_nat rd) (of_nat rsa) (ucast idx) (ucast n)
      else if opc = OPC_ST then S_insn (ucast idx) (of_nat rsa) (of_nat rsb) (ucast n)
      else if opc = OPC_LI then LI_insn (of_nat rd) (ucast idx) (ucast n)
      else if opc = OPC_JMP then J_insn (of_nat rsa) (ucast n)
      else if opc = OPC_JLNK then JL_insn (of_nat rsa) (ucast n)
      else if opc = OPC_BRANCH then B_insn (of_nat rsa) (of_nat rsb) (ucast n) (ucast idx)
      else SYS_insn (of_nat rd) (of_nat rsa) (ucast idx) (ucast n))"

definition line_reloc :: "fusion_opc_info_t \<Rightarrow> bfd_reloc_code" where
  "line_reloc mo =
     (let opc = opc_opc mo in
      if opc = OPC_INT then BFD_RELOC_UNUSED
      else if opc = OPC_IMM then BFD_RELOC_FUSION_12
      else if opc = OPC_LD then BFD_RELOC_FUSION_LOAD
      else if opc = OPC_ST then BFD_RELOC_FUSION_STORE
      else if opc = OPC_LI then (if opc_index mo \<in> {4, 5, 12, 13} then BFD_RELOC_FUSION_HI16 else BFD_RELOC_16)
      else if opc = OPC_JMP \<or> opc = OPC_JLNK then
        (if opc_args mo = USE_I then BFD_RELOC_FUSION_21_PCREL else BFD_RELOC_FUSION_21)
      else if opc = OPC_BRANCH then BFD_RELOC_FUSION_14_PCREL
      else BFD_RELOC_8)"

text \<open>The registers that the operands do not name are zero.\<close>

definition unused_zero :: "c_uint \<Rightarrow> nat \<Rightarrow> nat \<Rightarrow> nat \<Rightarrow> bool" where
  "unused_zero args rd rsa rsb \<longleftrightarrow>
     (args \<in> {USE_RABI, USE_RABI_O, USE_RAI_O, USE_I} \<longrightarrow> rd = 0) \<and>
     (args \<in> {USE_RDI, USE_I} \<longrightarrow> rsa = 0) \<and>
     (args \<notin> {USE_RDAB, USE_RABI, USE_RABI_O} \<longrightarrow> rsb = 0)"

text \<open>The machine instructions with operands, \<open>stspr\<close> and \<open>ldspr\<close> apart.\<close>

definition operand_insns :: "fusion_opc_info_t list" where
  "operand_insns = filter (\<lambda>e. opc_cpid e = CPID_MAIN \<and> opc_args e \<noteq> USE_NONE \<and> opc_args e \<noteq> USE_RDA) named_insns"

definition insn_shape :: "fusion_opc_info_t \<Rightarrow> bool" where
  "insn_shape e \<longleftrightarrow>
     (if opc_args e = USE_RDAB then opc_opc e = OPC_INT \<and> opc_index e < 16
      else if opc_args e = USE_RDAI then opc_opc e = OPC_IMM \<and> opc_index e < 16 \<or> opc_opc e = OPC_SYS \<and> opc_index e < 256
      else if opc_args e = USE_RDI then (opc_opc e = OPC_IMM \<or> opc_opc e = OPC_LI) \<and> opc_index e < 16
      else if opc_args e = USE_RABI then opc_opc e = OPC_BRANCH \<and> opc_index e < 4
      else if opc_args e = USE_RDAI_O then opc_opc e = OPC_LD \<and> opc_index e < 4
      else if opc_args e = USE_RABI_O then opc_opc e = OPC_ST \<and> opc_index e < 4
      else if opc_args e = USE_RAI_O then (opc_opc e = OPC_JMP \<or> opc_opc e = OPC_JLNK) \<and> opc_index e = 1
      else opc_args e = USE_I \<and> ((opc_opc e = OPC_JMP \<or> opc_opc e = OPC_JLNK) \<and> opc_index e = 0 \<or>
         opc_opc e = OPC_SYS \<and> opc_index e < 256)) \<and>
     (opc_imm_mask e = MASK_NO_IMM \<longleftrightarrow> opc_args e = USE_RDAB) \<and> opc_args e \<le> MAX_USE_OP"

text \<open>
  The conditions on the operands: the register that ends a line must not be \<open>gp\<close>, a base
  register must be one that the parser accepts before a parenthesis, and the immediate must be
  read as \<open>ex\<close>, a constant in the I format.
\<close>

definition registers_ok :: "c_uint \<Rightarrow> nat \<Rightarrow> nat \<Rightarrow> nat \<Rightarrow> bool" where
  "registers_ok args rd rsa rsb \<longleftrightarrow> rd < 32 \<and> rsa < 32 \<and> rsb < 32 \<and> unused_zero args rd rsa rsb \<and>
     (args = USE_RDAB \<longrightarrow> rsb \<noteq> 3) \<and>
     (args \<in> {USE_RDAI_O, USE_RABI_O, USE_RAI_O} \<longrightarrow> rsa \<noteq> 3 \<and> accepts_after rsa (CHR '')''))"

definition immediate_ok ::
  "expressionS gas \<Rightarrow> fusion_opc_info_t \<Rightarrow> nat \<Rightarrow> string \<Rightarrow> string \<Rightarrow> expressionS \<Rightarrow> bool" where
  "immediate_ok expression mo rsa x rest ex \<longleftrightarrow>
     opc_args mo = USE_RDAB \<or>
     starts_operand x \<and> (\<forall>c \<in> set x. c \<noteq> CHR ''('' \<and> c \<noteq> NUL) \<and> simple_expr ex \<and>
     (opc_opc mo = OPC_IMM \<longrightarrow> X_op ex = O_constant) \<and>
     reads expression (x @ imm_tail (opc_args mo) rsa @ NUL # rest) ex"

definition line_fix :: "fusion_opc_info_t \<Rightarrow> expressionS \<Rightarrow> fixS option" where
  "line_fix mo ex =
     (if opc_args mo = USE_RDAB then None
      else Some (insn_fix (if opc_opc mo = OPC_IMM then normalize_constant_expr ex else ex) (line_reloc mo)))"

section \<open>Properties\<close>

subsection \<open>Looking up the mnemonic\<close>

lemma find_op_ok:
  assumes "tables_ready s"
  obtains t where "find_op n s = Inr (op_map (c_str n), s\<lparr>op_hash_ctrl := Some t\<rparr>)" "hash_ok t" "hash_abs t = op_map"
proof -
  from assms obtain t0 where t0: "op_hash_ctrl s = Some t0" "hash_ok t0" "hash_abs t0 = op_map"
    by (auto simp: tables_ready_def)
  from gh.find_abs [OF t0(2), of n] obtain t where
    "hash_find t0 n = Inr (op_map (c_str n), t)" "hash_ok t" "hash_abs t = op_map" by (auto simp: t0(3))
  with t0 that show ?thesis by (simp add: find_op_def)
qed

lemma name_c_str: "\<forall>c \<in> set n. name_char c \<Longrightarrow> c_str n = n"
  by (intro c_str_id) (auto simp: name_char_def)

lemma find_op_name:
  assumes "tables_ready s" "\<forall>c \<in> set n. name_char c"
  obtains t where "find_op n s = Inr (op_map n, s\<lparr>op_hash_ctrl := Some t\<rparr>)" "hash_ok t" "hash_abs t = op_map"
  using find_op_ok [OF assms(1), of n] by (metis name_c_str [OF assms(2)])

lemma tables_ready_op:
  "tables_ready s \<Longrightarrow> hash_ok t \<Longrightarrow> hash_abs t = op_map \<Longrightarrow> tables_ready (s\<lparr>op_hash_ctrl := Some t\<rparr>)"
  by (simp add: tables_ready_def)

lemma take_drop_prefix: "drop p xs = ys @ zs \<Longrightarrow> take (length ys) (drop p xs) = ys"
  by simp

lemma md_assemble_lookup:
  assumes "tables_ready s" "drop p (gs_buf s) = w @ n @ t # rest" "\<forall>c \<in> set w. blank c" "n \<noteq> []"
    "\<forall>c \<in> set n. name_char c" "t = NUL \<or> t = CHR '' ''" "op_map n = Some insn"
  obtains h where "md_assemble expression e0 p s =
      emit_line expression e0 (p + length w + length n) insn (s\<lparr>op_hash_ctrl := Some h\<rparr>)"
    "tables_ready (s\<lparr>op_hash_ctrl := Some h\<rparr>)"
proof -
  define q where "q = p + length w"
  define r where "r = q + length n"
  have q: "drop q (gs_buf s) = n @ t # rest" using drop_next [OF assms(2)] by (simp add: q_def)
  have r: "drop r (gs_buf s) = t # rest" using drop_next [OF q] by (simp add: r_def)
  then have rlen: "r < length (gs_buf s)" and rt: "gs_buf s ! r = t"
    by (metis drop_all linorder_not_less list.distinct(1)) (rule nth_via_drop [OF r])
  obtain c n' where n: "n = c # n'" using assms(4) by (cases n) auto
  have skip: "skip_blanks p s = Inr (q, s)"
    using skip_blanks_drop [OF _ assms(3), of p s c] assms(2,5) by (simp add: n name_char_def q_def)
  have scan: "scan (\<lambda>c. c = NUL \<or> is_end_of_line c \<or> c = CHR '' '') q s = Inr (r, s)"
    unfolding r_def using q by (rule scan_at) (use assms(5,6) in \<open>auto simp: name_char_def blank_def\<close>)
  define s1 where "s1 = s\<lparr>gs_buf := (gs_buf s)[r := NUL]\<rparr>"
  have "drop q (gs_buf s1) = n @ NUL # rest"
  proof -
    have "drop q ((gs_buf s)[r := NUL]) = (drop q (gs_buf s))[length n := NUL]"
      by (simp add: drop_update_swap r_def)
    then show ?thesis using q by (simp add: s1_def list_update_append)
  qed
  then have str: "c_string q s1 = Inr (n, s1)"
    using scan_at [of q s1 n NUL rest "\<lambda>c. c = NUL"] assms(5) by (auto simp: c_string_def name_char_def)
  have "tables_ready s1" using assms(1) by (simp add: tables_ready_def s1_def)
  then obtain h where h: "find_op n s1 = Inr (op_map n, s1\<lparr>op_hash_ctrl := Some h\<rparr>)" "hash_ok h" "hash_abs h = op_map"
    using assms(5) by (rule find_op_name)
  have restore: "poke r t (s1\<lparr>op_hash_ctrl := Some h\<rparr>) = Inr ((), s\<lparr>op_hash_ctrl := Some h\<rparr>)"
    using rlen rt list_update_id [of "gs_buf s" r] by (simp add: poke_def s1_def)
  have "poke r NUL s = Inr ((), s1)" using rlen by (simp add: poke_def s1_def)
  moreover have "r \<noteq> q" using assms(4) by (simp add: r_def)
  moreover have "peek r s = Inr (t, s)" using rlen rt by simp
  ultimately have "md_assemble expression e0 p s = emit_line expression e0 r insn (s\<lparr>op_hash_ctrl := Some h\<rparr>)"
    by (simp add: md_assemble_def skip scan str h assms(7) restore)
  then show ?thesis
    using that tables_ready_op [OF assms(1) h(2,3)] by (simp add: r_def q_def)
qed

lemma op_map_named: "e \<in> set named_insns \<Longrightarrow> opc_name e = Some n \<Longrightarrow> op_map n = Some e"
proof -
  assume e: "e \<in> set named_insns" "opc_name e = Some n"
  then have "op_map (the (opc_name e)) = Some e"
    unfolding op_map_def by (intro map_of_is_SomeI named_insns_keys) (use e in \<open>force simp: image_iff\<close>)
  with e(2) show ?thesis by simp
qed

lemma named_insns_chars: "list_all (\<lambda>e. opc_name e \<noteq> None \<and> the (opc_name e) \<noteq> [] \<and> list_all name_char (the (opc_name e))) named_insns"
  by (simp add: named_insns_def fusion_insn_all_def opc_info_def opc_info_zero_def name_char_def is_end_of_line_def
    blank_def NUL_def)

lemma named_insn_name:
  assumes "e \<in> set named_insns" "opc_name e = Some n"
  shows "n \<noteq> []" "\<forall>c \<in> set n. name_char c"
  using named_insns_chars assms by (auto simp: list_all_iff)

lemma emitted_fields:
  assumes "emitted w fx s s'"
  shows "section_bytes s' = section_bytes s @ word_bytes w" "gs_msgs s' = gs_msgs s" "gs_buf s' = gs_buf s"
    "tables_ready s' = tables_ready s" "pending_reloc s' = pending_reloc s" "gs_symbols s' = gs_symbols s"
    "op_hash_ctrl s' = op_hash_ctrl s" "reg_names_hash s' = reg_names_hash s"
    "fx = None \<Longrightarrow> gs_fixes s' = gs_fixes s"
    "fx = Some f \<Longrightarrow> gs_fixes s' = gs_fixes s @
      [place_fix (frag_now s') (length (fr_literal (last (gs_frags s'))) - 4) f]"
  using assms by (auto simp: emitted_def section_bytes_def tables_ready_def frag_now_def eq_diff_iff
    intro!: arg_cong [of _ _ "\<lambda>a. place_fix _ a _"])

lemma section_bytes_op [simp]: "section_bytes (s\<lparr>op_hash_ctrl := h\<rparr>) = section_bytes s"
  by (simp add: section_bytes_def)

lemma roomy_op [simp]: "roomy n (s\<lparr>op_hash_ctrl := h\<rparr>) = roomy n s"
  by (simp add: roomy_def)

lemma rdab_insns:
  "list_all (\<lambda>e. opc_args e = USE_RDAB \<longrightarrow> opc_opc e = OPC_INT \<and> opc_cpid e = CPID_MAIN \<and>
     opc_imm_mask e = MASK_NO_IMM \<and> opc_index e < 16) named_insns"
  by (simp add: named_insns_def fusion_insn_all_def opc_info_def opc_info_zero_def isa_defs)

lemma ucast_reg: "a < 32 \<Longrightarrow> (ucast (of_nat a :: 5 word) :: insn_t) = of_int (int a)"
  by (simp add: unsigned_of_nat take_bit_nat_eq_self)

lemma ucast_idx: "i < 16 \<Longrightarrow> (ucast (ucast (i :: insn_t) :: 4 word) :: insn_t) = i"
  by (simp add: word_uint_eq_iff unsigned_ucast_eq word_less_def take_bit_int_eq_self unsigned_take_bit_eq)

lemma encode_R_regs:
  assumes "a < 32" "b < 32" "c < 32" "i < 16"
  shows "MAKE_R_TYPE (of_int (int a)) (of_int (int b)) (of_int (int c)) 0 i =
    encode (R_insn (of_nat a) (of_nat b) (of_nat c) 0 (ucast i))"
  unfolding encode.simps ucast_reg [OF assms(1)] ucast_reg [OF assms(2)] ucast_reg [OF assms(3)] ucast_idx [OF assms(4)]
  by simp

lemma assemble_rdab:
  assumes "e \<in> set named_insns" "opc_args e = USE_RDAB" "parse_rdab \<lparr>Rd = 0, RSa = 0, RSb = 0, imm = 0, imm_expr = e0\<lparr>X_op := O_absent\<rparr>\<rparr> p s =
      Inr ((0, \<lparr>Rd = int a, RSa = int b, RSb = int c, imm = 0, imm_expr = e0\<lparr>X_op := O_absent\<rparr>\<rparr>), s)"
  shows "assemble_insn_bin expression p (create_insn e) e0 s =
    Inr (Some ((create_insn e)\<lparr>insn_word := MAKE_R_TYPE (of_int (int a)) (of_int (int b)) (of_int (int c)) 0 (opc_index e)\<rparr>,
      e0\<lparr>X_op := O_absent\<rparr>, BFD_RELOC_UNUSED), s)"
proof -
  have e: "opc_opc e = OPC_INT" "opc_cpid e = CPID_MAIN" "opc_imm_mask e = MASK_NO_IMM"
    using rdab_insns assms(1,2) by (auto simp: list_all_iff)
  have *: "\<not> CPID_MAX < CPID_MAIN" "\<not> MAX_USE_OP < USE_RDAB" "USE_RDAB \<noteq> USE_NONE" by (simp_all add: isa_defs)
  show ?thesis
    by (simp add: assemble_insn_bin_def return_reloc_def operands_no_imm_def build_word_def create_insn_def e assms(2,3) * Let_def)
qed

lemma emit_line_main:
  assumes "assemble_insn_bin expression p (create_insn mo) e0 s = Inr (Some ((create_insn mo)\<lparr>insn_word := w\<rparr>, e, r), s2)"
    "opc_cpid mo = CPID_MAIN" "roomy 4 s2" "\<not> pending_reloc s2" "simple_expr e" "r = BFD_RELOC_UNUSED \<or> r \<in> insn_relocs"
  obtains s' where "emit_line expression e0 p mo s = Inr ((), s')"
    "emitted w (if r = BFD_RELOC_UNUSED then None else Some (insn_fix e r)) s2 s'" "\<forall>m. roomy (4 + m) s2 \<longrightarrow> roomy m s'"
proof -
  define ip where "ip = (create_insn mo)\<lparr>insn_word := w\<rparr>"
  have ip: "insn_mo ip = mo" "insn_word ip = w" "cl_frag ip = None" "frag_offset ip = 0" "fixptr ip = None"
    by (simp_all add: ip_def create_insn_def)
  obtain s' where s': "append_insn ip (Some e) r s2 = Inr ((), s')"
    "emitted (insn_word ip) (if r = BFD_RELOC_UNUSED then None else Some (insn_fix e r)) s2 s'"
    "\<forall>m. roomy (4 + m) s2 \<longrightarrow> roomy m s'"
    using assms(3) ip(3-5) assms(5,6) by (rule append_insn_ok)
  have "CPID_MAIN \<noteq> CPID_MACRO" by (simp add: isa_defs)
  then have "emit_line expression e0 p mo s = Inr ((), s')"
    using assms(1,4) emitted_fields(5) [OF s'(2)]
    by (simp add: emit_line_def ip_def [symmetric] ip assms(2) s'(1))
  with s' show ?thesis using that by (simp add: ip)
qed

lemma md_assemble_R:
  assumes "tables_ready s" "roomy 4 s" "\<not> pending_reloc s" "e \<in> set named_insns" "opc_name e = Some n" "opc_args e = USE_RDAB"
    "a < 32" "b < 32" "c < 32" "c \<noteq> 3"
    "drop p (gs_buf s) = w0 @ n @ CHR '' '' # w1 @ fusion_gpreg_name ! a @ CHR '','' # w2 @ fusion_gpreg_name ! b @ CHR '','' #
      w3 @ fusion_gpreg_name ! c @ NUL # rest"
    "\<forall>x \<in> set (w0 @ w1 @ w2 @ w3). blank x"
  obtains s' where "md_assemble expression e0 p s = Inr ((), s')" "tables_ready s'"
    "section_bytes s' = section_bytes s @ word_bytes (encode (R_insn (of_nat a) (of_nat b) (of_nat c) 0 (ucast (opc_index e))))"
    "gs_fixes s' = gs_fixes s" "gs_msgs s' = gs_msgs s" "gs_buf s' = gs_buf s" "\<forall>m. roomy (4 + m) s \<longrightarrow> roomy m s'"
proof -
  define q where "q = p + length w0 + length n"
  have "\<forall>c \<in> set w0. blank c" "CHR '' '' = NUL \<or> CHR '' '' = CHR '' ''" using assms(12) by simp_all
  with assms(1,11) obtain h where h: "md_assemble expression e0 p s = emit_line expression e0 q e (s\<lparr>op_hash_ctrl := Some h\<rparr>)"
    "tables_ready (s\<lparr>op_hash_ctrl := Some h\<rparr>)"
    unfolding q_def using named_insn_name [OF assms(4,5)] op_map_named [OF assms(4,5)] by (blast elim: md_assemble_lookup)
  define s1 where "s1 = s\<lparr>op_hash_ctrl := Some h\<rparr>"
  have d: "drop q (gs_buf s1) = (CHR '' '' # w1) @ fusion_gpreg_name ! a @ CHR '','' # w2 @
      fusion_gpreg_name ! b @ CHR '','' # w3 @ fusion_gpreg_name ! c @ NUL # rest"
    using drop_next [OF drop_next [OF assms(11)]] by (simp add: s1_def q_def)
  have "parse_rdab ops q s1 = Inr ((0, ops\<lparr>Rd := int a, RSa := int b, RSb := int c\<rparr>), s1)" for ops
    using assms(7-10) d by (rule parse_rdab_ok) (use assms(12) in \<open>auto simp: blank_def\<close>)
  then have bin: "assemble_insn_bin expression q (create_insn e) e0 s1 =
    Inr (Some ((create_insn e)\<lparr>insn_word := MAKE_R_TYPE (of_int (int a)) (of_int (int b)) (of_int (int c)) 0 (opc_index e)\<rparr>,
      e0\<lparr>X_op := O_absent\<rparr>, BFD_RELOC_UNUSED), s1)"
    by (intro assemble_rdab [OF assms(4,6)]) simp
  have e: "opc_cpid e = CPID_MAIN" "opc_index e < 16" using rdab_insns assms(4,6) by (auto simp: list_all_iff)
  have s1: "roomy m s1 = roomy m s" "\<not> pending_reloc s1" for m using assms(3) by (simp_all add: s1_def)
  obtain s' where s': "emit_line expression e0 q e s1 = Inr ((), s')"
    "emitted (MAKE_R_TYPE (of_int (int a)) (of_int (int b)) (of_int (int c)) 0 (opc_index e)) None s1 s'"
    "\<forall>m. roomy (4 + m) s1 \<longrightarrow> roomy m s'"
    using emit_line_main [OF bin e(1)] s1 assms(2) by (auto simp: simple_expr_def)
  show ?thesis
    using emitted_fields [OF s'(2)] h s'(1,3) encode_R_regs [OF assms(7-9) e(2)]
    by (intro that [of s']) (simp_all add: s1_def)
qed

subsection \<open>Immediates\<close>

lemma skip_blanks_operand:
  assumes "drop p (gs_buf s) = w @ tx" "\<forall>b \<in> set w. blank b" "starts_operand tx"
  shows "skip_blanks p s = Inr (p + length w, s)"
  using assms by (auto simp: starts_operand_def intro: skip_blanks_drop split: list.splits)

lemma parse_imm_blanks:
  assumes "drop p (gs_buf s) = w @ tx" "\<forall>b \<in> set w. blank b" "starts_operand tx" "reads expression tx e" "reloc \<in> set imm_relocs"
  obtains r where "\<forall>ops. parse_imm expression reloc ops p s =
    Inr ((ops\<lparr>imm := ucast (X_add_number e), imm_expr := e\<rparr>, p + length w), s\<lparr>expr_end := r\<rparr>)"
proof -
  obtain r where "expression (s\<lparr>gs_ilp := p + length w\<rparr>) = Inr (e, s\<lparr>gs_ilp := r\<rparr>)"
    using drop_next [OF assms(1)] assms(4) by (auto simp: reads_def)
  moreover have "s\<lparr>gs_ilp := r, expr_end := r, gs_ilp := gs_ilp s\<rparr> = s\<lparr>expr_end := r\<rparr>" by simp
  ultimately show ?thesis
    using assms(5) skip_blanks_operand [OF assms(1-3)] by (intro that [of r]) (simp add: parse_imm_def getExpression_def)
qed

lemma parse_imm_ok:
  assumes "drop p (gs_buf s) = tx" "starts_operand tx" "reads expression tx e" "reloc \<in> set imm_relocs"
  obtains r where "\<forall>ops. parse_imm expression reloc ops p s =
    Inr ((ops\<lparr>imm := ucast (X_add_number e), imm_expr := e\<rparr>, p), s\<lparr>expr_end := r\<rparr>)"
  by (rule parse_imm_blanks [of p s "[]" tx expression e reloc]) (use assms that in auto)

lemma parse_imm_last_ok:
  assumes "drop p (gs_buf s) = w @ tx" "\<forall>b \<in> set w. blank b" "starts_operand tx" "reads expression tx e" "reloc \<in> set imm_relocs"
  obtains r q where "parse_imm_last expression reloc ops p s =
    Inr ((0, ops\<lparr>imm := ucast (X_add_number e), imm_expr := e\<rparr>, q), s\<lparr>expr_end := r\<rparr>)"
proof -
  define q where "q = p + length w"
  have q: "drop q (gs_buf s) = tx" using drop_next [OF assms(1)] by (simp add: q_def)
  obtain r where r: "\<forall>ops. parse_imm expression reloc ops q s =
    Inr ((ops\<lparr>imm := ucast (X_add_number e), imm_expr := e\<rparr>, q), s\<lparr>expr_end := r\<rparr>)"
    using q assms(3-5) by (rule parse_imm_ok)
  have "skip_blanks q (s\<lparr>expr_end := r\<rparr>) = Inr (q, s\<lparr>expr_end := r\<rparr>)"
    using skip_blanks_operand [of q "s\<lparr>expr_end := r\<rparr>" "[]" tx] q assms(3) by simp
  moreover have "skip_blanks p s = Inr (q, s)" using skip_blanks_operand [OF assms(1-3)] by (simp add: q_def)
  ultimately show ?thesis using r by (intro that [of q r]) (simp add: parse_imm_last_def)
qed

lemma parse_rdi_ok:
  assumes "a < 32" "drop p (gs_buf s) = w1 @ fusion_gpreg_name ! a @ CHR '','' # w2 @ tx"
    "\<forall>b \<in> set w1. blank b" "\<forall>b \<in> set w2. blank b" "starts_operand tx" "reads expression tx e" "reloc \<in> set imm_relocs"
  obtains r q where "parse_rdi expression reloc ops p s =
    Inr ((0, ops\<lparr>Rd := int a, imm := ucast (X_add_number e), imm_expr := e\<rparr>, q), s\<lparr>expr_end := r\<rparr>)"
proof -
  obtain q1 r1 where 1: "skip_blanks p s = Inr (q1, s)" "parse_register_operand q1 s = Inr ((int a, r1), s)"
    "\<forall>msg. comma msg r1 s = Inr (Suc r1, s)" and d1: "drop (Suc r1) (gs_buf s) = w2 @ tx"
    using assms(1-3) by (rule blank_register_comma)
  obtain r q where "parse_imm_last expression reloc (ops\<lparr>Rd := int a\<rparr>) (Suc r1) s =
      Inr ((0, ops\<lparr>Rd := int a, imm := ucast (X_add_number e), imm_expr := e\<rparr>, q), s\<lparr>expr_end := r\<rparr>)"
    using d1 assms(4-7) by (rule parse_imm_last_ok)
  with 1 show ?thesis by (intro that [of q r]) (simp add: parse_rdi_def)
qed

lemma parse_rdai_ok:
  assumes "a < 32" "b < 32"
    "drop p (gs_buf s) = w1 @ fusion_gpreg_name ! a @ CHR '','' # w2 @ fusion_gpreg_name ! b @ CHR '','' # w3 @ tx"
    "\<forall>b \<in> set w1. blank b" "\<forall>b \<in> set w2. blank b" "\<forall>b \<in> set w3. blank b" "starts_operand tx" "reads expression tx e"
    "reloc \<in> set imm_relocs"
  obtains r q where "parse_rdai expression reloc ops p s =
    Inr ((0, ops\<lparr>Rd := int a, RSa := int b, imm := ucast (X_add_number e), imm_expr := e\<rparr>, q), s\<lparr>expr_end := r\<rparr>)"
proof -
  obtain q1 r1 where 1: "skip_blanks p s = Inr (q1, s)" "parse_register_operand q1 s = Inr ((int a, r1), s)"
    "\<forall>msg. comma msg r1 s = Inr (Suc r1, s)" and d1: "drop (Suc r1) (gs_buf s) = w2 @ fusion_gpreg_name ! b @ CHR '','' # w3 @ tx"
    using assms(1,3,4) by (rule blank_register_comma)
  obtain q2 r2 where 2: "skip_blanks (Suc r1) s = Inr (q2, s)" "parse_register_operand q2 s = Inr ((int b, r2), s)"
    "\<forall>msg. comma msg r2 s = Inr (Suc r2, s)" and d2: "drop (Suc r2) (gs_buf s) = w3 @ tx"
    using assms(2) d1 assms(5) by (rule blank_register_comma)
  obtain r q where "parse_imm_last expression reloc (ops\<lparr>Rd := int a, RSa := int b\<rparr>) (Suc r2) s =
      Inr ((0, ops\<lparr>Rd := int a, RSa := int b, imm := ucast (X_add_number e), imm_expr := e\<rparr>, q), s\<lparr>expr_end := r\<rparr>)"
    using d2 assms(6-9) by (rule parse_imm_last_ok)
  with 1 2 show ?thesis by (intro that [of q r]) (simp add: parse_rdai_def)
qed

lemma parse_rabi_ok:
  assumes "a < 32" "b < 32"
    "drop p (gs_buf s) = w1 @ fusion_gpreg_name ! a @ CHR '','' # fusion_gpreg_name ! b @ CHR '','' # w3 @ tx"
    "\<forall>b \<in> set w1. blank b" "\<forall>b \<in> set w3. blank b" "starts_operand tx" "reads expression tx e" "reloc \<in> set imm_relocs"
  obtains r q where "parse_rabi expression reloc ops p s =
    Inr ((0, ops\<lparr>RSa := int a, RSb := int b, imm := ucast (X_add_number e), imm_expr := e\<rparr>, q), s\<lparr>expr_end := r\<rparr>)"
proof -
  obtain q1 r1 where 1: "skip_blanks p s = Inr (q1, s)" "parse_register_operand q1 s = Inr ((int a, r1), s)"
    "\<forall>msg. comma msg r1 s = Inr (Suc r1, s)" and d1: "drop (Suc r1) (gs_buf s) = fusion_gpreg_name ! b @ CHR '','' # w3 @ tx"
    using assms(1,3,4) by (rule blank_register_comma)
  note 2 = register_comma [OF assms(2) d1]
  obtain r q where "parse_imm_last expression reloc (ops\<lparr>RSa := int a, RSb := int b\<rparr>) (Suc (Suc r1 + length (fusion_gpreg_name ! b))) s =
      Inr ((0, ops\<lparr>RSa := int a, RSb := int b, imm := ucast (X_add_number e), imm_expr := e\<rparr>, q), s\<lparr>expr_end := r\<rparr>)"
    using 2(3) assms(5-8) by (rule parse_imm_last_ok)
  with 1 2(1,2) show ?thesis by (intro that [of q r]) (simp add: parse_rabi_def)
qed

lemma accepted_register:
  assumes "i < 32" "i \<noteq> 3" "drop p (gs_buf s) = fusion_gpreg_name ! i @ t # rest" "accepts_after i t" "t \<noteq> CHR ''0''"
  shows "parse_register_operand p s = Inr ((int i, p + length (fusion_gpreg_name ! i)), s)"
  using parse_register_name [OF assms(1), of p s "[]" t rest] assms by (simp add: after_register_def)

text \<open>The base register in parentheses after an immediate.\<close>

lemma base_register:
  assumes "b < 32" "b \<noteq> 3" "accepts_after b (CHR '')'')"
    "drop p (gs_buf s) = x @ CHR ''('' # fusion_gpreg_name ! b @ CHR '')'' # NUL # rest"
    "\<forall>c \<in> set x. c \<noteq> CHR ''('' \<and> c \<noteq> NUL"
  obtains q r where "\<forall>msg. find_paren msg p s = Inr (Some q, s)" "parse_register_operand q s = Inr ((int b, r), s)"
    "skip_closing (Suc r) s = Inr (Suc r, s)"
proof -
  define q where "q = p + length x"
  define r where "r = Suc q + length (fusion_gpreg_name ! b)"
  have q: "drop q (gs_buf s) = CHR ''('' # fusion_gpreg_name ! b @ CHR '')'' # NUL # rest"
    using drop_next [OF assms(4)] by (simp add: q_def)
  have q1: "drop (Suc q) (gs_buf s) = fusion_gpreg_name ! b @ CHR '')'' # NUL # rest"
    using drop_next_Cons [OF assms(4)] by (simp add: q_def)
  have r1: "drop (Suc r) (gs_buf s) = NUL # rest" using drop_next_Cons [OF q1] by (simp add: r_def)
  have scan: "scan (\<lambda>c. c = CHR ''('' \<or> c = NUL) p s = Inr (q, s)"
    unfolding q_def using assms(4) by (rule scan_at) (use assms(5) in auto)
  have "q < length (gs_buf s)" "gs_buf s ! q = CHR ''(''"
    using q by (metis drop_all linorder_not_less list.distinct(1)) (rule nth_via_drop [OF q])
  then have "\<forall>msg. find_paren msg p s = Inr (Some (Suc q), s)" by (simp add: find_paren_def scan)
  moreover have "parse_register_operand (Suc q) s = Inr ((int b, r), s)"
    using accepted_register [OF assms(1,2) q1 assms(3)] by (simp add: r_def)
  moreover have "skip_closing (Suc r) s = Inr (Suc r, s)"
    unfolding skip_closing_def using scan_at [of "Suc r" s "[]" NUL rest] r1 by (simp add: NUL_def)
  ultimately show ?thesis by (rule that)
qed

lemma parse_rdai_offset_ok:
  assumes "a < 32" "b < 32" "b \<noteq> 3" "accepts_after b (CHR '')'')"
    "drop p (gs_buf s) = w1 @ fusion_gpreg_name ! a @ CHR '','' # x @ CHR ''('' # fusion_gpreg_name ! b @ CHR '')'' # NUL # rest"
    "\<forall>b \<in> set w1. blank b" "starts_operand x" "\<forall>c \<in> set x. c \<noteq> CHR ''('' \<and> c \<noteq> NUL"
    "reads expression (x @ CHR ''('' # fusion_gpreg_name ! b @ CHR '')'' # NUL # rest) e" "reloc \<in> set imm_relocs"
  obtains r where "parse_rdai_offset expression reloc ops p s =
    Inr ((0, ops\<lparr>Rd := int a, RSa := int b, imm := ucast (X_add_number e), imm_expr := e\<rparr>), s\<lparr>expr_end := r\<rparr>)"
   "parse_rabi_offset expression reloc ops p s =
    Inr ((0, ops\<lparr>RSb := int a, RSa := int b, imm := ucast (X_add_number e), imm_expr := e\<rparr>), s\<lparr>expr_end := r\<rparr>)"
proof -
  define tx where "tx = x @ CHR ''('' # fusion_gpreg_name ! b @ CHR '')'' # NUL # rest"
  obtain q1 r1 where 1: "skip_blanks p s = Inr (q1, s)" "parse_register_operand q1 s = Inr ((int a, r1), s)"
    "\<forall>msg. comma msg r1 s = Inr (Suc r1, s)" and d1: "drop (Suc r1) (gs_buf s) = tx"
    using assms(1,5,6) unfolding tx_def by (rule blank_register_comma)
  have tx: "starts_operand tx" using assms(7) by (auto simp: starts_operand_def tx_def split: list.splits)
  have skip: "skip_blanks (Suc r1) s = Inr (Suc r1, s)"
    using skip_blanks_operand [of "Suc r1" s "[]" tx] d1 tx by simp
  obtain r where r: "\<forall>ops. parse_imm expression reloc ops (Suc r1) s =
      Inr ((ops\<lparr>imm := ucast (X_add_number e), imm_expr := e\<rparr>, Suc r1), s\<lparr>expr_end := r\<rparr>)"
    using parse_imm_ok [OF d1 tx assms(9) [folded tx_def] assms(10)] .
  obtain q2 r2 where "\<forall>msg. find_paren msg (Suc r1) (s\<lparr>expr_end := r\<rparr>) = Inr (Some q2, s\<lparr>expr_end := r\<rparr>)"
    "parse_register_operand q2 (s\<lparr>expr_end := r\<rparr>) = Inr ((int b, r2), s\<lparr>expr_end := r\<rparr>)"
    "skip_closing (Suc r2) (s\<lparr>expr_end := r\<rparr>) = Inr (Suc r2, s\<lparr>expr_end := r\<rparr>)"
    using base_register [OF assms(2-4), of "Suc r1" "s\<lparr>expr_end := r\<rparr>" x rest] d1 assms(8) unfolding tx_def by auto
  with 1 skip r show ?thesis
    by (intro that [of r]) (simp_all add: parse_rdai_offset_def parse_rabi_offset_def)
qed

lemma parse_rai_offset_ok:
  assumes "b < 32" "b \<noteq> 3" "accepts_after b (CHR '')'')" "cpid \<noteq> CPID_MACRO"
    "drop p (gs_buf s) = w1 @ x @ CHR ''('' # fusion_gpreg_name ! b @ CHR '')'' # NUL # rest"
    "\<forall>b \<in> set w1. blank b" "starts_operand x" "\<forall>c \<in> set x. c \<noteq> CHR ''('' \<and> c \<noteq> NUL"
    "reads expression (x @ CHR ''('' # fusion_gpreg_name ! b @ CHR '')'' # NUL # rest) e" "reloc \<in> set imm_relocs"
  obtains r where "parse_rai_offset expression reloc cpid ops p s =
    Inr ((0, ops\<lparr>RSa := int b, imm := ucast (X_add_number e), imm_expr := e\<rparr>), s\<lparr>expr_end := r\<rparr>)"
proof -
  define tx where "tx = x @ CHR ''('' # fusion_gpreg_name ! b @ CHR '')'' # NUL # rest"
  define q where "q = p + length w1"
  have d1: "drop q (gs_buf s) = tx" using drop_next [OF assms(5)] by (simp add: q_def tx_def)
  have tx: "starts_operand tx" using assms(7) by (auto simp: starts_operand_def tx_def split: list.splits)
  have skip: "skip_blanks p s = Inr (q, s)"
    using skip_blanks_operand [OF assms(5) [folded tx_def] assms(6) tx] by (simp add: q_def)
  obtain r where r: "\<forall>ops. parse_imm expression reloc ops q s =
      Inr ((ops\<lparr>imm := ucast (X_add_number e), imm_expr := e\<rparr>, q), s\<lparr>expr_end := r\<rparr>)"
    using parse_imm_ok [OF d1 tx assms(9) [folded tx_def] assms(10)] .
  obtain q2 r2 where "\<forall>msg. find_paren msg q (s\<lparr>expr_end := r\<rparr>) = Inr (Some q2, s\<lparr>expr_end := r\<rparr>)"
    "parse_register_operand q2 (s\<lparr>expr_end := r\<rparr>) = Inr ((int b, r2), s\<lparr>expr_end := r\<rparr>)"
    "skip_closing (Suc r2) (s\<lparr>expr_end := r\<rparr>) = Inr (Suc r2, s\<lparr>expr_end := r\<rparr>)"
    using base_register [OF assms(1-3), of q "s\<lparr>expr_end := r\<rparr>" x rest] d1 assms(8) unfolding tx_def by auto
  with skip r assms(4) show ?thesis
    by (intro that [of r]) (simp_all add: parse_rai_offset_def)
qed

subsection \<open>Whole lines\<close>

lemma operand_insns_shape: "list_all insn_shape operand_insns"
  unfolding operand_insns_def named_insns_def fusion_insn_all_def opc_info_def opc_info_zero_def
  by (simp add: isa_defs insn_shape_def)

lemma return_reloc_table: "list_all (\<lambda>e. \<forall>s. return_reloc e s = Inr (line_reloc e, s)) operand_insns"
  unfolding operand_insns_def named_insns_def fusion_insn_all_def opc_info_def opc_info_zero_def
  by (simp add: isa_defs return_reloc_def line_reloc_def)

lemma ucast_small: "i < 4 \<Longrightarrow> (ucast (ucast (i :: insn_t) :: 2 word) :: insn_t) = i"
  "i < 256 \<Longrightarrow> (ucast (ucast (i :: insn_t) :: 8 word) :: insn_t) = i"
  by (simp_all add: word_uint_eq_iff unsigned_ucast_eq word_less_def take_bit_int_eq_self unsigned_take_bit_eq)

lemma imm_fields:
  "GEN_I_IMM (ucast (ucast n :: 12 word)) = GEN_I_IMM (ucast (n :: offsetT) :: insn_t)"
  "GEN_S_IMM (ucast (ucast n :: 14 word)) = GEN_S_IMM (ucast (n :: offsetT) :: insn_t)"
  "GEN_J_IMM (ucast (ucast n :: 21 word)) = GEN_J_IMM (ucast (n :: offsetT) :: insn_t)"
  "GEN_B_IMM (ucast (ucast n :: 14 word)) = GEN_B_IMM (ucast (n :: offsetT) :: insn_t)"
  "GEN_SYS_IMM (ucast (ucast n :: 8 word)) = GEN_SYS_IMM (ucast (n :: offsetT) :: insn_t)"
  "GEN_L_IMM (ucast (ucast n :: 14 word)) = GEN_L_IMM (ucast (n :: offsetT) :: insn_t)"
  "GEN_LI_IMM (ucast (ucast n :: 16 word)) = GEN_LI_IMM (ucast (n :: offsetT) :: insn_t)"
  by - (rule imm_i.gen_cong imm_s.gen_cong imm_j.gen_cong imm_b.gen_cong imm_sys.gen_cong imm_l.gen_cong imm_li.gen_cong,
      rule bit_word_eqI, simp add: bit_simps)+

lemma build_word_line:
  assumes "insn_shape mo" "rd < 32" "rsa < 32" "rsb < 32" "unused_zero (opc_args mo) rd rsa rsb"
    "opc_opc mo = OPC_IMM \<longrightarrow> X_op ex = O_constant" "imm ops = ucast (X_add_number ex)" "imm_expr ops = ex"
    "Rd ops = int rd" "RSa ops = int rsa" "RSb ops = int rsb"
  shows "build_word (create_insn mo) (line_reloc mo) ops s =
    Inr (((create_insn mo)\<lparr>insn_word := encode (line_insn mo rd rsa rsb (X_add_number ex))\<rparr>,
      if opc_opc mo = OPC_IMM then normalize_constant_expr ex else ex, line_reloc mo), s)"
proof -
  have r: "(ucast (of_nat rd :: 5 word) :: insn_t) = of_nat rd" "(ucast (of_nat rsa :: 5 word) :: insn_t) = of_nat rsa"
    "(ucast (of_nat rsb :: 5 word) :: insn_t) = of_nat rsb"
    using assms(2-4) by (simp_all add: ucast_reg)
  have gl: "(IMM AND 0x3fff :: insn_t) = GEN_L_IMM IMM" "(IMM AND 0xffff :: insn_t) = GEN_LI_IMM IMM" for IMM
    by (simp_all add: isa_defs and.commute)
  have mk: "MAKE_I_TYPE x y (ucast (X_add_number ex)) z = MAKE_I_TYPE x y (ucast (ucast (X_add_number ex) :: 12 word)) z"
    "MAKE_L_TYPE x y z (ucast (X_add_number ex)) = MAKE_L_TYPE x y z (ucast (ucast (X_add_number ex) :: 14 word))"
    "MAKE_S_TYPE z x y (ucast (X_add_number ex)) = MAKE_S_TYPE z x y (ucast (ucast (X_add_number ex) :: 14 word))"
    "MAKE_LI_TYPE x y (ucast (X_add_number ex)) = MAKE_LI_TYPE x y (ucast (ucast (X_add_number ex) :: 16 word))"
    "MAKE_J_TYPE x (ucast (X_add_number ex)) = MAKE_J_TYPE x (ucast (ucast (X_add_number ex) :: 21 word))"
    "MAKE_JL_TYPE x (ucast (X_add_number ex)) = MAKE_JL_TYPE x (ucast (ucast (X_add_number ex) :: 21 word))"
    "MAKE_B_TYPE x y (ucast (X_add_number ex)) z = MAKE_B_TYPE x y (ucast (ucast (X_add_number ex) :: 14 word)) z"
    "MAKE_SYS_TYPE x y z (ucast (X_add_number ex)) = MAKE_SYS_TYPE x y z (ucast (ucast (X_add_number ex) :: 8 word))" for x y z
    unfolding MAKE_I_TYPE_def MAKE_L_TYPE_def MAKE_S_TYPE_def MAKE_LI_TYPE_def MAKE_J_TYPE_def MAKE_JL_TYPE_def MAKE_B_TYPE_def
      MAKE_SYS_TYPE_def gl imm_fields by (rule refl)+
  from assms(1) consider (R) "opc_opc mo = OPC_INT" "opc_index mo < 16" | (I) "opc_opc mo = OPC_IMM" "opc_index mo < 16"
    | (L) "opc_opc mo = OPC_LD" "opc_index mo < 4" | (S) "opc_opc mo = OPC_ST" "opc_index mo < 4"
    | (LI) "opc_opc mo = OPC_LI" "opc_index mo < 16" | (J) "opc_opc mo = OPC_JMP" | (JL) "opc_opc mo = OPC_JLNK"
    | (B) "opc_opc mo = OPC_BRANCH" "opc_index mo < 4" | (SYS) "opc_opc mo = OPC_SYS" "opc_index mo < 256"
    by (auto simp: insn_shape_def split: if_splits)
  then show ?thesis
  proof cases
    case I
    then show ?thesis using assms(6)
      by (simp add: build_word_def line_insn_def create_insn_def assms(7-11) r mk ucast_idx ucast_small opc_defs check_absolute_expr_def Let_def)
  next
    case J
    then have "int rsa = 0 \<or> line_reloc mo = BFD_RELOC_FUSION_21"
      using assms(1,5) by (auto simp: line_reloc_def insn_shape_def unused_zero_def opc_defs split: if_splits)
    with J show ?thesis
      by (auto simp: build_word_def line_insn_def create_insn_def assms(7-11) r mk opc_defs Let_def)
  next
    case JL
    then have "int rsa = 0 \<or> line_reloc mo = BFD_RELOC_FUSION_21"
      using assms(1,5) by (auto simp: line_reloc_def insn_shape_def unused_zero_def opc_defs split: if_splits)
    with JL show ?thesis
      by (auto simp: build_word_def line_insn_def create_insn_def assms(7-11) r mk opc_defs Let_def)
  qed (simp_all add: build_word_def line_insn_def create_insn_def assms(7-11) r mk ucast_idx ucast_small opc_defs Let_def)
qed

lemma operand_insns_facts:
  assumes "mo \<in> set operand_insns"
  shows "mo \<in> set named_insns" "opc_cpid mo = CPID_MAIN" "insn_shape mo" "return_reloc mo s = Inr (line_reloc mo, s)"
    "opc_args mo \<noteq> USE_RDAB \<Longrightarrow> line_reloc mo \<in> insn_relocs"
proof -
  show "mo \<in> set named_insns" "opc_cpid mo = CPID_MAIN" using assms by (auto simp: operand_insns_def)
  show shape: "insn_shape mo" using assms operand_insns_shape by (auto simp: list_all_iff)
  show "return_reloc mo s = Inr (line_reloc mo, s)" using assms return_reloc_table by (auto simp: list_all_iff)
  show "opc_args mo \<noteq> USE_RDAB \<Longrightarrow> line_reloc mo \<in> insn_relocs"
    using shape by (auto simp: insn_shape_def line_reloc_def insn_relocs_def imm_relocs_def opc_defs Let_def split: if_splits)
qed

lemma starts_operand_append: "starts_operand x \<Longrightarrow> starts_operand (x @ y)"
  by (auto simp: starts_operand_def split: list.splits)

lemma line_operands:
  assumes "insn_shape mo" "opc_args mo \<noteq> USE_RDAB" "opc_cpid mo = CPID_MAIN" "registers_ok (opc_args mo) rd rsa rsb"
    "immediate_ok expression mo rsa x rest ex"
    "drop q (gs_buf s) = CHR '' '' # operand_text (opc_args mo) rd rsa rsb x @ NUL # rest"
    "reloc \<in> set imm_relocs"
  obtains r ops where "operands_imm expression reloc CPID_MAIN (opc_args mo) \<lparr>Rd = 0, RSa = 0, RSb = 0, imm = 0, imm_expr = e0\<rparr> q s =
      Inr (ops, s\<lparr>expr_end := r\<rparr>)" "Rd ops = int rd" "RSa ops = int rsa" "RSb ops = int rsb"
    "imm ops = ucast (X_add_number ex)" "imm_expr ops = ex"
proof -
  define ops0 where "ops0 = \<lparr>Rd = 0, RSa = 0, RSb = 0, imm = 0, imm_expr = e0\<rparr>"
  define tx where "tx = x @ imm_tail (opc_args mo) rsa @ NUL # rest"
  have regs: "rd < 32" "rsa < 32" "rsb < 32" using assms(4) by (simp_all add: registers_ok_def)
  have x: "starts_operand x" "\<forall>c \<in> set x. c \<noteq> CHR ''('' \<and> c \<noteq> NUL" "reads expression tx ex" "starts_operand tx"
    using assms(2,5) by (simp_all add: immediate_ok_def tx_def starts_operand_append)
  have w: "\<forall>b \<in> set [CHR '' '']. blank b" by (simp add: blank_def)
  have cpid: "CPID_MAIN \<noteq> CPID_MACRO" by (simp add: isa_defs)
  have nil: "\<forall>b \<in> set []. blank b" by simp
  have paren: "rsa \<noteq> 3" "accepts_after rsa (CHR '')'')" if "opc_args mo \<in> {USE_RDAI_O, USE_RABI_O, USE_RAI_O}"
    using assms(4) that by (auto simp: registers_ok_def)
  note d = assms(6) [unfolded operand_text_def Let_def]
  define ops where "ops = \<lparr>Rd = int rd, RSa = int rsa, RSb = int rsb, imm = ucast (X_add_number ex), imm_expr = ex\<rparr>"
  note result = that
  have fin: thesis if "operands_imm expression reloc CPID_MAIN (opc_args mo) ops0 q s = Inr (ops, s\<lparr>expr_end := r\<rparr>)" for r
    by (rule result [OF that [unfolded ops0_def]]) (simp_all add: ops_def)
  note simps = operands_imm_def ops0_def ops_def unused_zero_def isa_defs
  have zero: "unused_zero (opc_args mo) rd rsa rsb" using assms(4) by (simp add: registers_ok_def)
  from assms(1,2) consider (RDAI) "opc_args mo = USE_RDAI" | (RDI) "opc_args mo = USE_RDI" | (RABI) "opc_args mo = USE_RABI"
    | (RDAI_O) "opc_args mo = USE_RDAI_O" | (RABI_O) "opc_args mo = USE_RABI_O" | (RAI_O) "opc_args mo = USE_RAI_O"
    | (IM) "opc_args mo = USE_I"
    by (auto simp: insn_shape_def split: if_splits)
  then show thesis
  proof cases
    case RDAI
    then have dq: "drop q (gs_buf s) = [CHR '' ''] @ fusion_gpreg_name ! rd @ CHR '','' # [] @ fusion_gpreg_name ! rsa @ CHR '','' # [] @ tx"
      using d by (simp add: isa_defs tx_def imm_tail_def)
    show thesis
      by (rule parse_rdai_ok [OF regs(1,2) dq w nil nil x(4,3) assms(7), of ops0], rule fin)
         (use zero RDAI in \<open>simp add: simps\<close>)
  next
    case RDI
    then have dq: "drop q (gs_buf s) = [CHR '' ''] @ fusion_gpreg_name ! rd @ CHR '','' # [] @ tx"
      using d by (simp add: isa_defs tx_def imm_tail_def)
    show thesis
      by (rule parse_rdi_ok [OF regs(1) dq w nil x(4,3) assms(7), of ops0], rule fin)
         (use zero RDI in \<open>simp add: simps\<close>)
  next
    case RABI
    then have dq: "drop q (gs_buf s) = [CHR '' ''] @ fusion_gpreg_name ! rsa @ CHR '','' # fusion_gpreg_name ! rsb @ CHR '','' # [] @ tx"
      using d by (simp add: isa_defs tx_def imm_tail_def)
    show thesis
      by (rule parse_rabi_ok [OF regs(2,3) dq w nil x(4,3) assms(7), of ops0], rule fin)
         (use zero RABI in \<open>simp add: simps\<close>)
  next
    case RDAI_O
    then have tx: "reads expression (x @ CHR ''('' # fusion_gpreg_name ! rsa @ CHR '')'' # NUL # rest) ex"
      using x(3) by (simp add: tx_def imm_tail_def)
    from RDAI_O have dq: "drop q (gs_buf s) = [CHR '' ''] @ fusion_gpreg_name ! rd @ CHR '','' # x @ CHR ''('' # fusion_gpreg_name ! rsa @ CHR '')'' # NUL # rest"
      using d by (simp add: isa_defs)
    show thesis
      by (rule parse_rdai_offset_ok [OF regs(1,2) paren dq w x(1,2) tx assms(7), of ops0], use RDAI_O in simp, use RDAI_O in simp,
          rule fin) (use zero RDAI_O in \<open>simp add: simps\<close>)
  next
    case RABI_O
    then have tx: "reads expression (x @ CHR ''('' # fusion_gpreg_name ! rsa @ CHR '')'' # NUL # rest) ex"
      using x(3) by (simp add: tx_def imm_tail_def)
    from RABI_O have dq: "drop q (gs_buf s) = [CHR '' ''] @ fusion_gpreg_name ! rsb @ CHR '','' # x @ CHR ''('' # fusion_gpreg_name ! rsa @ CHR '')'' # NUL # rest"
      using d by (simp add: isa_defs)
    show thesis
      by (rule parse_rdai_offset_ok [OF regs(3,2) paren dq w x(1,2) tx assms(7), of ops0], use RABI_O in simp, use RABI_O in simp,
          rule fin) (use zero RABI_O in \<open>simp add: simps\<close>)
  next
    case RAI_O
    then have tx: "reads expression (x @ CHR ''('' # fusion_gpreg_name ! rsa @ CHR '')'' # NUL # rest) ex"
      using x(3) by (simp add: tx_def imm_tail_def)
    from RAI_O have dq: "drop q (gs_buf s) = [CHR '' ''] @ x @ CHR ''('' # fusion_gpreg_name ! rsa @ CHR '')'' # NUL # rest"
      using d by (simp add: isa_defs)
    show thesis
      by (rule parse_rai_offset_ok [OF regs(2) paren cpid dq w x(1,2) tx assms(7), of ops0], use RAI_O in simp, use RAI_O in simp,
          rule fin) (use zero RAI_O in \<open>simp add: simps\<close>)
  next
    case IM
    then have dq: "drop q (gs_buf s) = [CHR '' ''] @ tx"
      using d by (simp add: isa_defs tx_def imm_tail_def)
    obtain r where r: "\<forall>ops. parse_imm expression reloc ops q s =
        Inr ((ops\<lparr>imm := ucast (X_add_number ex), imm_expr := ex\<rparr>, q + length [CHR '' '']), s\<lparr>expr_end := r\<rparr>)"
      using dq w x(4,3) assms(7) by (rule parse_imm_blanks)
    have "drop (Suc q) (gs_buf s) = tx" using drop_next [OF dq] by simp
    then have "skip_blanks (Suc q) (s\<lparr>expr_end := r\<rparr>) = Inr (Suc q, s\<lparr>expr_end := r\<rparr>)" "Suc q < length (gs_buf s)"
      using skip_blanks_operand [of "Suc q" "s\<lparr>expr_end := r\<rparr>" "[]" tx] x(4)
      by (auto simp: starts_operand_def) (metis drop_all linorder_not_less list.case(1))
    with r show thesis by (intro fin [of r]) (use zero IM in \<open>simp add: simps\<close>)
  qed
qed

lemma assemble_line_imm:
  assumes "mo \<in> set operand_insns" "opc_args mo \<noteq> USE_RDAB" "registers_ok (opc_args mo) rd rsa rsb"
    "immediate_ok expression mo rsa x rest ex" "drop q (gs_buf s) = CHR '' '' # operand_text (opc_args mo) rd rsa rsb x @ NUL # rest"
  obtains r where "assemble_insn_bin expression q (create_insn mo) e0 s =
    Inr (Some ((create_insn mo)\<lparr>insn_word := encode (line_insn mo rd rsa rsb (X_add_number ex))\<rparr>,
      if opc_opc mo = OPC_IMM then normalize_constant_expr ex else ex, line_reloc mo), s\<lparr>expr_end := r\<rparr>)"
proof -
  note mo = operand_insns_facts [OF assms(1)]
  have imm: "opc_imm_mask mo \<noteq> MASK_NO_IMM" "\<not> MAX_USE_OP < opc_args mo" "line_reloc mo \<in> set imm_relocs"
    using mo(3,5) assms(2) by (auto simp: insn_shape_def insn_relocs_def)
  have cpid: "\<not> CPID_MAX < CPID_MAIN" by (simp add: isa_defs)
  obtain r ops where ops: "operands_imm expression (line_reloc mo) CPID_MAIN (opc_args mo)
      \<lparr>Rd = 0, RSa = 0, RSb = 0, imm = 0, imm_expr = e0\<lparr>X_op := O_absent\<rparr>\<rparr> q s = Inr (ops, s\<lparr>expr_end := r\<rparr>)"
    "Rd ops = int rd" "RSa ops = int rsa" "RSb ops = int rsb" "imm ops = ucast (X_add_number ex)" "imm_expr ops = ex"
    using mo(3) assms(2) mo(2) assms(3-5) imm(3) by (rule line_operands)
  have "build_word (create_insn mo) (line_reloc mo) ops t =
    Inr (((create_insn mo)\<lparr>insn_word := encode (line_insn mo rd rsa rsb (X_add_number ex))\<rparr>,
      if opc_opc mo = OPC_IMM then normalize_constant_expr ex else ex, line_reloc mo), t)" for t
    using assms(2-4) ops(2-6) by (intro build_word_line [OF mo(3)]) (auto simp: registers_ok_def immediate_ok_def)
  with ops(1) imm cpid mo(2,4) show ?thesis
    by (intro that [of r]) (simp add: assemble_insn_bin_def create_insn_def Let_def)
qed

lemma simple_normalize: "simple_expr e \<Longrightarrow> simple_expr (normalize_constant_expr e)"
  by (simp add: simple_expr_def normalize_constant_expr_def)

lemma line_emitted:
  assumes "tables_ready s" "roomy 4 s" "\<not> pending_reloc s" "mo \<in> set operand_insns" "opc_name mo = Some n"
    and "drop p (gs_buf s) = n @ '' '' @ operand_text (opc_args mo) rd rsa rsb x @ NUL # rest"
    and "registers_ok (opc_args mo) rd rsa rsb" "immediate_ok expression mo rsa x rest ex" "opc_args mo \<noteq> USE_RDAB"
  obtains h r s' where "md_assemble expression e0 p s = Inr ((), s')" "tables_ready s'"
    "emitted (encode (line_insn mo rd rsa rsb (X_add_number ex))) (line_fix mo ex) (s\<lparr>op_hash_ctrl := h, expr_end := r\<rparr>) s'"
    "\<forall>m. roomy (4 + m) s \<longrightarrow> roomy m s'"
proof -
  note mo = operand_insns_facts [OF assms(4)]
  define q where "q = p + length n"
  have dr: "drop p (gs_buf s) = [] @ n @ CHR '' '' # operand_text (opc_args mo) rd rsa rsb x @ NUL # rest"
    using assms(6) by simp
  obtain h where h: "md_assemble expression e0 p s = emit_line expression e0 q mo (s\<lparr>op_hash_ctrl := Some h\<rparr>)"
    "tables_ready (s\<lparr>op_hash_ctrl := Some h\<rparr>)"
    using md_assemble_lookup [OF assms(1) dr _ named_insn_name [OF mo(1) assms(5)] _ op_map_named [OF mo(1) assms(5)]]
    by (auto simp: q_def)
  define s1 where "s1 = s\<lparr>op_hash_ctrl := Some h\<rparr>"
  have d: "drop q (gs_buf s1) = CHR '' '' # operand_text (opc_args mo) rd rsa rsb x @ NUL # rest"
    using drop_next [of p "gs_buf s" n] dr by (simp add: s1_def q_def)
  define ex' where "ex' = (if opc_opc mo = OPC_IMM then normalize_constant_expr ex else ex)"
  obtain r where bin: "assemble_insn_bin expression q (create_insn mo) e0 s1 =
    Inr (Some ((create_insn mo)\<lparr>insn_word := encode (line_insn mo rd rsa rsb (X_add_number ex))\<rparr>, ex', line_reloc mo),
      s1\<lparr>expr_end := r\<rparr>)"
    using assemble_line_imm [OF assms(4,9,7,8) d, of e0] by (auto simp: ex'_def)
  have "simple_expr ex'" using assms(8,9) by (auto simp: immediate_ok_def ex'_def simple_normalize)
  moreover have "roomy m (s1\<lparr>expr_end := r\<rparr>) = roomy m s" for m by (simp add: s1_def roomy_def)
  moreover have "line_reloc mo \<noteq> BFD_RELOC_UNUSED"
    using mo(5) [OF assms(9)] by (auto simp: insn_relocs_def imm_relocs_def)
  ultimately obtain s' where s': "emit_line expression e0 q mo s1 = Inr ((), s')"
    "emitted (encode (line_insn mo rd rsa rsb (X_add_number ex))) (Some (insn_fix ex' (line_reloc mo))) (s1\<lparr>expr_end := r\<rparr>) s'"
    "\<forall>m. roomy (4 + m) s \<longrightarrow> roomy m s'"
    using emit_line_main [OF bin mo(2)] assms(2,3) mo(5) [OF assms(9)] by (auto simp: s1_def)
  show ?thesis
    using h emitted_fields(4) [OF s'(2)] s' assms(9)
    by (intro that [of s' r "Some h"]) (simp_all add: s1_def line_fix_def ex'_def [symmetric] tables_ready_def)
qed

text \<open>
  C2: the assembler refines the encoding. A line with the mnemonic of a machine instruction
  that has operands, other than \<open>stspr\<close> and \<open>ldspr\<close>, and with well-formed operands (as a base register one that
  the parser accepts before a parenthesis, no \<open>gp\<close> at the end of the line) is accepted without a message, appends exactly the four bytes of
  the instruction that its mnemonic, registers and immediate denote to the section, and
  records one fixup at that place with the relocation of the instruction when it has an
  immediate, none otherwise.
\<close>

theorem assemble_line:
  assumes "tables_ready s" "roomy 4 s" "\<not> pending_reloc s" "mo \<in> set operand_insns" "opc_name mo = Some n"
    and "drop p (gs_buf s) = n @ '' '' @ operand_text (opc_args mo) rd rsa rsb x @ NUL # rest"
    and "registers_ok (opc_args mo) rd rsa rsb" "immediate_ok expression mo rsa x rest ex"
  shows "\<exists>s'. md_assemble expression e0 p s = Inr ((), s') \<and> tables_ready s' \<and> gs_msgs s' = gs_msgs s \<and>
    section_bytes s' = section_bytes s @ word_bytes (encode (line_insn mo rd rsa rsb (X_add_number ex))) \<and>
    gs_fixes s' = gs_fixes s @ (case line_fix mo ex of None \<Rightarrow> []
      | Some fx \<Rightarrow> [place_fix (frag_now s') (length (fr_literal (last (gs_frags s'))) - 4) fx]) \<and>
    (\<forall>m. roomy (4 + m) s \<longrightarrow> roomy m s')"
proof (cases "opc_args mo = USE_RDAB")
  case True
  note mo = operand_insns_facts [OF assms(4)]
  have "drop p (gs_buf s) = [] @ n @ CHR '' '' # [] @ fusion_gpreg_name ! rd @ CHR '','' # [] @ fusion_gpreg_name ! rsa @ CHR '','' #
      [] @ fusion_gpreg_name ! rsb @ NUL # rest"
    using assms(6) True by (simp add: operand_text_def Let_def)
  moreover have "\<forall>x \<in> set ([] @ [] @ [] @ []). blank x" by simp
  moreover have "rd < 32" "rsa < 32" "rsb < 32" "rsb \<noteq> 3" using assms(7) True by (simp_all add: registers_ok_def)
  moreover have "line_insn mo rd rsa rsb (X_add_number ex) = R_insn (of_nat rd) (of_nat rsa) (of_nat rsb) 0 (ucast (opc_index mo))"
    using mo(3) True by (simp add: line_insn_def insn_shape_def)
  ultimately show ?thesis
    using md_assemble_R [OF assms(1-3) mo(1) assms(5) True, of rd rsa rsb p "[]" "[]" "[]" "[]" rest expression e0]
    by (auto simp: line_fix_def True)
next
  case False
  obtain h r s' where s': "md_assemble expression e0 p s = Inr ((), s')" "tables_ready s'"
    "emitted (encode (line_insn mo rd rsa rsb (X_add_number ex))) (line_fix mo ex) (s\<lparr>op_hash_ctrl := h, expr_end := r\<rparr>) s'"
    "\<forall>m. roomy (4 + m) s \<longrightarrow> roomy m s'"
    using assms False by (rule line_emitted)
  from emitted_fields [OF s'(3)] s'(1,2,4) False show ?thesis
    by (intro exI [of _ s']) (simp add: line_fix_def section_bytes_def)
qed

theorem assemble_line_witness:
  "\<exists>s s'. md_begin True (start_state (''li sp,5'' @ [NUL])) = Inr ((), s) \<and>
    md_assemble (\<lambda>s. Inr (no_expr\<lparr>X_op := O_constant, X_add_number := 5\<rparr>, s\<lparr>gs_ilp := Suc (gs_ilp s)\<rparr>)) no_expr 0 s = Inr ((), s') \<and>
    section_bytes s' = word_bytes (encode (LI_insn 1 0 5)) \<and> gs_msgs s' = []"
proof -
  define mo where "mo = opc_info ''li'' 0x0 USE_RDI FRMT_LI CPID_MAIN MASK_IMM_LI OPC_LI"
  obtain s where s: "md_begin True (start_state (''li sp,5'' @ [NUL])) = Inr ((), s)" "tables_ready s"
    "gs_buf s = ''li sp,5'' @ [NUL]" "\<forall>n \<le> 64. roomy n s" "\<not> pending_reloc s" "section_bytes s = []" "gs_msgs s = []"
    by (rule start_ready)
  have mo: "mo \<in> set operand_insns" "opc_name mo = Some ''li''" "opc_args mo = USE_RDI" "opc_opc mo = OPC_LI" "opc_index mo = 0"
    by (simp_all add: mo_def operand_insns_def named_insns_def fusion_insn_all_def opc_info_def opc_info_zero_def isa_defs)
  have "drop 0 (gs_buf s) = ''li'' @ '' '' @ operand_text (opc_args mo) 1 0 0 ''5'' @ NUL # []"
    by (simp add: s(3) mo(3) operand_text_def fusion_gpreg_name_def isa_defs)
  moreover have "registers_ok (opc_args mo) 1 0 0" by (simp add: mo(3) registers_ok_def unused_zero_def isa_defs)
  moreover have "immediate_ok (\<lambda>s. Inr (no_expr\<lparr>X_op := O_constant, X_add_number := 5\<rparr>, s\<lparr>gs_ilp := Suc (gs_ilp s)\<rparr>)) mo 0 ''5'' []
      (no_expr\<lparr>X_op := O_constant, X_add_number := 5\<rparr>)"
    by (auto simp: immediate_ok_def starts_operand_def blank_def simple_expr_def reads_def NUL_def)
  moreover have "line_insn mo 1 0 0 5 = LI_insn 1 0 5" by (simp add: line_insn_def mo isa_defs)
  ultimately show ?thesis
    using s assemble_line [OF s(2) _ s(5) mo(1,2), of 0 1 0 0 "''5''" "[]"] by fastforce
qed

end
