(* ===== verification/C_Printf.thy ===== *)
theory C_Printf
  imports Prelude
begin

text \<open>
  The conversions of \<open>printf\<close> that the program uses, as functions to strings: decimal
  numbers, hexadecimal numbers padded with zeros, and single characters.
\<close>

definition digit :: "nat \<Rightarrow> char" where
  "digit n = (if n < 10 then char_of (48 + n) else char_of (87 + n))"

fun digits :: "nat \<Rightarrow> nat \<Rightarrow> string" where
  "digits b n = (if b < 2 \<or> n < b then [digit n] else digits b (n div b) @ [digit (n mod b)])"

declare digits.simps [simp del]

definition pad0 :: "nat \<Rightarrow> string \<Rightarrow> string" where
  "pad0 w s = replicate (w - length s) (CHR ''0'') @ s"

text \<open>\<open>%d\<close> and \<open>%u\<close>, and \<open>%0wx\<close> of an unsigned number of any width, and \<open>%c\<close>.\<close>

definition fmt_d :: "int \<Rightarrow> string" where
  "fmt_d i = (if i < 0 then CHR ''-'' # digits 10 (nat (- i)) else digits 10 (nat i))"

definition fmt_x :: "nat \<Rightarrow> 'a::len word \<Rightarrow> string" where
  "fmt_x w v = pad0 w (digits 16 (unat v))"

definition fmt_c :: "bfd_byte \<Rightarrow> string" where
  "fmt_c b = [char_of (unat b)]"

subsection \<open>Reading a number back\<close>

lemma digit_chars [simp]:
  "digit 0 = CHR ''0''"
  "digit 1 = CHR ''1''"
  "digit 2 = CHR ''2''"
  "digit 3 = CHR ''3''"
  "digit 4 = CHR ''4''"
  "digit 5 = CHR ''5''"
  "digit 6 = CHR ''6''"
  "digit 7 = CHR ''7''"
  "digit 8 = CHR ''8''"
  "digit 9 = CHR ''9''"
  "digit 10 = CHR ''a''"
  "digit 11 = CHR ''b''"
  "digit 12 = CHR ''c''"
  "digit 13 = CHR ''d''"
  "digit 14 = CHR ''e''"
  "digit 15 = CHR ''f''"
  by code_simp+

lemma digit_Suc_0 [simp]: "digit (Suc 0) = CHR ''1''"
  by code_simp

definition digit_val :: "char \<Rightarrow> nat" where
  "digit_val c = (let n = of_char c in if n < 58 then n - 48 else n - 87)"

definition digits_val :: "nat \<Rightarrow> string \<Rightarrow> nat" where
  "digits_val b s = foldl (\<lambda>acc c. b * acc + digit_val c) 0 s"

lemma digit_val_digit: "n < 16 \<Longrightarrow> digit_val (digit n) = n"
  by (auto simp: digit_def digit_val_def)

lemma digits_val_digits: "2 \<le> b \<Longrightarrow> b \<le> 16 \<Longrightarrow> digits_val b (digits b n) = n"
proof (induction b n rule: digits.induct)
  case (1 b n)
  show ?case
  proof (cases "n < b")
    case True
    with 1 show ?thesis by (subst digits.simps) (simp add: digits_val_def digit_val_digit)
  next
    case False
    with 1 have "digits_val b (digits b (n div b)) = n div b" by simp
    with False 1 show ?thesis
      by (subst digits.simps) (simp add: digits_val_def digit_val_digit less_le_trans [OF mod_less_divisor])
  qed
qed

lemma digits_val_pad0: "digits_val b (pad0 w s) = digits_val b s"
proof -
  have "foldl (\<lambda>acc c. b * acc + digit_val c) 0 (replicate k (CHR ''0'')) = 0" for k
    by (induction k) (simp_all add: digit_val_def)
  then show ?thesis by (simp add: digits_val_def pad0_def)
qed

lemma fmt_x_read: "digits_val 16 (fmt_x w v) = unat v"
  by (simp add: fmt_x_def digits_val_pad0 digits_val_digits)

lemma fmt_d_read: "0 \<le> i \<Longrightarrow> int (digits_val 10 (fmt_d i)) = i"
  by (simp add: fmt_d_def digits_val_digits)

end
