(* ===== verification/Fusion_Dis.thy ===== *)
theory Fusion_Dis
  imports C_Printf Bfd_Bytes Opcode_Table
begin

text \<open>
  The disassembler of \<^verbatim>\<open>opcodes/fusion-dis.c\<close>. The model returns what the calls of
  \<open>info->fprintf_func\<close> print, one definition per branch of \<open>print_insn_fusion\<close>. Reading the
  program's memory, \<open>info->read_memory_func\<close>, is a parameter that gives a status and four
  bytes. An index past the end of a name table is the fault \<open>Out_of_bounds\<close>, printing a
  null name the fault \<open>Null_pointer\<close>.
\<close>

subsection \<open>Sign extension\<close>

definition SEXT_14B :: "insn_t \<Rightarrow> insn_t" where
  "SEXT_14B N = (N AND 0x3fff) OR (if N AND 0x2000 \<noteq> 0 then 0xffffc000 else 0)"

definition SEXT_12B :: "insn_t \<Rightarrow> insn_t" where
  "SEXT_12B N = (N AND 0xfff) OR (if N AND 0x800 \<noteq> 0 then 0xfffff000 else 0)"

definition SEXT_21B :: "insn_t \<Rightarrow> insn_t" where
  "SEXT_21B N = (N AND 0x1fffff) OR (if N AND 0x100000 \<noteq> 0 then 0xffe00000 else 0)"

subsection \<open>The branches\<close>

definition TAB :: string where "TAB = [CHR 0x09]"
definition COMMA :: string where "COMMA = CHR '','' # TAB"

definition gpreg :: "insn_t \<Rightarrow> string result" where
  "gpreg n = rd8 fusion_gpreg_name (unat n)"

definition spreg :: "insn_t \<Rightarrow> string result" where
  "spreg n = rd8 fusion_spreg_name (unat n)"

definition insn_name :: "fusion_opc_info_t \<Rightarrow> string result" where
  "insn_name insn = (case opc_name insn of None \<Rightarrow> Inl Null_pointer | Some nm \<Rightarrow> Inr nm)"

text \<open>The operand lists that several branches print.\<close>

definition print_rr :: "fusion_opc_info_t \<Rightarrow> string result \<Rightarrow> string result \<Rightarrow> string result" where
  "print_rr insn r1 r2 = rbind (insn_name insn) (\<lambda>nm. rbind r1 (\<lambda>s1. rbind r2 (\<lambda>s2.
     Inr (nm @ TAB @ s1 @ COMMA @ s2))))"

definition print_rx :: "fusion_opc_info_t \<Rightarrow> string result \<Rightarrow> string \<Rightarrow> string result" where
  "print_rx insn r1 x = rbind (insn_name insn) (\<lambda>nm. rbind r1 (\<lambda>s1. Inr (nm @ TAB @ s1 @ COMMA @ x)))"

definition print_rrx :: "fusion_opc_info_t \<Rightarrow> string result \<Rightarrow> string result \<Rightarrow> string \<Rightarrow> string result" where
  "print_rrx insn r1 r2 x = rbind (print_rr insn r1 r2) (\<lambda>s. Inr (s @ COMMA @ x))"

definition print_rxr :: "fusion_opc_info_t \<Rightarrow> string result \<Rightarrow> string \<Rightarrow> string result \<Rightarrow> string result" where
  "print_rxr insn r1 x r2 = rbind (insn_name insn) (\<lambda>nm. rbind r1 (\<lambda>s1. rbind r2 (\<lambda>s2.
     Inr (nm @ TAB @ s1 @ COMMA @ x @ ''('' @ s2 @ '')''))))"

definition print_R :: "insn_t \<Rightarrow> string result" where
  "print_R w = rbind (rd8 fusion_insn_R (unat (GET_ALUOP w))) (\<lambda>insn.
     rbind (print_rr insn (gpreg (GET_RD w)) (gpreg (GET_RSA w))) (\<lambda>s.
     rbind (gpreg (GET_RSB w)) (\<lambda>b. Inr (s @ COMMA @ b))))"

definition print_I :: "insn_t \<Rightarrow> string result" where
  "print_I w = rbind (rd8 fusion_insn_I (unat (GET_ALUOP w))) (\<lambda>insn.
     let aluop = opc_index insn in
     if aluop = 0 \<or> aluop = 1 \<or> aluop = 8 \<or> aluop = 9 \<or> aluop = 10 \<or> aluop = 11 \<or> aluop = 12 then
       print_rrx insn (gpreg (GET_RD w)) (gpreg (GET_RSA w)) (fmt_d (sint (SEXT_12B (GET_IMM_I w))))
     else if aluop = 2 \<or> aluop = 3 \<or> aluop = 5 \<or> aluop = 6 \<or> aluop = 7 then
       print_rrx insn (gpreg (GET_RD w)) (gpreg (GET_RSA w)) (''0x'' @ fmt_x 3 (GET_IMM_I w))
     else if aluop = 4 then
       print_rx insn (gpreg (GET_RD w)) (''0x'' @ fmt_x 3 (GET_IMM_I w))
     else
       rbind (gpreg (GET_RD w)) (\<lambda>d. rbind (gpreg (GET_RSA w)) (\<lambda>a.
       Inr (''nri'' @ TAB @ d @ COMMA @ a @ COMMA @ ''0x'' @ fmt_x 3 (GET_IMM_I w)))))"

definition print_L :: "insn_t \<Rightarrow> string result" where
  "print_L w = rbind (rd8 fusion_insn_L (unat (GET_FUNCT_L w))) (\<lambda>insn.
     print_rxr insn (gpreg (GET_RD w)) (''0x'' @ fmt_x 3 (GET_IMM_L w)) (gpreg (GET_RSA w)))"

definition print_LI :: "insn_t \<Rightarrow> string result" where
  "print_LI w = rbind (rd8 fusion_insn_LI (unat (GET_DSEL_LI w))) (\<lambda>insn.
     print_rx insn (gpreg (GET_RD w)) (''0x'' @ fmt_x 4 (ucast (GET_IMM_LI w) :: 64 word)))"

definition print_S :: "insn_t \<Rightarrow> string result" where
  "print_S w = rbind (rd8 fusion_insn_S (unat (GET_FUNCT_S w))) (\<lambda>insn.
     print_rxr insn (gpreg (GET_RSB w)) (''0x'' @ fmt_x 3 (GET_IMM_S w)) (gpreg (GET_RSA w)))"

definition print_J :: "insn_t \<Rightarrow> string result" where
  "print_J w =
     (if GET_RSA w = 0x00 then
        if IS_JLNK_INSN w then Inr (''jal'' @ TAB @ fmt_d (sint (SEXT_21B (GET_IMM_J w))))
        else if IS_JMP_INSN w then Inr (''j'' @ TAB @ fmt_d (sint (SEXT_21B (GET_IMM_J w))))
        else Inr ''nri''
      else
        if IS_JLNK_INSN w then
          rbind (gpreg (GET_RSA w)) (\<lambda>a.
          Inr (''jrl'' @ TAB @ ''0x'' @ fmt_x 6 (ucast (GET_IMM_J w) :: 64 word) @ ''('' @ a @ '')''))
        else if IS_JMP_INSN w then
          rbind (gpreg (GET_RSA w)) (\<lambda>a.
          Inr (''jr'' @ TAB @ ''0x'' @ fmt_x 6 (ucast (GET_IMM_J w) :: 64 word) @ ''('' @ a @ '')''))
        else Inr ''nri'')"

definition print_B :: "insn_t \<Rightarrow> string result" where
  "print_B w = rbind (rd8 fusion_insn_B (unat (GET_FUNCT_B w))) (\<lambda>insn.
     print_rrx insn (gpreg (GET_RSA w)) (gpreg (GET_RSB w)) (fmt_d (sint (SEXT_14B (GET_IMM_B w)))))"

definition print_SYS :: "insn_t \<Rightarrow> string result" where
  "print_SYS w = rbind (rd8 fusion_insn_SYS (unat (GET_FUNCT_SYS w))) (\<lambda>insn.
     let x = ''0x'' @ fmt_x 2 (GET_IMM_SYS w) in
     if opc_args insn = USE_NONE then insn_name insn
     else if opc_args insn = USE_I then rbind (insn_name insn) (\<lambda>nm. Inr (nm @ TAB @ x))
     else if opc_args insn = USE_RAI then print_rx insn (gpreg (GET_RSA w)) x
     else if opc_args insn = USE_RDA then
       if GET_FUNCT_SYS w = 0x02 then print_rr insn (spreg (GET_RD w)) (gpreg (GET_RSA w))
       else if GET_FUNCT_SYS w = 0x03 then print_rr insn (gpreg (GET_RD w)) (spreg (GET_RSA w))
       else Inr ''''
     else if opc_args insn = USE_RDI then print_rx insn (gpreg (GET_RD w)) x
     else if opc_args insn = USE_RDAI then print_rrx insn (gpreg (GET_RD w)) (gpreg (GET_RSA w)) x
     else Inr ''nri_sys'')"

subsection \<open>The entry point\<close>

definition print_word :: "insn_t \<Rightarrow> string result" where
  "print_word insn_word =
     (let opc = ucast (GET_OPC insn_word) :: 16 word in
      if IS_R_TYPE insn_word then print_R insn_word
      else if IS_I_TYPE insn_word then print_I insn_word
      else if IS_L_TYPE insn_word then print_L insn_word
      else if IS_LI_TYPE insn_word then print_LI insn_word
      else if IS_S_TYPE insn_word then print_S insn_word
      else if opc = OPC_JMP \<or> opc = OPC_JLNK then print_J insn_word
      else if IS_B_TYPE insn_word then print_B insn_word
      else if IS_SYS_TYPE insn_word then print_SYS insn_word
      else if IS_CP_INSN insn_word then Inr ''cpinsn?''
      else if insn_word = 0x00000000 then Inr ''nop''
      else Inr ''nri_unk'')"

text \<open>
  The effects of a call: what was printed, the argument of \<open>info->memory_error_func\<close> when it
  was called, and the value returned.
\<close>

record dis_outcome =
  printed :: string
  memory_error :: "(int \<times> bfd_vma) option"
  returned :: int

definition print_insn_fusion ::
  "(bfd_vma \<Rightarrow> int \<times> bytes) \<Rightarrow> bfd_vma \<Rightarrow> dis_outcome result" where
  "print_insn_fusion read_memory_func addr =
     (let (status, buf_insn) = read_memory_func addr in
      if status \<noteq> 0 then
        Inr \<lparr>printed = '''', memory_error = Some (status, addr), returned = - 1\<rparr>
      else if addr > 0x2000000 then
        rbind (ld buf_insn 0 4) (\<lambda>b.
        Inr \<lparr>printed = ''ASCII: '' @ fmt_c (b ! 3) @ '' '' @ fmt_c (b ! 2) @ '' '' @ fmt_c (b ! 1)
                @ '' '' @ fmt_c (b ! 0),
             memory_error = None, returned = 4\<rparr>)
      else
        rbind (bfd_getb32 buf_insn 0) (\<lambda>v.
        rbind (print_word (ucast v)) (\<lambda>s.
        Inr \<lparr>printed = s, memory_error = None, returned = 4\<rparr>)))"

subsection \<open>The abstract syntax\<close>

text \<open>
  The text of an abstract instruction: its mnemonic, its registers by name, and its
  immediate as a signed or hexadecimal number, as the assembly language has them.
\<close>

definition reg :: "5 word \<Rightarrow> string" where
  "reg n = fusion_gpreg_name ! unat n"

definition sreg :: "5 word \<Rightarrow> string result" where
  "sreg n = (if unat n < 13 then Inr (fusion_spreg_name ! unat n) else Inl Out_of_bounds)"

definition mnemonic :: "fusion_opc_info_t list \<Rightarrow> 'a::len word \<Rightarrow> string" where
  "mnemonic t i = the (opc_name (t ! unat i))"

fun asm_text :: "insn \<Rightarrow> string result" where
  "asm_text (R_insn rd rsa rsb shft aluop) =
     Inr (mnemonic fusion_insn_R aluop @ TAB @ reg rd @ COMMA @ reg rsa @ COMMA @ reg rsb)"
| "asm_text (I_insn rd rsa imm aluop) =
     Inr (mnemonic fusion_insn_I aluop @ TAB @ reg rd @
       (if aluop = 4 then '''' else COMMA @ reg rsa) @ COMMA @
       (if aluop \<in> {0, 1, 8, 9, 10, 11, 12} then fmt_d (sint imm) else ''0x'' @ fmt_x 3 imm))"
| "asm_text (L_insn rd rsa funct imm) =
     Inr (mnemonic fusion_insn_L funct @ TAB @ reg rd @ COMMA @ ''0x'' @ fmt_x 3 imm @ ''('' @ reg rsa @ '')'')"
| "asm_text (LI_insn rd dsel imm) =
     Inr (mnemonic fusion_insn_LI dsel @ TAB @ reg rd @ COMMA @ ''0x'' @ fmt_x 4 imm)"
| "asm_text (S_insn funct rsa rsb imm) =
     Inr (mnemonic fusion_insn_S funct @ TAB @ reg rsb @ COMMA @ ''0x'' @ fmt_x 3 imm @ ''('' @ reg rsa @ '')'')"
| "asm_text (J_insn rsa imm) =
     Inr (if rsa = 0 then ''j'' @ TAB @ fmt_d (sint imm)
          else ''jr'' @ TAB @ ''0x'' @ fmt_x 6 imm @ ''('' @ reg rsa @ '')'')"
| "asm_text (JL_insn rsa imm) =
     Inr (if rsa = 0 then ''jal'' @ TAB @ fmt_d (sint imm)
          else ''jrl'' @ TAB @ ''0x'' @ fmt_x 6 imm @ ''('' @ reg rsa @ '')'')"
| "asm_text (B_insn rsa rsb imm funct) =
     Inr (mnemonic fusion_insn_B funct @ TAB @ reg rsa @ COMMA @ reg rsb @ COMMA @ fmt_d (sint imm))"
| "asm_text (SYS_insn rd rsa funct imm) =
     (let nm = mnemonic fusion_insn_SYS funct; x = ''0x'' @ fmt_x 2 imm in
      if funct = 0 \<or> funct = 1 then Inr (nm @ TAB @ reg rd @ COMMA @ reg rsa @ COMMA @ x)
      else if funct = 2 then rbind (sreg rd) (\<lambda>d. Inr (nm @ TAB @ d @ COMMA @ reg rsa))
      else if funct = 3 then rbind (sreg rsa) (\<lambda>a. Inr (nm @ TAB @ reg rd @ COMMA @ a))
      else if funct = 5 \<or> funct = 6 then Inr (nm @ TAB @ x)
      else Inr nm)"

section \<open>Properties\<close>

lemma sext:
  "SEXT_12B (ucast (imm :: 12 word)) = scast imm"
  "SEXT_14B (ucast (i14 :: 14 word)) = scast i14"
  "SEXT_21B (ucast (i21 :: 21 word)) = scast i21"
  by (simp_all add: SEXT_12B_def SEXT_14B_def SEXT_21B_def word_bits)


lemma gpreg_ucast: "gpreg (ucast (n :: 5 word)) = Inr (reg n)"
  using unsigned_less [of n, where ?'a = nat] by (simp add: gpreg_def reg_def unat_ucast_up)

lemma spreg_ucast: "spreg (ucast (n :: 5 word)) = sreg n"
  by (simp add: spreg_def sreg_def rd8_def unat_ucast_up)

lemma fmt_x_ucast: "LENGTH('a) \<le> LENGTH('b) \<Longrightarrow> fmt_x k (ucast (v :: 'a::len word) :: 'b::len word) = fmt_x k v"
  by (simp add: fmt_x_def unat_ucast_up)

lemma rd8_field:
  assumes "LENGTH('a) \<le> LENGTH('b)" "2 ^ LENGTH('a) \<le> length t" 
  shows "rd8 t (unat (ucast (v :: 'a::len word) :: 'b::len word)) = Inr (t ! unat v)"
proof -
  have "unat v < length t"
    using unsigned_less [of v, where ?'a = nat] assms(2) by (rule less_le_trans)
  then show ?thesis by (simp add: unat_ucast_up [OF assms(1)])
qed

lemma get_fields_ucast:
  "ucast (ucast (GET_RD w) :: 5 word) = GET_RD w"
  "ucast (ucast (GET_RSA w) :: 5 word) = GET_RSA w"
  "ucast (ucast (GET_RSB w) :: 5 word) = GET_RSB w"
  "ucast (ucast (GET_ALUOP w) :: 4 word) = GET_ALUOP w"
  "ucast (ucast (GET_IMM_I w) :: 12 word) = GET_IMM_I w"
  "ucast (ucast (GET_FUNCT_L w) :: 2 word) = GET_FUNCT_L w"
  "ucast (ucast (GET_IMM_L w) :: 14 word) = GET_IMM_L w"
  "ucast (ucast (GET_DSEL_LI w) :: 4 word) = GET_DSEL_LI w"
  "ucast (ucast (GET_IMM_LI w) :: 16 word) = GET_IMM_LI w"
  "ucast (ucast (GET_FUNCT_S w) :: 2 word) = GET_FUNCT_S w"
  "ucast (ucast (GET_IMM_S w) :: 14 word) = GET_IMM_S w"
  "ucast (ucast (GET_IMM_J w) :: 21 word) = GET_IMM_J w"
  "ucast (ucast (GET_IMM_B w) :: 14 word) = GET_IMM_B w"
  "ucast (ucast (GET_FUNCT_B w) :: 2 word) = GET_FUNCT_B w"
  "ucast (ucast (GET_FUNCT_SYS w) :: 8 word) = GET_FUNCT_SYS w"
  "ucast (ucast (GET_IMM_SYS w) :: 8 word) = (GET_IMM_SYS w :: insn_t)"
  by (simp_all add: isa_defs word_bits)

lemma table_lengths_num:
  "length fusion_insn_R = 17" "length fusion_insn_I = 16" "length fusion_insn_L = 4"
  "length fusion_insn_LI = 32" "length fusion_insn_S = 4" "length fusion_insn_B = 4"
  "length fusion_insn_SYS = 256"
  by (simp_all add: table_lengths isa_defs)

lemma tables_named:
  "list_all (\<lambda>e. opc_name e \<noteq> None) (take 16 fusion_insn_R)" "list_all (\<lambda>e. opc_name e \<noteq> None) fusion_insn_I"
  "list_all (\<lambda>e. opc_name e \<noteq> None) fusion_insn_L" "list_all (\<lambda>e. opc_name e \<noteq> None) (take 16 fusion_insn_LI)"
  "list_all (\<lambda>e. opc_name e \<noteq> None) fusion_insn_S" "list_all (\<lambda>e. opc_name e \<noteq> None) fusion_insn_B"
  by (simp_all add: table_defs)

lemma insn_name_field:
  assumes "list_all (\<lambda>e. opc_name e \<noteq> None) (take (2 ^ LENGTH('a)) t)" "2 ^ LENGTH('a) \<le> length t"
  shows "insn_name (t ! unat (v :: 'a::len word)) = Inr (mnemonic t v)"
proof -
  have "unat v < 2 ^ LENGTH('a)" by (rule unsigned_less)
  with assms have "opc_name (t ! unat v) \<noteq> None"
    by (auto simp: list_all_length)
  then show ?thesis by (auto simp: insn_name_def mnemonic_def)
qed

lemma insn_names:
  "insn_name (fusion_insn_R ! unat (aluop :: 4 word)) = Inr (mnemonic fusion_insn_R aluop)"
  "insn_name (fusion_insn_I ! unat aluop) = Inr (mnemonic fusion_insn_I aluop)"
  "insn_name (fusion_insn_LI ! unat aluop) = Inr (mnemonic fusion_insn_LI aluop)"
  "insn_name (fusion_insn_L ! unat (f2 :: 2 word)) = Inr (mnemonic fusion_insn_L f2)"
  "insn_name (fusion_insn_S ! unat f2) = Inr (mnemonic fusion_insn_S f2)"
  "insn_name (fusion_insn_B ! unat f2) = Inr (mnemonic fusion_insn_B f2)"
  "insn_name (fusion_insn_SYS ! unat (f8 :: 8 word)) = Inr (mnemonic fusion_insn_SYS f8)"
  using tables_named sys_table_named
  by (auto intro!: insn_name_field simp: table_lengths_num list_all_iff dest: in_set_takeD)

lemmas print_defs = print_R_def print_I_def print_L_def print_LI_def print_S_def print_J_def print_B_def
  print_rr_def print_rx_def print_rrx_def print_rxr_def

lemma alu_index: "opc_index (fusion_insn_I ! unat (aluop :: 4 word)) = ucast aluop"
proof -
  have idx: "map opc_index fusion_insn_I = map of_nat [0..<16]"
    by (simp add: fusion_insn_I_def opc_info_def upt_16)
  have "unat aluop < 16"
    using unsigned_less [of aluop, where ?'a = nat] by simp
  with arg_cong [OF idx, of "\<lambda>l. l ! unat aluop"]
  have "opc_index (fusion_insn_I ! unat aluop) = of_nat (unat aluop)"
    by (simp add: table_lengths_num)
  then show ?thesis
    by (simp add: word_unat_eq_iff unat_ucast_up unat_of_nat take_bit_nat_eq_self \<open>unat aluop < 16\<close> less_trans [OF \<open>unat aluop < 16\<close>])
qed

lemma ucast_alu_eq:
  "(ucast (x :: 4 word) :: insn_t) = 0 \<longleftrightarrow> x = 0" "(ucast x :: insn_t) = 1 \<longleftrightarrow> x = 1"
  "(ucast x :: insn_t) = 2 \<longleftrightarrow> x = 2" "(ucast x :: insn_t) = 3 \<longleftrightarrow> x = 3"
  "(ucast x :: insn_t) = 4 \<longleftrightarrow> x = 4" "(ucast x :: insn_t) = 5 \<longleftrightarrow> x = 5"
  "(ucast x :: insn_t) = 6 \<longleftrightarrow> x = 6" "(ucast x :: insn_t) = 7 \<longleftrightarrow> x = 7"
  "(ucast x :: insn_t) = 8 \<longleftrightarrow> x = 8" "(ucast x :: insn_t) = 9 \<longleftrightarrow> x = 9"
  "(ucast x :: insn_t) = 10 \<longleftrightarrow> x = 10" "(ucast x :: insn_t) = 11 \<longleftrightarrow> x = 11"
  "(ucast x :: insn_t) = 12 \<longleftrightarrow> x = 12"
  by (simp_all add: word_bits)

lemma ucast_funct_eq: "(ucast (f8 :: 8 word) :: insn_t) = 2 \<longleftrightarrow> f8 = 2" "(ucast f8 :: insn_t) = 3 \<longleftrightarrow> f8 = 3"
  by (simp_all add: word_bits)

lemmas print_branch = rd8_field table_lengths_num insn_names gpreg_ucast spreg_ucast fmt_x_ucast sext sint_scast_up

lemma alu_cases: 
  "(x :: 4 word) \<in> {0,1,8,9,10,11,12} \<or> x \<in> {2,3,5,6,7} \<or> x = 4 \<or> x \<in> {13,14,15}"
proof -
  have "unat x < 16" using unsigned_less [of x, where ?'a = nat] by simp
  then have "unat x \<in> set [0..<16]" by simp
  then have "unat x \<in> {0,1,8,9,10,11,12,2,3,5,6,7,4,13,14,15}" unfolding upt_16 by auto
  then show ?thesis by (simp add: word_unat_eq_iff)
qed

lemma mnemonic_nri: "x \<in> {13,14,15} \<Longrightarrow> mnemonic fusion_insn_I (x :: 4 word) = ''nri''"
  by (auto simp: mnemonic_def fusion_insn_I_def opc_info_def)

lemma print_I_text:
  assumes "GET_RD w = ucast rd" "GET_RSA w = ucast rsa" "GET_IMM_I w = ucast imm" "GET_ALUOP w = ucast aluop"
  shows "print_I w = asm_text (I_insn rd rsa imm aluop)"
proof -
  have "aluop \<notin> {0,1,8,9,10,11,12} \<Longrightarrow> aluop \<notin> {2,3,5,6,7} \<Longrightarrow> aluop \<noteq> 4 \<Longrightarrow> mnemonic fusion_insn_I aluop = ''nri''"
    using alu_cases [of aluop] mnemonic_nri [of aluop] by blast
  moreover have "rd8 fusion_insn_I (unat (ucast aluop :: insn_t)) = Inr (fusion_insn_I ! unat aluop)"
    by (simp add: rd8_field table_lengths_num)
  ultimately show ?thesis
    by (simp only: print_I_def print_rr_def print_rx_def print_rrx_def assms rbind_simps
         Let_def insn_names alu_index gpreg_ucast)
       (auto simp: fmt_x_ucast sext sint_scast_up ucast_alu_eq)
qed

lemma print_R_text:
  assumes "GET_RD w = ucast rd" "GET_RSA w = ucast rsa" "GET_RSB w = ucast rsb" "GET_ALUOP w = ucast aluop"
  shows "print_R w = asm_text (R_insn rd rsa rsb shft aluop)"
  unfolding print_R_def print_rr_def assms by (simp add: print_branch)

lemma print_L_text:
  assumes "GET_RD w = ucast rd" "GET_RSA w = ucast rsa" "GET_FUNCT_L w = ucast funct" "GET_IMM_L w = ucast imm"
  shows "print_L w = asm_text (L_insn rd rsa funct imm)"
  unfolding print_L_def print_rxr_def assms by (simp add: print_branch)

lemma print_LI_text:
  assumes "GET_RD w = ucast rd" "GET_DSEL_LI w = ucast dsel" "GET_IMM_LI w = ucast imm"
  shows "print_LI w = asm_text (LI_insn rd dsel imm)"
  unfolding print_LI_def print_rx_def assms by (simp add: print_branch)

lemma print_S_text:
  assumes "GET_FUNCT_S w = ucast funct" "GET_RSA w = ucast rsa" "GET_RSB w = ucast rsb" "GET_IMM_S w = ucast imm"
  shows "print_S w = asm_text (S_insn funct rsa rsb imm)"
  unfolding print_S_def print_rxr_def assms by (simp add: print_branch)

lemma print_B_text:
  assumes "GET_RSA w = ucast rsa" "GET_RSB w = ucast rsb" "GET_IMM_B w = ucast imm" "GET_FUNCT_B w = ucast funct"
  shows "print_B w = asm_text (B_insn rsa rsb imm funct)"
  unfolding print_B_def print_rrx_def print_rr_def assms by (simp add: print_branch)

lemma ucast_eq_0: "(ucast (x :: 5 word) :: insn_t) = 0 \<longleftrightarrow> x = 0"
  by (simp add: word_bits)

lemma print_J_text:
  assumes "GET_RSA w = ucast rsa" "GET_IMM_J w = ucast imm"
  shows "IS_J_TYPE w \<Longrightarrow> print_J w = asm_text (J_insn rsa imm)"
    and "IS_JL_TYPE w \<Longrightarrow> print_J w = asm_text (JL_insn rsa imm)"
  unfolding print_J_def assms by (simp_all add: print_branch ucast_eq_0 is_type_defs opc_defs)

lemma sys_rest: "7 \<le> i \<Longrightarrow> i < 256 \<Longrightarrow> opc_args (fusion_insn_SYS ! i) = USE_NONE"
proof -
  assume i: "7 \<le> i" "i < 256"
  have "list_all (\<lambda>e. opc_args e = USE_NONE) (drop 7 fusion_insn_SYS)"
    unfolding fusion_insn_SYS_def drop_append by (simp add: list.pred_map comp_def opc_info_def)
  then have "\<forall>n < 249. opc_args (fusion_insn_SYS ! (7 + n)) = USE_NONE" by (simp add: list_all_length table_lengths_num)
  from spec [OF this, of "i - 7"] i show ?thesis by simp
qed

lemma sys_args: "opc_args (fusion_insn_SYS ! unat (f8 :: 8 word)) =
   (if f8 = 0 \<or> f8 = 1 then USE_RDAI else if f8 = 2 \<or> f8 = 3 then USE_RDA
    else if f8 = 5 \<or> f8 = 6 then USE_I else USE_NONE)"
proof -
  have "unat f8 < 256"
    using unsigned_less [of f8, where ?'a = nat] by simp
  then have "unat f8 = 0 \<or> unat f8 = Suc 0 \<or> unat f8 = 2 \<or> unat f8 = 3 \<or> unat f8 = 4 \<or> unat f8 = 5 \<or> unat f8 = 6 \<or>
     opc_args (fusion_insn_SYS ! unat f8) = USE_NONE \<and> 7 \<le> unat f8"
    using sys_rest [of "unat f8"] by linarith
  then show ?thesis
    by (auto simp: word_unat_eq_iff sys_entries opc_info_def isa_defs)
qed

lemma sys_name: "opc_name (fusion_insn_SYS ! unat (f8 :: 8 word)) = Some (mnemonic fusion_insn_SYS f8)"
  using insn_names(7) [of f8] by (auto simp: insn_name_def split: option.splits)

lemmas use_defs = USE_NONE_def USE_I_def USE_RAI_def USE_RDA_def USE_RDI_def USE_RDAI_def

lemma print_SYS_text:
  assumes "GET_RD w = ucast rd" "GET_RSA w = ucast rsa" "GET_FUNCT_SYS w = ucast f8" "GET_IMM_SYS w = ucast i8"
  shows "print_SYS w = asm_text (SYS_insn rd rsa f8 i8)"
proof -
  have "rd8 fusion_insn_SYS (unat (ucast f8 :: insn_t)) = Inr (fusion_insn_SYS ! unat f8)"
    by (simp add: rd8_field table_lengths_num)
  then show ?thesis
    by (simp only: print_SYS_def print_rr_def print_rx_def print_rrx_def assms rbind_simps
         Let_def insn_names sys_args gpreg_ucast spreg_ucast)
       (auto simp: fmt_x_ucast use_defs ucast_funct_eq)
qed

lemma opc_16: "(ucast (GET_OPC w) :: 16 word) = OPC_JMP \<longleftrightarrow> IS_J_TYPE w"
  "(ucast (GET_OPC w) :: 16 word) = OPC_JLNK \<longleftrightarrow> IS_JL_TYPE w"
  by (simp_all add: isa_defs word_bits)

lemmas print_texts = print_R_text print_I_text print_L_text print_LI_text print_S_text print_J_text
  print_B_text print_SYS_text

lemma print_word_text:
  "print_word w = (case decode w of Some i \<Rightarrow> asm_text i | None \<Rightarrow> Inr (if w = 0 then ''nop'' else ''nri_unk''))"
  unfolding print_word_def decode_def opc_16 Let_def
  by (simp add: no_cp print_texts get_fields_ucast del: asm_text.simps)

lemma asm_text_fault: "asm_text i = Inl e \<longleftrightarrow> e = Out_of_bounds \<and> (\<exists>rd rsa imm.
   (i = SYS_insn rd rsa 2 imm \<and> 13 \<le> unat rd) \<or> (i = SYS_insn rd rsa 3 imm \<and> 13 \<le> unat rsa))"
  by (cases i) (auto simp: Let_def sreg_def rbind_Inl_iff)

lemma getb32_be_value: "length buf = 4 \<Longrightarrow> bfd_getb32 buf 0 = Inr (be_value 0 buf)"
  using bfd_get_bits_eq [of 4 buf 0 True] get_bits_special(3) [of buf 0 True]
  by (simp add: ld_def order_bytes_def)

text \<open>
  C3: the disassembler is the decoder followed by the abstract syntax: for the four bytes
  at an address of the program it returns 4 and prints the text of the instruction their
  big-endian word encodes, with signed immediates as the sign extension of the field,
  \<open>nop\<close> for the zero word and \<open>nri_unk\<close> for every other word without a format.
\<close>

theorem disassembler_refines:
  assumes "read_memory addr = (0, buf)" and "length buf = 4" and "addr \<le> 0x2000000"
    and "w = ucast (be_value 0 buf)"
  shows "print_insn_fusion read_memory addr =
     rbind (case decode w of Some i \<Rightarrow> asm_text i | None \<Rightarrow> Inr (if w = 0 then ''nop'' else ''nri_unk''))
       (\<lambda>s. Inr \<lparr>printed = s, memory_error = None, returned = 4\<rparr>)"
proof -
  from assms(3) have "\<not> 0x2000000 < addr" by (simp add: not_less)
  with assms show ?thesis
    by (simp add: print_insn_fusion_def getb32_be_value print_word_text)
qed

theorem disassembler_refines_witness:
  "print_insn_fusion (\<lambda>addr. (0, [0x37, 0xe2, 0x0f, 0xf0])) 0x40 =
     Inr \<lparr>printed = ''beq'' @ TAB @ ''fp'' @ COMMA @ ''sp'' @ COMMA @ ''-4'', memory_error = None, returned = 4\<rparr>"
proof -
  have w: "0x37e20ff0 = (ucast (be_value 0 [0x37, 0xe2, 0x0f, 0xf0]) :: insn_t)"
    by (simp add: be_value_def)
  have d: "decode 0x37e20ff0 = Some (B_insn 2 1 (- 4) 0)"
    by (simp add: decode_def isa_defs)
  show ?thesis
    using disassembler_refines [of "\<lambda>addr. (0, [0x37, 0xe2, 0x0f, 0xf0])" "0x40", OF refl _ _ w]
    by (simp add: d mnemonic_def fusion_insn_B_def opc_info_def reg_def fusion_gpreg_name_def fmt_d_def
        digits.simps)
qed

text \<open>
  C18: the disassembler's only fault: it reads past the thirteen names of the special
  registers exactly for an \<open>stspr\<close> whose \<open>Rd\<close> field, or an \<open>ldspr\<close> whose \<open>RSa\<close> field, is 13
  or more. Every other access to a name table is in bounds and every name printed is
  there.
\<close>

theorem disassembler_faults:
  "print_word w = Inl e \<longleftrightarrow> e = Out_of_bounds \<and>
     (\<exists>rd rsa imm. decode w = Some (SYS_insn rd rsa 2 imm) \<and> 13 \<le> unat rd \<or>
                   decode w = Some (SYS_insn rd rsa 3 imm) \<and> 13 \<le> unat rsa)"
  by (auto simp: print_word_text asm_text_fault split: option.splits)

end
