(* ===== verification/Listing.thy ===== *)
theory Listing
  imports Tc_Line Fusion_Dis
begin

text \<open>
  The assembler and the disassembler together: the text that the disassembler prints for the
  instruction of a line, in terms of the mnemonic and the operands of the line, and what becomes
  of the instructions on special registers.
\<close>

subsection \<open>Specification\<close>

text \<open>The operands as the disassembler prints them, and the text of the immediate.\<close>

definition listed_operands :: "c_uint \<Rightarrow> nat \<Rightarrow> nat \<Rightarrow> nat \<Rightarrow> string \<Rightarrow> string" where
  "listed_operands args rd rsa rsb x =
     (let r = (\<lambda>i. fusion_gpreg_name ! i) in
      if args = USE_RDAB then r rd @ COMMA @ r rsa @ COMMA @ r rsb
      else if args = USE_RDAI then r rd @ COMMA @ r rsa @ COMMA @ x
      else if args = USE_RDI then r rd @ COMMA @ x
      else if args = USE_RABI then r rsa @ COMMA @ r rsb @ COMMA @ x
      else if args = USE_RDAI_O then r rd @ COMMA @ x @ ''('' @ r rsa @ '')''
      else if args = USE_RABI_O then r rsb @ COMMA @ x @ ''('' @ r rsa @ '')''
      else if args = USE_RAI_O then x @ ''('' @ r rsa @ '')''
      else x)"

definition listed_immediate :: "insn \<Rightarrow> string" where
  "listed_immediate i = (case i of
     I_insn rd rsa m f \<Rightarrow> if f \<in> {0, 1, 8, 9, 10, 11, 12} then fmt_d (sint m) else ''0x'' @ fmt_x 3 m
   | L_insn rd rsa f m \<Rightarrow> ''0x'' @ fmt_x 3 m
   | LI_insn rd f m \<Rightarrow> ''0x'' @ fmt_x 4 m
   | S_insn f rsa rsb m \<Rightarrow> ''0x'' @ fmt_x 3 m
   | J_insn rsa m \<Rightarrow> if rsa = 0 then fmt_d (sint m) else ''0x'' @ fmt_x 6 m
   | JL_insn rsa m \<Rightarrow> if rsa = 0 then fmt_d (sint m) else ''0x'' @ fmt_x 6 m
   | B_insn rsa rsb m f \<Rightarrow> fmt_d (sint m)
   | SYS_insn rd rsa f m \<Rightarrow> ''0x'' @ fmt_x 2 m
   | _ \<Rightarrow> [])"

text \<open>A jump through register 0 is listed as a jump without a register.\<close>

definition listed_line :: "fusion_opc_info_t \<Rightarrow> string \<Rightarrow> nat \<Rightarrow> nat \<Rightarrow> nat \<Rightarrow> string \<Rightarrow> string" where
  "listed_line mo n rd rsa rsb x =
     (if opc_args mo = USE_RAI_O \<and> rsa = 0 then (if opc_opc mo = OPC_JMP then ''j'' else ''jal'') @ TAB @ x
      else n @ TAB @ listed_operands (opc_args mo) rd rsa rsb x)"

definition listed_name :: "fusion_opc_info_t \<Rightarrow> string option" where
  "listed_name e = (let opc = opc_opc e; i = unat (opc_index e) in
     if opc = OPC_INT then opc_name (fusion_insn_R ! i)
     else if opc = OPC_IMM then opc_name (fusion_insn_I ! i)
     else if opc = OPC_LD then opc_name (fusion_insn_L ! i)
     else if opc = OPC_ST then opc_name (fusion_insn_S ! i)
     else if opc = OPC_LI then opc_name (fusion_insn_LI ! i)
     else if opc = OPC_BRANCH then opc_name (fusion_insn_B ! i)
     else if opc = OPC_JMP then Some (if i = 0 then ''j'' else ''jr'')
     else if opc = OPC_JLNK then Some (if i = 0 then ''jal'' else ''jrl'')
     else if opc = OPC_SYS then opc_name (fusion_insn_SYS ! i)
     else None)"

section \<open>Properties\<close>

lemma listed_names:
  "list_all (\<lambda>e. listed_name e = opc_name e \<and> (opc_opc e = OPC_IMM \<longrightarrow> (opc_index e = 4 \<longleftrightarrow> opc_args e = USE_RDI)) \<and>
     (opc_opc e = OPC_SYS \<longrightarrow> opc_args e = USE_RDAI \<and> opc_index e \<in> {0, 1} \<or> opc_args e = USE_I \<and> opc_index e \<in> {5, 6}))
     operand_insns"
  by code_simp

lemma reg_number: "i < 32 \<Longrightarrow> reg (of_nat i) = fusion_gpreg_name ! i" "i < 32 \<Longrightarrow> (of_nat i :: 5 word) = 0 \<longleftrightarrow> i = 0"
  by (simp_all add: reg_def unat_of_nat take_bit_nat_eq_self word_unat_eq_iff)

lemma mnemonic_index:
  assumes "unat (x :: 32 word) < 2 ^ LENGTH('a)" "opc_name (t ! unat x) = Some n"
  shows "mnemonic t (ucast x :: 'a::len word) = n"
  using assms by (simp add: mnemonic_def unsigned_ucast_eq take_bit_nat_eq_self)

lemma index_4: "x < 16 \<Longrightarrow> (ucast (x :: 32 word) :: 4 word) = 4 \<longleftrightarrow> x = 4"
  by (simp add: word_unat_eq_iff unsigned_ucast_eq take_bit_nat_eq_self word_less_nat_alt)

lemmas use_defs = USE_RDAB_def USE_RDAI_def USE_RDI_def USE_RABI_def USE_RDAI_O_def USE_RABI_O_def USE_RAI_O_def USE_I_def

lemma asm_text_line:
  assumes "mo \<in> set operand_insns" "opc_name mo = Some n" "registers_ok (opc_args mo) rd rsa rsb"
    and "i = line_insn mo rd rsa rsb v"
  shows "asm_text i = Inr (listed_line mo n rd rsa rsb (listed_immediate i))"
proof -
  have nm: "listed_name mo = Some n" "opc_opc mo = OPC_IMM \<longrightarrow> (opc_index mo = 4 \<longleftrightarrow> opc_args mo = USE_RDI)"
    and sys: "opc_opc mo = OPC_SYS \<longrightarrow> opc_args mo = USE_RDAI \<and> opc_index mo \<in> {0, 1} \<or> opc_args mo = USE_I \<and> opc_index mo \<in> {5, 6}"
    using assms(1,2) listed_names by (auto simp: list_all_iff)
  have sh: "insn_shape mo" using operand_insns_facts(3) [OF assms(1)] .
  have r: "rd < 32" "rsa < 32" "rsb < 32" "unused_zero (opc_args mo) rd rsa rsb" using assms(3) by (simp_all add: registers_ok_def)
  note defs = line_insn_def listed_name_def listed_line_def listed_operands_def listed_immediate_def reg_number r(1-3) use_defs opc_defs index_4 Let_def assms(4)
  consider (R) "opc_args mo = USE_RDAB" "opc_opc mo = OPC_INT" "opc_index mo < 16"
    | (I) "opc_args mo = USE_RDAI" "opc_opc mo = OPC_IMM" "opc_index mo < 16"
    | (I1) "opc_args mo = USE_RDI" "opc_opc mo = OPC_IMM" "opc_index mo < 16"
    | (LI) "opc_args mo = USE_RDI" "opc_opc mo = OPC_LI" "opc_index mo < 16"
    | (B) "opc_args mo = USE_RABI" "opc_opc mo = OPC_BRANCH" "opc_index mo < 4"
    | (L) "opc_args mo = USE_RDAI_O" "opc_opc mo = OPC_LD" "opc_index mo < 4"
    | (S) "opc_args mo = USE_RABI_O" "opc_opc mo = OPC_ST" "opc_index mo < 4"
    | (JR) "opc_args mo = USE_RAI_O" "opc_opc mo = OPC_JMP \<or> opc_opc mo = OPC_JLNK" "opc_index mo = 1"
    | (J) "opc_args mo = USE_I" "opc_opc mo = OPC_JMP \<or> opc_opc mo = OPC_JLNK" "opc_index mo = 0"
    | (SYS) "opc_opc mo = OPC_SYS"
    using sh unfolding insn_shape_def by (simp split: if_splits) blast+
  then show ?thesis
  proof cases
    case R
    have "mnemonic fusion_insn_R (ucast (opc_index mo) :: 4 word) = n"
      using nm(1) R(3) by (intro mnemonic_index) (simp_all add: listed_name_def R(2) word_less_nat_alt)
    then show ?thesis by (simp add: R(1,2) defs)
  next
    case I
    have "mnemonic fusion_insn_I (ucast (opc_index mo) :: 4 word) = n"
      using nm(1) I(3) by (intro mnemonic_index) (simp_all add: listed_name_def I(2) word_less_nat_alt opc_defs)
    then show ?thesis using nm(2) I(3) by (simp add: I(1,2) defs)
  next
    case I1
    have "mnemonic fusion_insn_I (ucast (opc_index mo) :: 4 word) = n"
      using nm(1) I1(3) by (intro mnemonic_index) (simp_all add: listed_name_def I1(2) word_less_nat_alt opc_defs)
    then show ?thesis using nm(2) I1(3) by (simp add: I1(1,2) defs)
  next
    case LI
    have "mnemonic fusion_insn_LI (ucast (opc_index mo) :: 4 word) = n"
      using nm(1) LI(3) by (intro mnemonic_index) (simp_all add: listed_name_def LI(2) word_less_nat_alt opc_defs)
    then show ?thesis by (simp add: LI(1,2) defs)
  next
    case B
    have "mnemonic fusion_insn_B (ucast (opc_index mo) :: 2 word) = n"
      using nm(1) B(3) by (intro mnemonic_index) (simp_all add: listed_name_def B(2) word_less_nat_alt opc_defs)
    then show ?thesis by (simp add: B(1,2) defs)
  next
    case L
    have "mnemonic fusion_insn_L (ucast (opc_index mo) :: 2 word) = n"
      using nm(1) L(3) by (intro mnemonic_index) (simp_all add: listed_name_def L(2) word_less_nat_alt opc_defs)
    then show ?thesis by (simp add: L(1,2) defs)
  next
    case S
    have "mnemonic fusion_insn_S (ucast (opc_index mo) :: 2 word) = n"
      using nm(1) S(3) by (intro mnemonic_index) (simp_all add: listed_name_def S(2) word_less_nat_alt opc_defs)
    then show ?thesis by (simp add: S(1,2) defs)
  next
    case JR
    then show ?thesis using nm(1) by (auto simp: defs)
  next
    case J
    then show ?thesis using nm(1) r(4) by (auto simp: defs unused_zero_def)
  next
    case SYS
    have "unat (opc_index mo) < 2 ^ LENGTH(8)" using sys SYS by (auto simp: word_less_nat_alt)
    then have "mnemonic fusion_insn_SYS (ucast (opc_index mo) :: 8 word) = n"
      using nm(1) by (intro mnemonic_index) (simp_all add: listed_name_def SYS opc_defs)
    then show ?thesis using sys SYS by (auto simp: SYS defs)
  qed
qed

lemma word_bytes_value: "(ucast (be_value 0 (word_bytes w)) :: insn_t) = w"
  by (simp add: be_value_def word_bytes_def word_bits)

lemma print_word_bytes:
  assumes "read_memory addr = (0, word_bytes (encode i))" "addr \<le> 0x2000000" "representable i" "asm_text i = Inr t"
  shows "print_insn_fusion read_memory addr = Inr \<lparr>printed = t, memory_error = None, returned = 4\<rparr>"
proof -
  have "\<not> 0x2000000 < addr" using assms(2) by (simp add: not_less)
  with assms show ?thesis
    by (simp add: print_insn_fusion_def getb32_be_value word_bytes_value print_word_text decode_encode del: encode.simps)
qed

lemma line_bytes:
  assumes "tables_ready s" "roomy 4 s" "\<not> pending_reloc s" "mo \<in> set operand_insns" "opc_name mo = Some n"
    and "drop p (gs_buf s) = n @ '' '' @ operand_text (opc_args mo) rd rsa rsb x @ NUL # rest"
    and "registers_ok (opc_args mo) rd rsa rsb" "immediate_ok expression mo rsa x rest ex"
  obtains s' where "md_assemble expression e0 p s = Inr ((), s')"
    "section_bytes s' = section_bytes s @ word_bytes (encode (line_insn mo rd rsa rsb (X_add_number ex)))"
proof (cases "opc_args mo = USE_RDAB")
  case True
  note mo = operand_insns_facts [OF assms(4)]
  have "drop p (gs_buf s) = [] @ n @ CHR '' '' # [] @ fusion_gpreg_name ! rd @ CHR '','' # [] @ fusion_gpreg_name ! rsa @ CHR '','' #
      [] @ fusion_gpreg_name ! rsb @ NUL # rest"
    using assms(6) True by (simp add: operand_text_def Let_def)
  moreover have "rd < 32" "rsa < 32" "rsb < 32" "rsb \<noteq> 3" using assms(7) True by (simp_all add: registers_ok_def)
  moreover have "line_insn mo rd rsa rsb (X_add_number ex) = R_insn (of_nat rd) (of_nat rsa) (of_nat rsb) 0 (ucast (opc_index mo))"
    using mo(3) True by (simp add: line_insn_def insn_shape_def)
  ultimately show ?thesis
    using that md_assemble_R [OF assms(1-3) mo(1) assms(5) True, of rd rsa rsb p "[]" "[]" "[]" "[]" rest expression e0] by auto
next
  case False
  with assms obtain h r s' where "md_assemble expression e0 p s = Inr ((), s')"
    "emitted (encode (line_insn mo rd rsa rsb (X_add_number ex))) (line_fix mo ex) (s\<lparr>op_hash_ctrl := h, expr_end := r\<rparr>) s'"
    by (rule line_emitted)
  with emitted_fields(1) show ?thesis by (intro that) (auto simp: section_bytes_def)
qed

section \<open>Special registers\<close>

text \<open>
  The entries of \<open>stspr\<close> and \<open>ldspr\<close> have the operands \<open>USE_RDA\<close> and an immediate mask; for
  instructions with an immediate the assembler has no such operands.
\<close>

lemma spr_insns:
  "filter (\<lambda>e. opc_args e = USE_RDA) named_insns =
     [opc_info ''stspr'' 0x02 USE_RDA FRMT_SYS CPID_MAIN MASK_IMM_SYS OPC_SYS,
      opc_info ''ldspr'' 0x03 USE_RDA FRMT_SYS CPID_MAIN MASK_IMM_SYS OPC_SYS]"
  by (simp add: named_insns_def fusion_insn_all_def opc_info_def opc_info_zero_def isa_defs)

lemma spr_insn:
  assumes "mo \<in> set named_insns" "opc_args mo = USE_RDA" "opc_name mo = Some n"
  shows "mo = opc_info n (if n = ''stspr'' then 2 else 3) USE_RDA FRMT_SYS CPID_MAIN MASK_IMM_SYS OPC_SYS" "n = ''stspr'' \<or> n = ''ldspr''"
proof -
  have "mo \<in> set (filter (\<lambda>e. opc_args e = USE_RDA) named_insns)" using assms(1,2) by simp
  then show "mo = opc_info n (if n = ''stspr'' then 2 else 3) USE_RDA FRMT_SYS CPID_MAIN MASK_IMM_SYS OPC_SYS" "n = ''stspr'' \<or> n = ''ldspr''"
    unfolding spr_insns using assms(3) by (auto simp: opc_info_def)
qed

lemma assemble_spr:
  assumes "mo \<in> set named_insns" "opc_args mo = USE_RDA" "opc_name mo = Some n"
  shows "assemble_insn_bin expression q (create_insn mo) e0 s =
    Inr (Some ((create_insn mo)\<lparr>insn_word := encode (SYS_insn 0 0 (if n = ''stspr'' then 2 else 3) 0)\<rparr>,
      e0\<lparr>X_op := O_absent\<rparr>, BFD_RELOC_8), s)"
proof -
  have mo: "opc_args mo = USE_RDA" "opc_cpid mo = CPID_MAIN" "opc_imm_mask mo = MASK_IMM_SYS" "opc_opc mo = OPC_SYS"
    "opc_index mo = (if n = ''stspr'' then 2 else 3)" by (subst spr_insn(1) [OF assms], simp add: opc_info_def)+
  have r: "return_reloc mo = gret BFD_RELOC_8" by (simp add: return_reloc_def mo isa_defs)
  have c: "(MASK_IMM_SYS :: insn_t) \<noteq> MASK_NO_IMM" "\<not> CPID_MAX < CPID_MAIN" "\<not> MAX_USE_OP < USE_RDA" by (simp_all add: isa_defs)
  have o: "operands_imm expression BFD_RELOC_8 CPID_MAIN USE_RDA ops q = gret ops" for ops by (simp add: operands_imm_def isa_defs)
  have b: "build_word (create_insn mo) BFD_RELOC_8 \<lparr>Rd = 0, RSa = 0, RSb = 0, imm = 0, imm_expr = e\<rparr> =
      gret ((create_insn mo)\<lparr>insn_word := MAKE_SYS_TYPE 0 0 (opc_index mo) 0\<rparr>, e, BFD_RELOC_8)" for e
    by (simp add: build_word_def create_insn_def mo(4) opc_defs Let_def)
  have w: "MAKE_SYS_TYPE 0 0 (opc_index mo) 0 = encode (SYS_insn 0 0 (if n = ''stspr'' then 2 else 3) 0)" by (simp add: mo(5))
  show ?thesis
    by (simp add: assemble_insn_bin_def Let_def create_insn_def mo(1-3) r c o) (simp add: b [unfolded create_insn_def] w gret_def gbind_def create_insn_def)
qed

text \<open>
  C19: the operands of \<open>stspr\<close> and \<open>ldspr\<close> are dropped. Whatever follows the mnemonic on the line, the
  assembler reports nothing and appends the instruction with both registers zero, with a fixup
  of eight bits and no expression; the disassembler lists it as an access to \<open>CPUREV\<close>, the first special
  register, by the register \<open>zero\<close>.
\<close>

theorem spr_operands_dropped:
  assumes "tables_ready s" "roomy 4 s" "\<not> pending_reloc s" "mo \<in> set named_insns" "opc_args mo = USE_RDA" "opc_name mo = Some n"
    and "drop p (gs_buf s) = n @ '' '' @ x @ NUL # rest"
  shows "\<exists>s'. md_assemble expression e0 p s = Inr ((), s') \<and> gs_msgs s' = gs_msgs s \<and>
    section_bytes s' = section_bytes s @ word_bytes (encode (SYS_insn 0 0 (if n = ''stspr'' then 2 else 3) 0)) \<and>
    gs_fixes s' = gs_fixes s @ [place_fix (frag_now s') (length (fr_literal (last (gs_frags s'))) - 4)
      (insn_fix (e0\<lparr>X_op := O_absent\<rparr>) BFD_RELOC_8)] \<and>
    (\<forall>read_memory addr. addr \<le> 0x2000000 \<longrightarrow> read_memory addr = (0, drop (length (section_bytes s)) (section_bytes s')) \<longrightarrow>
      print_insn_fusion read_memory addr = Inr \<lparr>printed = n @ TAB @
        (if n = ''stspr'' then ''CPUREV'' @ COMMA @ ''zero'' else ''zero'' @ COMMA @ ''CPUREV''), memory_error = None, returned = 4\<rparr>)"
proof -
  define i where "i = SYS_insn 0 0 (if n = ''stspr'' then 2 else 3) 0"
  note spr = spr_insn [OF assms(4-6)]
  have mo: "opc_cpid mo = CPID_MAIN" by (subst spr(1)) (simp add: opc_info_def)
  have dr: "drop p (gs_buf s) = [] @ n @ CHR '' '' # x @ NUL # rest" using assms(7) by simp
  obtain h where h: "md_assemble expression e0 p s = emit_line expression e0 (p + length n) mo (s\<lparr>op_hash_ctrl := Some h\<rparr>)"
    "tables_ready (s\<lparr>op_hash_ctrl := Some h\<rparr>)"
    using md_assemble_lookup [OF assms(1) dr _ named_insn_name [OF assms(4,6)] _ op_map_named [OF assms(4,6)]] by auto
  define s1 where "s1 = s\<lparr>op_hash_ctrl := Some h\<rparr>"
  have s1: "roomy 4 s1" "\<not> pending_reloc s1" "simple_expr (e0\<lparr>X_op := O_absent\<rparr>)" using assms(2,3) by (simp_all add: s1_def simple_expr_def)
  have r: "BFD_RELOC_8 \<in> insn_relocs" "BFD_RELOC_8 \<noteq> BFD_RELOC_UNUSED" by (simp_all add: insn_relocs_def imm_relocs_def)
  obtain s' where s': "emit_line expression e0 (p + length n) mo s1 = Inr ((), s')"
    "emitted (encode i) (Some (insn_fix (e0\<lparr>X_op := O_absent\<rparr>) BFD_RELOC_8)) s1 s'"
    using emit_line_main [OF assemble_spr [OF assms(4-6)] mo s1, of expression "p + length n"] r by (auto simp: i_def)
  note e = emitted_fields [OF s'(2)]
  have t: "asm_text i = Inr (n @ TAB @ (if n = ''stspr'' then ''CPUREV'' @ COMMA @ ''zero'' else ''zero'' @ COMMA @ ''CPUREV''))"
    using spr(2) by (auto simp: i_def sreg_def reg_def fusion_spreg_name_def fusion_gpreg_name_def mnemonic_def sys_entries opc_info_def)
  have "representable i" by (simp add: i_def)
  with t have p: "print_insn_fusion read_memory addr = Inr \<lparr>printed = n @ TAB @
        (if n = ''stspr'' then ''CPUREV'' @ COMMA @ ''zero'' else ''zero'' @ COMMA @ ''CPUREV''), memory_error = None, returned = 4\<rparr>"
    if "addr \<le> 0x2000000" "read_memory addr = (0, word_bytes (encode i))" for read_memory addr
    using that by (intro print_word_bytes)
  show ?thesis
    using h(1) s'(1) e(1,2) e(10) [OF refl] p by (intro exI [of _ s']) (simp add: s1_def i_def [symmetric] section_bytes_def del: encode.simps)
qed

theorem spr_operands_dropped_witness:
  "\<exists>s s'. md_begin True (start_state (''stspr sp,gr0'' @ [NUL])) = Inr ((), s) \<and>
    md_assemble (\<lambda>s. Inl Abort) no_expr 0 s = Inr ((), s') \<and> gs_msgs s' = [] \<and> section_bytes s' = word_bytes (encode (SYS_insn 0 0 2 0))"
proof -
  define mo where "mo = opc_info ''stspr'' 0x02 USE_RDA FRMT_SYS CPID_MAIN MASK_IMM_SYS OPC_SYS"
  obtain s where s: "md_begin True (start_state (''stspr sp,gr0'' @ [NUL])) = Inr ((), s)" "tables_ready s"
    "gs_buf s = ''stspr sp,gr0'' @ [NUL]" "\<forall>n \<le> 64. roomy n s" "\<not> pending_reloc s" "section_bytes s = []" "gs_msgs s = []"
    by (rule start_ready)
  have mo: "mo \<in> set named_insns" "opc_args mo = USE_RDA" "opc_name mo = Some ''stspr''"
    by (simp_all add: mo_def named_insns_def fusion_insn_all_def opc_info_def opc_info_zero_def isa_defs)
  have dr: "drop 0 (gs_buf s) = ''stspr'' @ '' '' @ ''sp,gr0'' @ NUL # []" by (simp add: s(3))
  have "roomy 4 s" using s(4) by simp
  from spr_operands_dropped [OF s(2) this s(5) mo dr, of "\<lambda>s. Inl Abort" no_expr] s(1,6,7) show ?thesis by auto
qed

end
