(* ===== verification/Tc_Macro.thy ===== *)
theory Tc_Macro
  imports Tc_Line
begin

text \<open>
  The macro instructions \<open>call\<close> and \<open>la\<close>: the machine instructions and fixups they expand to.
\<close>

subsection \<open>Macros\<close>

lemma macro_build_ok:
  assumes "tables_ready s" "roomy 4 s" "mo \<in> set named_insns" "opc_name mo = Some n" "simple_expr ep" "r \<in> insn_relocs"
    "macro_args fmt args True (macro_word mo) BFD_RELOC_UNUSED = Inr (w, r)"
  obtains h s' where "macro_build (Some ep) n fmt args s = Inr ((), s')"
    "emitted w (Some (insn_fix ep r)) (s\<lparr>op_hash_ctrl := Some h\<rparr>) s'" "tables_ready s'" "\<forall>m. roomy (4 + m) s \<longrightarrow> roomy m s'"
proof -
  obtain h where h: "find_op n s = Inr (op_map n, s\<lparr>op_hash_ctrl := Some h\<rparr>)" "hash_ok h" "hash_abs h = op_map"
    using assms(1) named_insn_name(2) [OF assms(3,4)] by (rule find_op_name)
  define s1 where "s1 = s\<lparr>op_hash_ctrl := Some h\<rparr>"
  have s1: "roomy m s1 = roomy m s" "tables_ready s1" for m
    using tables_ready_op [OF assms(1) h(2,3)] by (simp_all add: s1_def)
  have r: "r \<noteq> BFD_RELOC_UNUSED" using assms(6) by (auto simp: insn_relocs_def imm_relocs_def)
  obtain s' where s': "append_insn ((create_insn mo)\<lparr>insn_word := w\<rparr>) (Some ep) r s1 = Inr ((), s')"
    "emitted w (Some (insn_fix ep r)) s1 s'" "\<forall>m. roomy (4 + m) s1 \<longrightarrow> roomy m s'"
    using append_insn_ok [of s1 "(create_insn mo)\<lparr>insn_word := w\<rparr>" ep r] assms(2,5,6) r s1(1)
    by (auto simp: create_insn_def)
  have "macro_build (Some ep) n fmt args s = Inr ((), s')"
    using h(1) assms(4,7) r s'(1) op_map_named [OF assms(3,4)] by (simp add: macro_build_def s1_def)
  with s' s1 emitted_fields(4) [OF s'(2)] that show ?thesis by (simp add: s1_def)
qed

lemma macro_build_fatal:
  assumes "tables_ready s" "mo \<in> set named_insns" "opc_name mo = Some n" "macro_args fmt args True (macro_word mo) BFD_RELOC_UNUSED = Inl e"
  shows "macro_build (Some ep) n fmt args s = Inl e"
proof -
  obtain h where "find_op n s = Inr (op_map n, s\<lparr>op_hash_ctrl := Some h\<rparr>)" 
    using assms(1) named_insn_name(2) [OF assms(2,3)] by (rule find_op_name)
  with assms(3,4) op_map_named [OF assms(2,3)] show ?thesis by (simp add: macro_build_def)
qed

lemma load_const_fatal:
  assumes "tables_ready s" "X_op ep = O_constant"
  shows "load_const reg ep s = Inl (Fatal ''internal error: invalid macro. nice one'')"
proof -
  have li: "opc_info ''li'' 0x0 USE_RDI FRMT_LI CPID_MAIN MASK_IMM_LI OPC_LI \<in> set named_insns"
    "opc_info ''lui'' 0x4 USE_RDI FRMT_LI CPID_MAIN MASK_IMM_LI OPC_LI \<in> set named_insns"
    by (simp_all add: named_insns_def fusion_insn_all_def opc_info_def opc_info_zero_def)
  have "macro_build (Some ep) ''li'' ''d, u'' [Arg_reg reg, Arg_reloc r] s =
      Inl (Fatal ''internal error: invalid macro. nice one'')" for r
    by (rule macro_build_fatal [OF assms(1) li(1)]) (simp_all add: opc_info_def)
  moreover have "macro_build (Some ep) ''lui'' ''d, u'' [Arg_reg reg, Arg_reloc r] s =
      Inl (Fatal ''internal error: invalid macro. nice one'')" for r
    by (rule macro_build_fatal [OF assms(1) li(2)]) (simp_all add: opc_info_def)
  ultimately show ?thesis
    using assms(2) by (simp add: load_const_def Let_def)
qed

lemma macro_entries:
  "opc_info ''lui'' 0x4 USE_RDI FRMT_LI CPID_MAIN MASK_IMM_LI OPC_LI \<in> set named_insns"
  "opc_info ''lni'' 0x8 USE_RDI FRMT_LI CPID_MAIN MASK_IMM_LI OPC_LI \<in> set named_insns"
  "opc_info ''jrl'' 0x1 USE_RAI_O FRMT_J CPID_MAIN MASK_IMM_J OPC_JLNK \<in> set named_insns"
  "opc_info ''jr'' 0x1 USE_RAI_O FRMT_J CPID_MAIN MASK_IMM_J OPC_JMP \<in> set named_insns"
  "opc_info ''call'' M_CALL USE_RAI_O FRMT_J CPID_MACRO MASK_IMM_J OPC_JLNK \<in> set named_insns"
  "opc_info ''la'' M_LA USE_RDI FRMT_LI CPID_MACRO MASK_IMM_LI OPC_LI \<in> set named_insns"
  "opc_info ''ret'' M_RET USE_RAI_O FRMT_J CPID_MACRO MASK_IMM_J OPC_JMP \<in> set named_insns"
  by (simp_all add: named_insns_def fusion_insn_all_def opc_info_def opc_info_zero_def)

lemma macro_formats:
  "macro_args ''d,i'' [Arg_reg x, Arg_reloc r] True w BFD_RELOC_UNUSED = Inr (w OR GEN_RD (of_int x), r)"
  "macro_args ''a,j'' [Arg_reg x, Arg_reloc r] True w BFD_RELOC_UNUSED = Inr (w OR GEN_RSA (of_int x), r)"
  by simp_all

lemma GEN_reg:
  assumes "rd < 32"
  shows "GEN_RD (of_nat rd) = push_bit 21 (of_nat rd AND 0x1f :: insn_t)" "GEN_RSA (of_nat rd) = push_bit 16 (of_nat rd AND 0x1f :: insn_t)"
  by (simp_all add: isa_defs word_bits)

lemma macro_words:
  assumes "rd < 32"
  shows "macro_word (opc_info ''lui'' 0x4 USE_RDI FRMT_LI CPID_MAIN MASK_IMM_LI OPC_LI) OR GEN_RD (of_int (int rd)) = encode (LI_insn (of_nat rd) 4 0)"
    "macro_word (opc_info ''lni'' 0x8 USE_RDI FRMT_LI CPID_MAIN MASK_IMM_LI OPC_LI) OR GEN_RD (of_int (int rd)) = encode (LI_insn (of_nat rd) 8 0)"
    "macro_word (opc_info ''jrl'' 0x1 USE_RAI_O FRMT_J CPID_MAIN MASK_IMM_J OPC_JLNK) OR GEN_RSA (of_int (int rd)) = encode (JL_insn (of_nat rd) 0)"
    "macro_word (opc_info ''jr'' 0x1 USE_RAI_O FRMT_J CPID_MAIN MASK_IMM_J OPC_JMP) OR GEN_RSA (of_int (int rd)) = encode (J_insn (of_nat rd) 0)"
proof -
  have "(ucast (of_nat rd :: 5 word) :: insn_t) = of_nat rd" using assms by (simp add: ucast_reg)
  then show "macro_word (opc_info ''lui'' 0x4 USE_RDI FRMT_LI CPID_MAIN MASK_IMM_LI OPC_LI) OR GEN_RD (of_int (int rd)) = encode (LI_insn (of_nat rd) 4 0)"
    "macro_word (opc_info ''lni'' 0x8 USE_RDI FRMT_LI CPID_MAIN MASK_IMM_LI OPC_LI) OR GEN_RD (of_int (int rd)) = encode (LI_insn (of_nat rd) 8 0)"
    "macro_word (opc_info ''jrl'' 0x1 USE_RAI_O FRMT_J CPID_MAIN MASK_IMM_J OPC_JLNK) OR GEN_RSA (of_int (int rd)) = encode (JL_insn (of_nat rd) 0)"
    "macro_word (opc_info ''jr'' 0x1 USE_RAI_O FRMT_J CPID_MAIN MASK_IMM_J OPC_JMP) OR GEN_RSA (of_int (int rd)) = encode (J_insn (of_nat rd) 0)"
    using GEN_reg [OF assms]
    by (simp_all add: macro_word_def opc_info_def MAKE_LI_TYPE_def MAKE_JL_TYPE_def MAKE_J_TYPE_def GEN_OPC_def GEN_DSEL_LI_def opc_defs
        or.assoc or.commute or.left_commute GEN_J_IMM_def GET_SPLIT_J_IMM_HI_def GET_SPLIT_J_IMM_LO_def)
qed

lemma macro_lines:
  assumes "rd < 32"
  shows "macro_args ''d,i'' [Arg_reg (int rd), Arg_reloc r] True
      (macro_word (opc_info ''lui'' 0x4 USE_RDI FRMT_LI CPID_MAIN MASK_IMM_LI OPC_LI)) BFD_RELOC_UNUSED = Inr (encode (LI_insn (of_nat rd) 4 0), r)"
    "macro_args ''d,i'' [Arg_reg (int rd), Arg_reloc r] True
      (macro_word (opc_info ''lni'' 0x8 USE_RDI FRMT_LI CPID_MAIN MASK_IMM_LI OPC_LI)) BFD_RELOC_UNUSED = Inr (encode (LI_insn (of_nat rd) 8 0), r)"
    "macro_args ''a,j'' [Arg_reg (int rd), Arg_reloc r] True
      (macro_word (opc_info ''jrl'' 0x1 USE_RAI_O FRMT_J CPID_MAIN MASK_IMM_J OPC_JLNK)) BFD_RELOC_UNUSED = Inr (encode (JL_insn (of_nat rd) 0), r)"
    "macro_args ''a,j'' [Arg_reg (int rd), Arg_reloc r] True
      (macro_word (opc_info ''jr'' 0x1 USE_RAI_O FRMT_J CPID_MAIN MASK_IMM_J OPC_JMP)) BFD_RELOC_UNUSED = Inr (encode (J_insn (of_nat rd) 0), r)"
  by (simp_all only: macro_formats macro_words [OF assms])

lemma opc_name_info: "opc_name (opc_info n i a f c m opc) = Some n"
  by (simp add: opc_info_def)

lemma insn_relocs_members:
  "BFD_RELOC_FUSION_HI16 \<in> insn_relocs" "BFD_RELOC_16 \<in> insn_relocs" "BFD_RELOC_FUSION_21 \<in> insn_relocs"
  by (simp_all add: insn_relocs_def imm_relocs_def)

lemma simple_expr_number [simp]: "simple_expr (e\<lparr>X_add_number := n\<rparr>) = simple_expr e"
  by (simp add: simple_expr_def)

lemma roomy_mono: "roomy n s \<Longrightarrow> m \<le> n \<Longrightarrow> roomy m s"
  unfolding roomy_def by (meson order_trans)

lemma fusion_call_ok:
  assumes "tables_ready s" "roomy 8 s" "simple_expr ep"
    "low = ucast (ucast (X_add_number ep) AND 0x0000ffff :: 32 word)"
  obtains s' f1 a1 f2 a2 where "fusion_call 22 ep s = Inr ((), s')" "tables_ready s'" "gs_msgs s' = gs_msgs s"
    "pending_reloc s' = pending_reloc s"
    "section_bytes s' = section_bytes s @ word_bytes (encode (LI_insn 22 4 0)) @ word_bytes (encode (JL_insn 22 0))"
    "gs_fixes s' = gs_fixes s @ [place_fix f1 a1 (insn_fix (ep\<lparr>X_add_number := X_add_number ep - low\<rparr>) BFD_RELOC_FUSION_HI16),
       place_fix f2 a2 (insn_fix (ep\<lparr>X_add_number := low\<rparr>) BFD_RELOC_FUSION_21)]"
proof -
  define upper where "upper = ep\<lparr>X_add_number := X_add_number ep - low\<rparr>"
  define lower where "lower = ep\<lparr>X_add_number := low\<rparr>"
  have up: "simple_expr upper" and lo: "simple_expr lower" using assms(3) by (simp_all add: upper_def lower_def)
  have r22: "(22::nat) < 32" by simp
  have r4: "roomy 4 s" using assms(2) by (rule roomy_mono) simp
  obtain h1 s1 where 1: "macro_build (Some upper) ''lui'' ''d,i'' [Arg_reg 22, Arg_reloc BFD_RELOC_FUSION_HI16] s = Inr ((), s1)"
    "emitted (encode (LI_insn 22 4 0)) (Some (insn_fix upper BFD_RELOC_FUSION_HI16)) (s\<lparr>op_hash_ctrl := Some h1\<rparr>) s1"
    "tables_ready s1" "\<forall>m. roomy (4 + m) s \<longrightarrow> roomy m s1"
    by (rule macro_build_ok [OF assms(1) r4 macro_entries(1) opc_name_info up insn_relocs_members(1)
        macro_lines(1) [OF r22, unfolded of_nat_numeral]])
  have r4': "roomy 4 s1" using 1(4) assms(2) by (simp add: numeral_eq_Suc)
  obtain h2 s2 where 2: "macro_build (Some lower) ''jrl'' ''a,j'' [Arg_reg 22, Arg_reloc BFD_RELOC_FUSION_21] s1 = Inr ((), s2)"
    "emitted (encode (JL_insn 22 0)) (Some (insn_fix lower BFD_RELOC_FUSION_21)) (s1\<lparr>op_hash_ctrl := Some h2\<rparr>) s2"
    "tables_ready s2"
    by (rule macro_build_ok [OF 1(3) r4' macro_entries(3) opc_name_info lo insn_relocs_members(3)
        macro_lines(3) [OF r22, unfolded of_nat_numeral]])
  note e1 = emitted_fields [OF 1(2)] and e2 = emitted_fields [OF 2(2)]
  show ?thesis
    by (rule that [of s2])
       (use 1(1) 2 e1(1,2,5) e1(10) [OF refl] e2(1,2,5) e2(10) [OF refl] in
         \<open>simp_all add: fusion_call_def Let_def assms(4) [symmetric] upper_def lower_def\<close>)
qed

lemma md_assemble_op:
  assumes "tables_ready s" "drop p (gs_buf s) = n @ CHR '' '' # rest" "mo \<in> set named_insns" "opc_name mo = Some n"
  obtains h where "md_assemble expression e0 p s = emit_line expression e0 (p + length n) mo (s\<lparr>op_hash_ctrl := Some h\<rparr>)"
    "tables_ready (s\<lparr>op_hash_ctrl := Some h\<rparr>)" "drop (p + length n) (gs_buf (s\<lparr>op_hash_ctrl := Some h\<rparr>)) = CHR '' '' # rest"
  using md_assemble_lookup [OF assms(1) _ _ named_insn_name [OF assms(3,4)] _ op_map_named [OF assms(3,4)], of p "[]" "CHR '' ''" rest]
    assms(2) drop_next [OF assms(2)] by auto

lemma parse_rai_offset_macro:
  assumes "drop p (gs_buf s) = w @ x @ NUL # rest" "\<forall>b \<in> set w. blank b" "starts_operand x" "reads expression (x @ NUL # rest) e"
    "reloc \<in> set imm_relocs"
  obtains r where "parse_rai_offset expression reloc CPID_MACRO ops p s =
    Inr ((0, ops\<lparr>imm := ucast (X_add_number e), imm_expr := e\<rparr>), s\<lparr>expr_end := r\<rparr>)"
proof -
  define q where "q = p + length w"
  have x: "starts_operand (x @ NUL # rest)" using assms(3) by (rule starts_operand_append)
  have d: "drop q (gs_buf s) = x @ NUL # rest" using drop_next [OF assms(1)] by (simp add: q_def)
  obtain r where r: "\<forall>ops. parse_imm expression reloc ops q s =
      Inr ((ops\<lparr>imm := ucast (X_add_number e), imm_expr := e\<rparr>, q), s\<lparr>expr_end := r\<rparr>)"
    using d x assms(4,5) by (rule parse_imm_ok)
  obtain c x' where "x = c # x'" using assms(3) by (cases x) (simp_all add: starts_operand_def)
  then have "drop (Suc q) (gs_buf s) = x' @ NUL # rest" using drop_next [of q "gs_buf s" "[c]"] d by simp
  then have "NUL \<in> set (drop (Suc q) (gs_buf (s\<lparr>expr_end := r\<rparr>)))" by simp
  then obtain q' where "skip_closing (Suc q) (s\<lparr>expr_end := r\<rparr>) = Inr (q', s\<lparr>expr_end := r\<rparr>)"
    unfolding skip_closing_def
    by (rule scan_exists [of NUL _ _ "\<lambda>c. c \<noteq> CHR '' '' \<and> c \<noteq> CHR 0x09 \<and> c \<noteq> CHR '')''"]) (simp_all add: NUL_def)
  moreover have "skip_blanks p s = Inr (q, s)" using skip_blanks_operand [OF assms(1,2) x] by (simp add: q_def)
  ultimately show ?thesis using r by (intro that [of r]) (simp add: parse_rai_offset_def)
qed

text \<open>
  C37: \<open>call\<close>. The macro becomes two instructions, a load of the upper half of the address
  into \<open>tmp0\<close> and a linking jump through it, with a fixup each: the upper one is for the
  address less its lower 16 bits, the lower one for these bits.
\<close>

theorem call_expands:
  assumes "tables_ready s" "roomy 8 s" "\<not> pending_reloc s" "drop p (gs_buf s) = ''call '' @ x @ NUL # rest"
    and "starts_operand x" "reads expression (x @ NUL # rest) ex" "simple_expr ex"
    and "low = ucast (ucast (X_add_number ex) AND 0x0000ffff :: 32 word)"
  shows "\<exists>s' f1 a1 f2 a2. md_assemble expression e0 p s = Inr ((), s') \<and> tables_ready s' \<and> gs_msgs s' = gs_msgs s \<and>
    section_bytes s' = section_bytes s @ word_bytes (encode (LI_insn 22 4 0)) @ word_bytes (encode (JL_insn 22 0)) \<and>
    gs_fixes s' = gs_fixes s @
      [place_fix f1 a1 (insn_fix (ex\<lparr>X_add_number := X_add_number ex - low\<rparr>) BFD_RELOC_FUSION_HI16),
       place_fix f2 a2 (insn_fix (ex\<lparr>X_add_number := low\<rparr>) BFD_RELOC_FUSION_21)]"
proof -
  define mo where "mo = opc_info ''call'' M_CALL USE_RAI_O FRMT_J CPID_MACRO MASK_IMM_J OPC_JLNK"
  define q where "q = p + length ''call''"
  have d0: "drop p (gs_buf s) = ''call'' @ CHR '' '' # x @ NUL # rest" using assms(4) by simp
  obtain h where h: "md_assemble expression e0 p s = emit_line expression e0 q mo (s\<lparr>op_hash_ctrl := Some h\<rparr>)"
    "tables_ready (s\<lparr>op_hash_ctrl := Some h\<rparr>)" "drop q (gs_buf (s\<lparr>op_hash_ctrl := Some h\<rparr>)) = CHR '' '' # x @ NUL # rest"
    unfolding q_def mo_def by (rule md_assemble_op [OF assms(1) d0 macro_entries(5) opc_name_info])
  define s1 where "s1 = s\<lparr>op_hash_ctrl := Some h\<rparr>"
  have p: "drop q (gs_buf s1) = [CHR '' ''] @ x @ NUL # rest" "\<forall>b \<in> set [CHR '' '']. blank b"
    "BFD_RELOC_FUSION_21 \<in> set imm_relocs" using h(3) by (simp_all add: s1_def blank_def imm_relocs_def)
  obtain r where r: "parse_rai_offset expression BFD_RELOC_FUSION_21 CPID_MACRO
      \<lparr>Rd = 0, RSa = 0, RSb = 0, imm = 0, imm_expr = e0\<lparr>X_op := O_absent\<rparr>\<rparr> q s1 =
    Inr ((0, \<lparr>Rd = 0, RSa = 0, RSb = 0, imm = ucast (X_add_number ex), imm_expr = ex\<rparr>), s1\<lparr>expr_end := r\<rparr>)"
    by (rule parse_rai_offset_macro [OF p(1,2) assms(5,6) p(3),
        of "\<lparr>Rd = 0, RSa = 0, RSb = 0, imm = 0, imm_expr = e0\<lparr>X_op := O_absent\<rparr>\<rparr>"]) simp
  define ip where "ip = (create_insn mo)\<lparr>insn_word := MAKE_JL_TYPE 0 (ucast (X_add_number ex))\<rparr>"
  have bin: "assemble_insn_bin expression q (create_insn mo) e0 s1 = Inr (Some (ip, ex, BFD_RELOC_FUSION_21), s1\<lparr>expr_end := r\<rparr>)"
    using r by (simp add: assemble_insn_bin_def return_reloc_def operands_imm_def build_word_def create_insn_def mo_def opc_info_def
        ip_def opc_defs CPID_MAIN_def CPID_MACRO_def CPID_MAX_def USE_RAI_O_def USE_RDAI_def USE_RDI_def USE_RAI_def USE_RABI_def
        USE_RDAI_O_def MAX_USE_OP_def MASK_IMM_J_def MASK_NO_IMM_def Let_def)
  have s2: "tables_ready (s1\<lparr>expr_end := r\<rparr>)" "roomy 8 (s1\<lparr>expr_end := r\<rparr>)"
    using h(2) assms(2) by (simp_all add: s1_def tables_ready_def roomy_def)
  obtain s' f1 a1 f2 a2 where s': "fusion_call 22 ex (s1\<lparr>expr_end := r\<rparr>) = Inr ((), s')" "tables_ready s'"
    "gs_msgs s' = gs_msgs (s1\<lparr>expr_end := r\<rparr>)" "pending_reloc s' = pending_reloc (s1\<lparr>expr_end := r\<rparr>)"
    "section_bytes s' = section_bytes (s1\<lparr>expr_end := r\<rparr>) @ word_bytes (encode (LI_insn 22 4 0)) @ word_bytes (encode (JL_insn 22 0))"
    "gs_fixes s' = gs_fixes (s1\<lparr>expr_end := r\<rparr>) @
      [place_fix f1 a1 (insn_fix (ex\<lparr>X_add_number := X_add_number ex - low\<rparr>) BFD_RELOC_FUSION_HI16),
       place_fix f2 a2 (insn_fix (ex\<lparr>X_add_number := low\<rparr>) BFD_RELOC_FUSION_21)]"
    using s2 assms(7,8) by (rule fusion_call_ok)
  have "md_assemble expression e0 p s = Inr ((), s')"
    using bin s'(1,4) assms(3)
    by (simp add: h(1) s1_def [symmetric] emit_line_def)
       (simp add: ip_def create_insn_def mo_def opc_info_def macro_def M_CALL_def M_LA_def s1_def)
  with s' show ?thesis by (auto simp: s1_def section_bytes_def)
qed

theorem call_expands_witness:
  "\<exists>s s'. md_begin True (start_state (''call 7'' @ [NUL])) = Inr ((), s) \<and>
    md_assemble (\<lambda>s. Inr (no_expr\<lparr>X_op := O_constant, X_add_number := 0x12345\<rparr>, s\<lparr>gs_ilp := Suc (gs_ilp s)\<rparr>)) no_expr 0 s = Inr ((), s') \<and>
    section_bytes s' = word_bytes (encode (LI_insn 22 4 0)) @ word_bytes (encode (JL_insn 22 0))"
proof -
  obtain s where s: "md_begin True (start_state (''call 7'' @ [NUL])) = Inr ((), s)" "tables_ready s"
    "gs_buf s = ''call 7'' @ [NUL]" "\<forall>n \<le> 64. roomy n s" "\<not> pending_reloc s" "section_bytes s = []" by (rule start_ready)
  have "reads (\<lambda>s. Inr (no_expr\<lparr>X_op := O_constant, X_add_number := 0x12345\<rparr>, s\<lparr>gs_ilp := Suc (gs_ilp s)\<rparr>)) (''7'' @ NUL # [])
      (no_expr\<lparr>X_op := O_constant, X_add_number := 0x12345\<rparr>)" by (auto simp: reads_def)
  then show ?thesis
    using s call_expands [OF s(2) _ s(5), of 0 "''7''" "[]"]
    by (fastforce simp: starts_operand_def blank_def simple_expr_def)
qed

lemma GET_RD_li:
  assumes "rd < 32"
  shows "uint (GET_RD (MAKE_LI_TYPE (of_int (int rd)) d n)) = int rd"
proof -
  have "GET_RD (MAKE_LI_TYPE (of_int (int rd)) d n) = of_int (int rd) AND 0x1f"
    by (simp add: isa_defs word_bits)
  also have "\<dots> = take_bit 5 (of_nat rd)" by (simp add: take_bit_eq_mask mask_eq_exp_minus_1)
  finally show ?thesis using assms
    by (simp add: unsigned_take_bit_eq unsigned_of_nat take_bit_nat_eq_self take_bit_int_eq_self)
qed

lemma load_address_symbol:
  assumes "tables_ready s" "roomy 8 s" "X_op ep = O_symbol" "IS_SEXT_32BIT_NUM (X_add_number ep)" "rd < 32"
  obtains s' f1 a1 f2 a2 where "load_address (int rd) ep s = Inr ((), s')" "tables_ready s'" "gs_msgs s' = gs_msgs s"
    "pending_reloc s' = pending_reloc s"
    "section_bytes s' = section_bytes s @ word_bytes (encode (LI_insn (of_nat rd) 4 0)) @ word_bytes (encode (LI_insn (of_nat rd) 8 0))"
    "gs_fixes s' = gs_fixes s @ [place_fix f1 a1 (insn_fix ep BFD_RELOC_FUSION_HI16), place_fix f2 a2 (insn_fix ep BFD_RELOC_16)]"
proof -
  have ep: "simple_expr ep" using assms(3) by (simp add: simple_expr_def)
  have r4: "roomy 4 s" using assms(2) by (rule roomy_mono) simp
  obtain h1 s1 where 1: "macro_build (Some ep) ''lui'' ''d,i'' [Arg_reg (int rd), Arg_reloc BFD_RELOC_FUSION_HI16] s = Inr ((), s1)"
    "emitted (encode (LI_insn (of_nat rd) 4 0)) (Some (insn_fix ep BFD_RELOC_FUSION_HI16)) (s\<lparr>op_hash_ctrl := Some h1\<rparr>) s1"
    "tables_ready s1" "\<forall>m. roomy (4 + m) s \<longrightarrow> roomy m s1"
    by (rule macro_build_ok [OF assms(1) r4 macro_entries(1) opc_name_info ep insn_relocs_members(1) macro_lines(1) [OF assms(5)]])
  have r4': "roomy 4 s1" using 1(4) assms(2) by (simp add: numeral_eq_Suc)
  obtain h2 s2 where 2: "macro_build (Some ep) ''lni'' ''d,i'' [Arg_reg (int rd), Arg_reloc BFD_RELOC_16] s1 = Inr ((), s2)"
    "emitted (encode (LI_insn (of_nat rd) 8 0)) (Some (insn_fix ep BFD_RELOC_16)) (s1\<lparr>op_hash_ctrl := Some h2\<rparr>) s2" "tables_ready s2"
    by (rule macro_build_ok [OF 1(3) r4' macro_entries(2) opc_name_info ep insn_relocs_members(2) macro_lines(2) [OF assms(5)]])
  note e1 = emitted_fields [OF 1(2)] and e2 = emitted_fields [OF 2(2)]
  show ?thesis
    by (rule that [of s2])
       (use 1(1) 2 e1(1,2,5) e1(10) [OF refl] e2(1,2,5) e2(10) [OF refl] assms(3,4) in \<open>simp_all add: load_address_def\<close>)
qed

lemma md_assemble_la:
  assumes "tables_ready s" "a < 32" "drop p (gs_buf s) = ''la '' @ fusion_gpreg_name ! a @ '','' @ x @ NUL # rest"
    "starts_operand x" "reads expression (x @ NUL # rest) ex"
  obtains s1 where "md_assemble expression e0 p s = rbind (load_address (int a) ex s1) (\<lambda>(_, s).
      if pending_reloc s then as_warn (''something forgot to clean up ooooooh'' @ [CHR 0x0A]) s else Inr ((), s))"
    "tables_ready s1" "gs_msgs s1 = gs_msgs s" "pending_reloc s1 = pending_reloc s" "section_bytes s1 = section_bytes s"
    "gs_fixes s1 = gs_fixes s" "\<forall>m. roomy m s1 = roomy m s"
proof -
  define mo where "mo = opc_info ''la'' M_LA USE_RDI FRMT_LI CPID_MACRO MASK_IMM_LI OPC_LI"
  define q where "q = p + length ''la''"
  have d0: "drop p (gs_buf s) = ''la'' @ CHR '' '' # fusion_gpreg_name ! a @ CHR '','' # x @ NUL # rest" using assms(3) by simp
  obtain h where h: "md_assemble expression e0 p s = emit_line expression e0 q mo (s\<lparr>op_hash_ctrl := Some h\<rparr>)"
    "tables_ready (s\<lparr>op_hash_ctrl := Some h\<rparr>)"
    "drop q (gs_buf (s\<lparr>op_hash_ctrl := Some h\<rparr>)) = CHR '' '' # fusion_gpreg_name ! a @ CHR '','' # x @ NUL # rest"
    unfolding q_def mo_def by (rule md_assemble_op [OF assms(1) d0 macro_entries(6) opc_name_info])
  define s1 where "s1 = s\<lparr>op_hash_ctrl := Some h\<rparr>"
  have p: "drop q (gs_buf s1) = [CHR '' ''] @ fusion_gpreg_name ! a @ CHR '','' # [] @ x @ NUL # rest" "\<forall>b \<in> set [CHR '' '']. blank b"
    "\<forall>b \<in> set []. blank b" "starts_operand (x @ NUL # rest)" "BFD_RELOC_16 \<in> set imm_relocs"
    using h(3) assms(4) by (simp_all add: s1_def blank_def imm_relocs_def starts_operand_append)
  obtain r q' where r: "parse_rdi expression BFD_RELOC_16 \<lparr>Rd = 0, RSa = 0, RSb = 0, imm = 0, imm_expr = e0\<lparr>X_op := O_absent\<rparr>\<rparr> q s1 =
    Inr ((0, \<lparr>Rd = int a, RSa = 0, RSb = 0, imm = ucast (X_add_number ex), imm_expr = ex\<rparr>, q'), s1\<lparr>expr_end := r\<rparr>)"
    by (rule parse_rdi_ok [OF assms(2) p(1-4) assms(5) p(5),
        of "\<lparr>Rd = 0, RSa = 0, RSb = 0, imm = 0, imm_expr = e0\<lparr>X_op := O_absent\<rparr>\<rparr>"]) simp
  define ip where "ip = (create_insn mo)\<lparr>insn_word := MAKE_LI_TYPE (of_int (int a)) 0 (ucast (X_add_number ex))\<rparr>"
  have bin: "assemble_insn_bin expression q (create_insn mo) e0 s1 = Inr (Some (ip, ex, BFD_RELOC_16), s1\<lparr>expr_end := r\<rparr>)"
    using r by (simp add: assemble_insn_bin_def return_reloc_def operands_imm_def build_word_def create_insn_def mo_def opc_info_def
        ip_def opc_defs CPID_MAIN_def CPID_MACRO_def CPID_MAX_def USE_RDI_def USE_RDAI_def MAX_USE_OP_def MASK_IMM_LI_def MASK_NO_IMM_def
        M_LA_def Let_def)
  have mac: "macro ip ex s' = load_address (int a) ex s'" for s'
    using GET_RD_li [OF assms(2)] by (simp add: macro_def ip_def create_insn_def mo_def opc_info_def)
  have cpid: "opc_cpid (insn_mo ip) = CPID_MACRO" by (simp add: ip_def create_insn_def mo_def opc_info_def)
  show ?thesis
    by (rule that [of "s1\<lparr>expr_end := r\<rparr>"])
       (use h(2) bin mac cpid in \<open>simp_all add: h(1) s1_def [symmetric] emit_line_def\<close>,
        simp_all add: s1_def tables_ready_def section_bytes_def roomy_def)
qed

text \<open>
  C38: \<open>la\<close>. With a symbol the macro loads the upper half and then the lower half of the
  address, with a fixup for each; with a constant the assembler always stops with a fatal
  error, since the formats of \<open>load_const\<close> contain a blank that \<open>macro_build\<close> does not know;
  and with a symbol whose offset does not fit 32 signed bits nothing is emitted at all.
\<close>

theorem la_expands:
  assumes "tables_ready s" "roomy 8 s" "\<not> pending_reloc s" "a < 32"
    and "drop p (gs_buf s) = ''la '' @ fusion_gpreg_name ! a @ '','' @ x @ NUL # rest"
    and "starts_operand x" "reads expression (x @ NUL # rest) ex"
  shows "(X_op ex = O_symbol \<and> IS_SEXT_32BIT_NUM (X_add_number ex) \<longrightarrow>
      (\<exists>s' f1 a1 f2 a2. md_assemble expression e0 p s = Inr ((), s') \<and> tables_ready s' \<and> gs_msgs s' = gs_msgs s \<and>
        section_bytes s' = section_bytes s @ word_bytes (encode (LI_insn (of_nat a) 4 0)) @ word_bytes (encode (LI_insn (of_nat a) 8 0)) \<and>
        gs_fixes s' = gs_fixes s @ [place_fix f1 a1 (insn_fix ex BFD_RELOC_FUSION_HI16), place_fix f2 a2 (insn_fix ex BFD_RELOC_16)])) \<and>
    (X_op ex = O_constant \<longrightarrow>
      md_assemble expression e0 p s = Inl (Fatal ''internal error: invalid macro. nice one'')) \<and>
    (X_op ex = O_symbol \<and> \<not> IS_SEXT_32BIT_NUM (X_add_number ex) \<longrightarrow>
      (\<exists>s'. md_assemble expression e0 p s = Inr ((), s') \<and> section_bytes s' = section_bytes s \<and> gs_msgs s' = gs_msgs s))"
proof -
  obtain s1 where s1: "md_assemble expression e0 p s = rbind (load_address (int a) ex s1) (\<lambda>(_, s).
      if pending_reloc s then as_warn (''something forgot to clean up ooooooh'' @ [CHR 0x0A]) s else Inr ((), s))"
    "tables_ready s1" "gs_msgs s1 = gs_msgs s" "pending_reloc s1 = pending_reloc s" "section_bytes s1 = section_bytes s"
    "gs_fixes s1 = gs_fixes s" and room: "\<forall>m. roomy m s1 = roomy m s"
    by (rule md_assemble_la [OF assms(1,4-7)])
  have r8: "roomy 8 s1" using room assms(2) by simp
  show ?thesis
  proof (intro conjI impI)
    assume "X_op ex = O_symbol \<and> IS_SEXT_32BIT_NUM (X_add_number ex)"
    then have ex: "X_op ex = O_symbol" "IS_SEXT_32BIT_NUM (X_add_number ex)" by simp_all
    obtain s' f1 a1 f2 a2 where "load_address (int a) ex s1 = Inr ((), s')" "tables_ready s'" "gs_msgs s' = gs_msgs s1"
      "pending_reloc s' = pending_reloc s1"
      "section_bytes s' = section_bytes s1 @ word_bytes (encode (LI_insn (of_nat a) 4 0)) @ word_bytes (encode (LI_insn (of_nat a) 8 0))"
      "gs_fixes s' = gs_fixes s1 @ [place_fix f1 a1 (insn_fix ex BFD_RELOC_FUSION_HI16), place_fix f2 a2 (insn_fix ex BFD_RELOC_16)]"
      by (rule load_address_symbol [OF s1(2) r8 ex assms(4)])
    with s1 assms(3) show "\<exists>s' f1 a1 f2 a2. md_assemble expression e0 p s = Inr ((), s') \<and> tables_ready s' \<and> gs_msgs s' = gs_msgs s \<and>
        section_bytes s' = section_bytes s @ word_bytes (encode (LI_insn (of_nat a) 4 0)) @ word_bytes (encode (LI_insn (of_nat a) 8 0)) \<and>
        gs_fixes s' = gs_fixes s @ [place_fix f1 a1 (insn_fix ex BFD_RELOC_FUSION_HI16), place_fix f2 a2 (insn_fix ex BFD_RELOC_16)]"
      by auto
  next
    assume "X_op ex = O_constant"
    then show "md_assemble expression e0 p s = Inl (Fatal ''internal error: invalid macro. nice one'')"
      using load_const_fatal [OF s1(2)] by (simp add: s1(1) load_address_def)
  next
    assume "X_op ex = O_symbol \<and> \<not> IS_SEXT_32BIT_NUM (X_add_number ex)"
    then show "\<exists>s'. md_assemble expression e0 p s = Inr ((), s') \<and> section_bytes s' = section_bytes s \<and> gs_msgs s' = gs_msgs s"
      using s1 assms(3) by (simp add: load_address_def)
  qed
qed

theorem la_expands_witness:
  "\<exists>s. md_begin True (start_state (''la sp,7'' @ [NUL])) = Inr ((), s) \<and>
    md_assemble (\<lambda>s. Inr (no_expr\<lparr>X_op := O_constant, X_add_number := 7\<rparr>, s\<lparr>gs_ilp := Suc (gs_ilp s)\<rparr>)) no_expr 0 s =
      Inl (Fatal ''internal error: invalid macro. nice one'')"
proof -
  obtain s where s: "md_begin True (start_state (''la sp,7'' @ [NUL])) = Inr ((), s)" "tables_ready s"
    "gs_buf s = ''la sp,7'' @ [NUL]" "\<forall>n \<le> 64. roomy n s" "\<not> pending_reloc s" by (rule start_ready)
  have "reads (\<lambda>s. Inr (no_expr\<lparr>X_op := O_constant, X_add_number := 7\<rparr>, s\<lparr>gs_ilp := Suc (gs_ilp s)\<rparr>)) (''7'' @ NUL # [])
      (no_expr\<lparr>X_op := O_constant, X_add_number := 7\<rparr>)" by (auto simp: reads_def)
  moreover have "drop 0 (gs_buf s) = ''la '' @ fusion_gpreg_name ! 1 @ '','' @ ''7'' @ NUL # []"
    by (simp add: s(3) fusion_gpreg_name_def)
  ultimately show ?thesis
    using s la_expands [OF s(2) _ s(5), of 1 0 "''7''" "[]"] by (fastforce simp: starts_operand_def blank_def)
qed

end
