(* ===== verification/Tc_Fix.thy ===== *)
theory Tc_Fix
  imports Tc_Line
begin

text \<open>
  The fixups of \<^verbatim>\<open>gas/config/tc-fusion.c\<close>: \<open>md_apply_fix\<close> merges the value of a fixup into
  the instruction it belongs to, \<open>tc_gen_reloc\<close> makes the relocation entry of a fixup that is
  left for the linker. A fixup is given by its number in the list of the section. The value of
  a symbol, resolved before the fixups are applied, is the parameter \<open>get_value\<close>, the symbol of
  BFD behind a symbol of the assembler the parameter \<open>bfdsym\<close>.
\<close>

subsection \<open>Applying a fixup\<close>

text \<open>\<open>as_bad_where\<close> differs from \<open>as_bad\<close> in the file and line it prints.\<close>

definition as_bad_where :: "string \<Rightarrow> unit gas" where
  "as_bad_where msg = as_bad msg"

definition frag_of :: "fixS \<Rightarrow> fragS gas" where
  "frag_of fx = (\<lambda>s. case fx_frag fx of None \<Rightarrow> Inl Null_pointer
     | Some i \<Rightarrow> rbind (rd8 (gs_frags s) i) (\<lambda>fr. Inr (fr, s)))"

definition md_pcrel_from :: "fixS \<Rightarrow> bfd_vma gas" where
  "md_pcrel_from fx = gbind (frag_of fx) (\<lambda>fr. gret (of_nat (fx_where fx) + fr_address fr))"

text \<open>\<open>bfd_putb32 (x | bfd_getb32 (buf), buf)\<close>\<close>

definition or_word :: "fixS \<Rightarrow> bfd_vma \<Rightarrow> unit gas" where
  "or_word fx x =
     gbind (frag_of fx) (\<lambda>fr.
     gbind (glift (bfd_getb32 (fr_literal fr) (fx_where fx))) (\<lambda>v.
     gbind (glift (bfd_putb32 (x OR v) (fr_literal fr) (fx_where fx))) (\<lambda>lit s.
     Inr ((), upd_frag (the (fx_frag fx)) (\<lambda>fr. fr\<lparr>fr_literal := lit\<rparr>) s))))"

definition signed_int :: "bfd_vma \<Rightarrow> int" where
  "signed_int v = sint (ucast v :: 32 word)"

text \<open>
  The cases of a relocation relative to the place: nothing happens for the value 0 or without
  a symbol, and a distance out of range is reported but stored all the same.
\<close>

definition apply_pcrel ::
  "(nat \<Rightarrow> bfd_vma) \<Rightarrow> fixS \<Rightarrow> bfd_vma \<Rightarrow> int \<Rightarrow> int \<Rightarrow> string \<Rightarrow> (bfd_vma \<Rightarrow> bfd_vma) \<Rightarrow> unit gas" where
  "apply_pcrel get_value fx val lo hi msg gen =
     (if val = 0 then gret ()
      else case fx_addsy fx of
        None \<Rightarrow> gret ()
      | Some y \<Rightarrow>
          gbind (md_pcrel_from fx) (\<lambda>from.
          let target = get_value y + val; delta = target - from in
          gbind (if signed_int delta < lo \<or> signed_int delta > hi then as_bad_where msg else gret ()) (\<lambda>_.
          or_word fx (gen delta))))"

definition const_fixup :: "nat \<Rightarrow> fixS \<Rightarrow> bfd_vma \<Rightarrow> unit gas" where
  "const_fixup n fx val =
     gbind (glift (fusion_apply_const_reloc (fx_r_type fx) val)) (\<lambda>w.
     gbind (or_word fx (ucast w)) (\<lambda>_.
     if fx_addsy fx = None then upd_fix n (\<lambda>fx. fx\<lparr>fx_done := True\<rparr>) else gret ()))"

definition md_apply_fix :: "(nat \<Rightarrow> bfd_vma) \<Rightarrow> nat \<Rightarrow> bfd_vma \<Rightarrow> unit gas" where
  "md_apply_fix get_value n val =
     gbind (\<lambda>s. rbind (rd8 (gs_fixes s) n) (\<lambda>fx. Inr (fx, s))) (\<lambda>fx.
     gbind (frag_of fx) (\<lambda>_.
     gbind (upd_fix n (\<lambda>fx. fx\<lparr>fx_addnumber := val\<rparr>)) (\<lambda>_.
     case fx_r_type fx of
       BFD_RELOC_32 \<Rightarrow> const_fixup n fx val
     | BFD_RELOC_8 \<Rightarrow> const_fixup n fx val
     | BFD_RELOC_FUSION_HI16 \<Rightarrow> const_fixup n fx val
     | BFD_RELOC_16 \<Rightarrow> const_fixup n fx val
     | BFD_RELOC_FUSION_STORE \<Rightarrow> const_fixup n fx val
     | BFD_RELOC_FUSION_LOAD \<Rightarrow> const_fixup n fx val
     | BFD_RELOC_FUSION_12 \<Rightarrow> const_fixup n fx val
     | BFD_RELOC_FUSION_14_PCREL \<Rightarrow>
         apply_pcrel get_value fx val (- 8192) 8191 ''too large pc relative branch'' GEN_B_IMM
     | BFD_RELOC_FUSION_21_PCREL \<Rightarrow>
         apply_pcrel get_value fx val (- 1048576) 1048576 ''too large pc relative jump'' GEN_J_IMM
     | BFD_RELOC_16_PCREL \<Rightarrow>
         apply_pcrel get_value fx val (- 32768) 32767
           ''too large pc relative load. No loading in a white zone'' GEN_LI_IMM
     | BFD_RELOC_HI16_PCREL \<Rightarrow>
         apply_pcrel get_value fx val (- 32768) 32767
           ''too large pc relative load. No loading in a white zone'' GEN_LI_IMM
     | BFD_RELOC_FUSION_21 \<Rightarrow>
         (if val = 0 then gret ()
          else case fx_addsy fx of
            Some y \<Rightarrow>
              let target = get_value y + val in
              gbind (if target > 0x001fffff then as_bad_where ''too large jump offset'' else gret ()) (\<lambda>_.
              or_word fx (GEN_J_IMM target))
          | None \<Rightarrow> const_fixup n fx val)
     | _ \<Rightarrow> gfail (Fatal ''Unknown reloc code: %d. Please report this to the devs''))))"

subsection \<open>Relocation entries\<close>

text \<open>
  \<open>mem\<close> is what the memory of the new entry contains before it is filled in: a distance out of
  range leaves the address and the addend as they are.
\<close>

definition pcrel_entry :: "fixS \<Rightarrow> fragS \<Rightarrow> int \<Rightarrow> int \<Rightarrow> string \<Rightarrow> (bfd_vma \<Rightarrow> bfd_vma) \<Rightarrow> arelent \<Rightarrow> arelent gas" where
  "pcrel_entry fx fr lo hi msg gen reloc =
     (let delta = fr_address fr + fx_addnumber fx in
      if signed_int delta < lo \<or> signed_int delta > hi then gbind (as_bad_where msg) (\<lambda>_. gret reloc)
      else gret (reloc\<lparr>rel_addend := gen delta, rel_address := fr_address fr + of_nat (fx_where fx)\<rparr>))"

definition tc_gen_reloc :: "(nat \<Rightarrow> asymbol) \<Rightarrow> arelent \<Rightarrow> fixS \<Rightarrow> arelent option gas" where
  "tc_gen_reloc bfdsym mem fx =
     (case fx_addsy fx of
        None \<Rightarrow> gfail Null_pointer
      | Some y \<Rightarrow>
          let reloc = mem\<lparr>rel_sym := bfdsym y\<rparr> in
          gbind (frag_of fx) (\<lambda>fr.
          gbind
            (if fx_r_type fx = BFD_RELOC_FUSION_21_PCREL then
               pcrel_entry fx fr (- 1048576) 1048575 ''too large pc relative jump'' GEN_J_IMM reloc
             else if fx_r_type fx = BFD_RELOC_FUSION_14_PCREL then
               pcrel_entry fx fr (- 8192) 8191 ''too large pc relative branch'' (\<lambda>delta. delta) reloc
             else if fx_r_type fx = BFD_RELOC_FUSION_21 then
               gret (reloc\<lparr>rel_addend := GEN_J_IMM (fx_addnumber fx), rel_address := fr_address fr + of_nat (fx_where fx)\<rparr>)
             else
               gret (reloc\<lparr>rel_address := fr_address fr + of_nat (fx_where fx), rel_addend := fx_addnumber fx\<rparr>)) (\<lambda>reloc.
          gbind (glift (fusion_reloc_type_lookup (fx_r_type fx))) (\<lambda>howto.
          case howto of
            None \<Rightarrow> gbind (as_bad_where ''Cannot represent relocation type %s'') (\<lambda>_. gret None)
          | Some h \<Rightarrow> gret (Some (reloc\<lparr>rel_howto := Some h\<rparr>))))))"

subsection \<open>Specification\<close>

text \<open>The word that a fixup points to, and the state with another word in its place.\<close>

definition insn_place :: "gas_state \<Rightarrow> fixS \<Rightarrow> insn_t \<Rightarrow> bool" where
  "insn_place s fx w \<longleftrightarrow> (\<exists>i < length (gs_frags s). fx_frag fx = Some i \<and>
     fx_where fx + 4 \<le> length (fr_literal (gs_frags s ! i)) \<and>
     take 4 (drop (fx_where fx) (fr_literal (gs_frags s ! i))) = word_bytes w)"

definition put_insn :: "fixS \<Rightarrow> insn_t \<Rightarrow> gas_state \<Rightarrow> gas_state" where
  "put_insn fx w = upd_frag (the (fx_frag fx))
     (\<lambda>fr. fr\<lparr>fr_literal := splice (fr_literal fr) (fx_where fx) (word_bytes w)\<rparr>)"

text \<open>
  The instruction that results when a value is merged into the immediate: the bits of the
  value and the bits that are already there are combined by OR. It depends on the relocation
  and is defined for the formats that have the field.
\<close>

definition fixed_insn :: "bfd_reloc_code \<Rightarrow> bfd_vma \<Rightarrow> insn \<Rightarrow> insn option" where
  "fixed_insn r v i =
     (case i of
        R_insn _ _ _ _ _ \<Rightarrow> None
      | I_insn rd rsa m f \<Rightarrow> if r = BFD_RELOC_FUSION_12 then Some (I_insn rd rsa (m OR ucast v) f) else None
      | L_insn rd rsa f m \<Rightarrow> if r = BFD_RELOC_FUSION_LOAD then Some (L_insn rd rsa f (m OR ucast v)) else None
      | S_insn f rsa rsb m \<Rightarrow> if r = BFD_RELOC_FUSION_STORE then Some (S_insn f rsa rsb (m OR ucast v)) else None
      | LI_insn rd d m \<Rightarrow>
          if r \<in> {BFD_RELOC_16, BFD_RELOC_16_PCREL, BFD_RELOC_HI16_PCREL} then Some (LI_insn rd d (m OR ucast v))
          else if r = BFD_RELOC_FUSION_HI16 then Some (LI_insn rd d (m OR ucast (drop_bit 16 v))) else None
      | SYS_insn rd rsa f m \<Rightarrow> if r = BFD_RELOC_8 then Some (SYS_insn rd rsa f (m OR ucast v)) else None
      | J_insn rsa m \<Rightarrow>
          if r \<in> {BFD_RELOC_FUSION_21, BFD_RELOC_FUSION_21_PCREL} then Some (J_insn rsa (m OR ucast v)) else None
      | JL_insn rsa m \<Rightarrow>
          if r \<in> {BFD_RELOC_FUSION_21, BFD_RELOC_FUSION_21_PCREL} then Some (JL_insn rsa (m OR ucast v)) else None
      | B_insn rsa rsb m f \<Rightarrow> if r = BFD_RELOC_FUSION_14_PCREL then Some (B_insn rsa rsb (m OR ucast v) f) else None)"

definition fix_set :: "nat \<Rightarrow> fixS \<Rightarrow> gas_state \<Rightarrow> gas_state" where
  "fix_set n fx s = s\<lparr>gs_fixes := (gs_fixes s)[n := fx]\<rparr>"

text \<open>The range that the code accepts for a distance and the message when it is exceeded.\<close>

definition pcrel_range :: "bfd_reloc_code \<Rightarrow> int \<times> int \<times> string" where
  "pcrel_range r =
     (if r = BFD_RELOC_FUSION_14_PCREL then (- 8192, 8191, ''too large pc relative branch'')
      else if r = BFD_RELOC_FUSION_21_PCREL then (- 1048576, 1048576, ''too large pc relative jump'')
      else (- 32768, 32767, ''too large pc relative load. No loading in a white zone''))"

text \<open>
  The instruction of a line with a constant operand after its fixup: a load of an upper half
  combines both halves of the constant, every other instruction is the one that was assembled.
\<close>

definition final_insn :: "fusion_opc_info_t \<Rightarrow> nat \<Rightarrow> nat \<Rightarrow> nat \<Rightarrow> offsetT \<Rightarrow> insn" where
  "final_insn mo rd rsa rsb n =
     (if line_reloc mo = BFD_RELOC_FUSION_HI16 then
        LI_insn (of_nat rd) (ucast (opc_index mo)) (ucast n OR ucast (drop_bit 16 n))
      else line_insn mo rd rsa rsb n)"

section \<open>Properties\<close>

subsection \<open>Merging a value into a word\<close>

lemma getb32_word:
  "a + 4 \<le> length p \<Longrightarrow> take 4 (drop a p) = word_bytes w \<Longrightarrow> bfd_getb32 p a = Inr (ucast w)"
  by (simp add: bfd_getb32_def ld_def word_bytes_def Let_def) (simp add: word_bits)

lemma putb32_word:
  assumes "a + 4 \<le> length p"
  shows "bfd_putb32 x p a = Inr (splice p a (word_bytes (ucast x)))"
proof -
  have "(ucast (drop_bit n x AND 255) :: bfd_byte) = ucast (drop_bit n (ucast x :: insn_t))" if "n \<le> 24" for n
    using that by (simp add: ucast_and_ff) (intro bit_word_eqI, auto simp: bit_simps)
  from this [of 24] this [of 16] this [of 8] this [of 0] assms show ?thesis
    by (simp add: bfd_putb32_def st_def word_bytes_def)
qed

lemma or_word_ok:
  assumes "insn_place s fx w"
  shows "or_word fx x s = Inr ((), put_insn fx (w OR ucast x) s)"
proof -
  have "(ucast (x OR ucast w) :: insn_t) = w OR ucast x" by (intro bit_word_eqI) (auto simp: bit_simps)
  with assms show ?thesis
    by (auto simp: insn_place_def or_word_def frag_of_def getb32_word putb32_word put_insn_def upd_frag_def)
qed

lemma insn_place_frag: "insn_place s fx w \<Longrightarrow> \<exists>fr. frag_of fx s = Inr (fr, s)"
  by (auto simp: insn_place_def frag_of_def)

lemma or_imm_fields:
  "encode (I_insn rd rsa m f) OR ucast (GEN_I_IMM (v :: bfd_vma)) = encode (I_insn rd rsa (m OR ucast v) f)"
  "encode (L_insn rd rsa f2 m2) OR ucast (GEN_L_IMM v) = encode (L_insn rd rsa f2 (m2 OR ucast v))"
  "encode (S_insn f3 rsa rsb m3) OR ucast (GEN_S_IMM v) = encode (S_insn f3 rsa rsb (m3 OR ucast v))"
  "encode (LI_insn rd d m4) OR ucast (GET_IMM_LI v) = encode (LI_insn rd d (m4 OR ucast v))"
  "encode (LI_insn rd d m4) OR ucast (GEN_LI_IMM v) = encode (LI_insn rd d (m4 OR ucast v))"
  "encode (SYS_insn rd rsa f5 m5) OR ucast (GEN_SYS_IMM v) = encode (SYS_insn rd rsa f5 (m5 OR ucast v))"
  "encode (J_insn rsa m6) OR ucast (GEN_J_IMM v) = encode (J_insn rsa (m6 OR ucast v))"
  "encode (JL_insn rsa m6) OR ucast (GEN_J_IMM v) = encode (JL_insn rsa (m6 OR ucast v))"
  "encode (B_insn rsa rsb m7 f7) OR ucast (GEN_B_IMM v) = encode (B_insn rsa rsb (m7 OR ucast v) f7)"
  by (simp_all add: isa_defs word_bits)

lemma insn_place_fix [simp]: "insn_place (s\<lparr>gs_fixes := fs\<rparr>) fx w = insn_place s fx w"
  "insn_place (s\<lparr>gs_msgs := ms\<rparr>) fx w = insn_place s fx w"
  by (simp_all add: insn_place_def)

lemma put_insn_fix [simp]: "put_insn fx w (s\<lparr>gs_fixes := fs\<rparr>) = (put_insn fx w s)\<lparr>gs_fixes := fs\<rparr>"
  "put_insn fx w (s\<lparr>gs_msgs := ms\<rparr>) = (put_insn fx w s)\<lparr>gs_msgs := ms\<rparr>"
  "gs_fixes (put_insn fx w s) = gs_fixes s" "gs_msgs (put_insn fx w s) = gs_msgs s"
  by (simp_all add: put_insn_def upd_frag_def)

subsection \<open>Fixups with a constant\<close>

lemma const_reloc_encode:
  assumes "fixed_insn r v i = Some j" "r \<notin> {BFD_RELOC_16_PCREL, BFD_RELOC_HI16_PCREL, BFD_RELOC_FUSION_14_PCREL, BFD_RELOC_FUSION_21_PCREL}"
  obtains w where "fusion_apply_const_reloc r v = Inr w" "encode i OR w = encode j"
  using assms or_imm_fields
  by (cases i) (auto simp: fixed_insn_def fusion_apply_const_reloc_def simp del: encode.simps split: if_splits)

lemma const_fixup_ok:
  assumes "n < length (gs_fixes s)" "insn_place s fx (encode i)" "fixed_insn (fx_r_type fx) v i = Some j"
    and "fx_r_type fx \<notin> {BFD_RELOC_16_PCREL, BFD_RELOC_HI16_PCREL, BFD_RELOC_FUSION_14_PCREL, BFD_RELOC_FUSION_21_PCREL}"
  shows "const_fixup n fx v s = Inr ((), if fx_addsy fx = None
    then fix_set n ((gs_fixes s ! n)\<lparr>fx_done := True\<rparr>) (put_insn fx (encode j) s) else put_insn fx (encode j) s)"
proof -
  obtain w where w: "fusion_apply_const_reloc (fx_r_type fx) v = Inr w" "encode i OR w = encode j"
    using assms(3,4) by (rule const_reloc_encode)
  moreover have "(ucast (ucast w :: bfd_vma) :: insn_t) = w" by (intro bit_word_eqI) (auto simp: bit_simps)
  ultimately show ?thesis
    using assms(1) or_word_ok [OF assms(2), of "ucast w"]
    by (simp add: const_fixup_def upd_fix_def fix_set_def)
qed

lemma apply_fix_const:
  assumes "n < length (gs_fixes s)" "fx = gs_fixes s ! n" "insn_place s fx (encode i)"
    and "fixed_insn (fx_r_type fx) v i = Some j"
    and "fx_r_type fx \<notin> {BFD_RELOC_16_PCREL, BFD_RELOC_HI16_PCREL, BFD_RELOC_FUSION_14_PCREL, BFD_RELOC_FUSION_21_PCREL}"
    and "fx_r_type fx \<noteq> BFD_RELOC_FUSION_21 \<or> fx_addsy fx = None \<and> v \<noteq> 0"
  shows "md_apply_fix get_value n v s = Inr ((),
    fix_set n (fx\<lparr>fx_addnumber := v, fx_done := fx_done fx \<or> fx_addsy fx = None\<rparr>) (put_insn fx (encode j) s))"
proof -
  define s1 where "s1 = fix_set n (fx\<lparr>fx_addnumber := v\<rparr>) s"
  have s1: "n < length (gs_fixes s1)" "insn_place s1 fx (encode i)" "gs_fixes s1 ! n = fx\<lparr>fx_addnumber := v\<rparr>"
    using assms(1-3) by (simp_all add: s1_def fix_set_def)
  have "fx_r_type fx \<in> {BFD_RELOC_FUSION_12, BFD_RELOC_FUSION_LOAD, BFD_RELOC_FUSION_STORE, BFD_RELOC_16,
      BFD_RELOC_FUSION_HI16, BFD_RELOC_8, BFD_RELOC_FUSION_21}"
    using assms(4,5) by (cases i) (auto simp: fixed_insn_def split: if_splits)
  then have "md_apply_fix get_value n v s = const_fixup n fx v s1"
    using assms(1,2,6) insn_place_frag [OF assms(3)]
    by (auto simp: md_apply_fix_def upd_fix_def s1_def fix_set_def)
  also have "\<dots> = Inr ((), fix_set n (fx\<lparr>fx_addnumber := v, fx_done := fx_done fx \<or> fx_addsy fx = None\<rparr>) (put_insn fx (encode j) s))"
    using const_fixup_ok [OF s1(1,2) assms(4,5)] s1(3)
    by (auto simp: s1_def fix_set_def)
  finally show ?thesis .
qed

lemma ucast_minus_down: "(ucast (a - b) :: 12 word) = ucast a - ucast (b :: 64 word)"
proof -
  have "take_bit 12 (uint (a - b)) = take_bit 12 (uint a - uint b)"
    by (simp add: uint_word_arith_bintrs take_bit_take_bit)
  then show ?thesis
    unfolding word_uint_eq_iff unsigned_ucast_eq uint_word_arith_bintrs(2) by (simp add: take_bit_diff take_bit_take_bit)
qed

lemma normalize_low: "(ucast (X_add_number (normalize_constant_expr e)) :: 12 word) = ucast (X_add_number e)"
proof -
  have "(ucast (x AND 0xffffffff XOR 0x80000000) :: 12 word) = ucast (x :: 64 word)" for x by (simp add: word_bits)
  then show ?thesis by (simp add: normalize_constant_expr_def ucast_minus_down)
qed

lemma line_fixed:
  assumes "insn_shape mo" "opc_args mo \<noteq> USE_RDAB" "fx = insn_fix (if opc_opc mo = OPC_IMM then normalize_constant_expr ex else ex) (line_reloc mo)"
    and "X_op ex = O_constant" "line_reloc mo \<notin> {BFD_RELOC_FUSION_14_PCREL, BFD_RELOC_FUSION_21_PCREL}"
  shows "fixed_insn (line_reloc mo) (fx_offset fx) (line_insn mo rd rsa rsb (X_add_number ex)) = Some (final_insn mo rd rsa rsb (X_add_number ex))"
proof -
  have "X_op (normalize_constant_expr ex) = O_constant" using assms(4) by (simp add: normalize_constant_expr_def)
  then have "fx_offset fx = (if opc_opc mo = OPC_IMM then X_add_number (normalize_constant_expr ex) else X_add_number ex)"
    using assms(3,4) by (simp add: insn_fix_def)
  with assms(1,2,5) show ?thesis
    by (auto simp: insn_shape_def fixed_insn_def line_insn_def line_reloc_def final_insn_def normalize_low opc_defs Let_def
       split: if_splits)
qed

lemma emitted_place:
  assumes "emitted w (Some f) s s'"
  obtains fx where "gs_fixes s' = gs_fixes s @ [fx]" "insn_place s' fx w" "fx = place_fix (frag_now s') (fx_where fx) f"
    "\<forall>w'. section_bytes (put_insn fx w' s') = section_bytes s @ word_bytes w'"
proof -
  from assms obtain fs a rs where e: "s' = s\<lparr>gs_frags := fs, gs_rooms := rs,
       gs_fixes := gs_fixes s @ [place_fix (length fs - 1) a f]\<rparr>" "fs \<noteq> []" "a + 4 = length (fr_literal (last fs))"
    "concat (map fr_literal fs) = section_bytes s @ word_bytes w" by (auto simp: emitted_def)
  obtain gs g where fs: "fs = gs @ [g]" using e(2) by (cases fs rule: rev_cases) auto
  have "concat (map fr_literal gs) @ take a (fr_literal g) @ drop a (fr_literal g) = section_bytes s @ word_bytes w"
    using e(4) by (simp add: fs)
  moreover have "length (drop a (fr_literal g)) = length (word_bytes w)" using e(3) by (simp add: fs)
  ultimately have g: "concat (map fr_literal gs) @ take a (fr_literal g) = section_bytes s" "drop a (fr_literal g) = word_bytes w"
    by (metis append_assoc append_eq_append_conv)+
  show ?thesis
  proof (rule that)
    show "insn_place s' (place_fix (length fs - 1) a f) w"
      using e(1,3) g(2) by (auto simp: insn_place_def place_fix_def fs)
    show "\<forall>w'. section_bytes (put_insn (place_fix (length fs - 1) a f) w' s') = section_bytes s @ word_bytes w'"
    proof
      fix w'
      have "splice (fr_literal g) a (word_bytes w') = take a (fr_literal g) @ word_bytes w'"
        using e(3) by (simp add: splice_def fs)
      with g(1) show "section_bytes (put_insn (place_fix (length fs - 1) a f) w' s') = section_bytes s @ word_bytes w'"
        by (simp add: e(1) section_bytes_def put_insn_def upd_frag_def place_fix_def fs)
    qed
  qed (simp_all add: e(1) frag_now_def place_fix_def)
qed

lemma place_fix_fields [simp]:
  "fx_r_type (place_fix i a f) = fx_r_type f" "fx_offset (place_fix i a f) = fx_offset f" "fx_addsy (place_fix i a f) = fx_addsy f"
  "fx_done (place_fix i a f) = fx_done f" "fx_frag (place_fix i a f) = Some i" "fx_where (place_fix i a f) = a"
  by (simp_all add: place_fix_def)

text \<open>
  C15: constant operands. Assembling a line whose immediate is a constant and applying its
  fixup leaves the instruction that the line denotes, without a message and with nothing left
  for the linker, except for the loads of an upper half, whose immediate becomes the lower
  half of the constant combined with the upper half, and for a register jump with the offset
  0, whose fixup is not marked as done.
\<close>

theorem constant_operands_fixed:
  assumes "tables_ready s" "roomy 4 s" "\<not> pending_reloc s" "mo \<in> set operand_insns" "opc_name mo = Some n"
    and "drop p (gs_buf s) = n @ '' '' @ operand_text (opc_args mo) rd rsa rsb x @ NUL # rest"
    and "registers_ok (opc_args mo) rd rsa rsb" "immediate_ok expression mo rsa x rest ex" "opc_args mo \<noteq> USE_RDAB"
    and "X_op ex = O_constant" "line_reloc mo \<notin> {BFD_RELOC_FUSION_14_PCREL, BFD_RELOC_FUSION_21_PCREL}"
  shows "\<exists>s1 s2. md_assemble expression e0 p s = Inr ((), s1) \<and>
    md_apply_fix get_value (length (gs_fixes s)) (fx_offset (last (gs_fixes s1))) s1 = Inr ((), s2) \<and>
    gs_msgs s2 = gs_msgs s \<and> length (gs_fixes s2) = Suc (length (gs_fixes s)) \<and>
    section_bytes s2 = section_bytes s @ word_bytes (encode (final_insn mo rd rsa rsb (X_add_number ex))) \<and>
    (fx_done (last (gs_fixes s2)) \<longleftrightarrow> \<not> (line_reloc mo = BFD_RELOC_FUSION_21 \<and> X_add_number ex = 0))"
proof -
  define f where "f = insn_fix (if opc_opc mo = OPC_IMM then normalize_constant_expr ex else ex) (line_reloc mo)"
  define i where "i = line_insn mo rd rsa rsb (X_add_number ex)"
  define j where "j = final_insn mo rd rsa rsb (X_add_number ex)"
  note mo = operand_insns_facts [OF assms(4)]
  obtain h r s1 where s1: "md_assemble expression e0 p s = Inr ((), s1)"
    "emitted (encode i) (line_fix mo ex) (s\<lparr>op_hash_ctrl := h, expr_end := r\<rparr>) s1"
    unfolding i_def using assms(1-9) by (rule line_emitted)
  have lf: "line_fix mo ex = Some f" using assms(9) by (simp add: line_fix_def f_def)
  obtain fx where fx: "gs_fixes s1 = gs_fixes s @ [fx]" "insn_place s1 fx (encode i)" "fx = place_fix (frag_now s1) (fx_where fx) f"
    "\<forall>w'. section_bytes (put_insn fx w' s1) = section_bytes s @ word_bytes w'"
    using emitted_place [OF s1(2) [unfolded lf]] by (auto simp: section_bytes_def)
  have msgs: "gs_msgs s1 = gs_msgs s" using emitted_fields(2) [OF s1(2)] by simp
  have f: "fx_addsy f = None" "fx_r_type f = line_reloc mo" "\<not> fx_done f"
    "line_reloc mo = BFD_RELOC_FUSION_21 \<Longrightarrow> fx_offset f = X_add_number ex"
    using assms(10) by (auto simp: f_def insn_fix_def normalize_constant_expr_def line_reloc_def Let_def split: if_splits)
  have rl: "line_reloc mo \<notin> {BFD_RELOC_16_PCREL, BFD_RELOC_HI16_PCREL, BFD_RELOC_FUSION_14_PCREL, BFD_RELOC_FUSION_21_PCREL}"
    using assms(11) by (auto simp: line_reloc_def Let_def)
  have fij: "fixed_insn (line_reloc mo) (fx_offset f) i = Some j"
    unfolding i_def j_def by (rule line_fixed [OF mo(3) assms(9) f_def assms(10,11)])
  have fxf: "fx_addsy fx = None" "fx_r_type fx = line_reloc mo" "\<not> fx_done fx" "fx_offset fx = fx_offset f"
    using f by (subst fx(3); simp)+
  let ?n = "length (gs_fixes s)"
  have n: "?n < length (gs_fixes s1)" "fx = gs_fixes s1 ! ?n" "last (gs_fixes s1) = fx" by (simp_all add: fx(1))
  show ?thesis
  proof (cases "line_reloc mo = BFD_RELOC_FUSION_21 \<and> X_add_number ex = 0")
    case True
    then have "md_apply_fix get_value ?n (fx_offset f) s1 = Inr ((), fix_set ?n (fx\<lparr>fx_addnumber := fx_offset f\<rparr>) s1)"
      using n(1) insn_place_frag [OF fx(2)] fxf f(4)
      by (auto simp: md_apply_fix_def n(2) [symmetric] upd_fix_def fix_set_def)
    then show ?thesis
      using s1(1) emitted_fields(1) [OF s1(2)] fx(1) fxf True msgs
      by (auto simp: n(3) fix_set_def section_bytes_def i_def final_insn_def)
  next
    case False
    then have "md_apply_fix get_value ?n (fx_offset f) s1 = Inr ((),
        fix_set ?n (fx\<lparr>fx_addnumber := fx_offset f, fx_done := True\<rparr>) (put_insn fx (encode j) s1))"
      using apply_fix_const [OF n(1,2) fx(2), of "fx_offset f" j get_value] fij fxf f(4) rl by auto
    then show ?thesis
      using s1(1) fx(1,4) fxf False msgs by (auto simp: n(3) fix_set_def j_def section_bytes_def)
  qed
qed

theorem constant_operands_fixed_witness:
  "\<exists>s s1 s2. md_begin True (start_state (''lui sp,$'' @ [NUL])) = Inr ((), s) \<and>
    md_assemble (\<lambda>s. Inr (no_expr\<lparr>X_op := O_constant, X_add_number := 0x20001\<rparr>, s)) no_expr 0 s = Inr ((), s1) \<and>
    md_apply_fix (\<lambda>_. 0) 0 (fx_offset (last (gs_fixes s1))) s1 = Inr ((), s2) \<and>
    section_bytes s2 = word_bytes (encode (LI_insn 1 4 3))"
proof -
  let ?ex = "no_expr\<lparr>X_op := O_constant, X_add_number := 0x20001\<rparr>"
  define mo where "mo = opc_info ''lui'' 0x4 USE_RDI FRMT_LI CPID_MAIN MASK_IMM_LI OPC_LI"
  obtain s where s: "md_begin True (start_state (''lui sp,$'' @ [NUL])) = Inr ((), s)" "tables_ready s"
    "gs_buf s = ''lui sp,$'' @ [NUL]" "\<forall>n \<le> 64. roomy n s" "\<not> pending_reloc s" "section_bytes s = []" "gs_fixes s = []"
    by (rule start_ready)
  have mo: "mo \<in> set operand_insns" "opc_name mo = Some ''lui''" "opc_args mo = USE_RDI" "opc_opc mo = OPC_LI" "opc_index mo = 4"
    by (simp_all add: mo_def operand_insns_def named_insns_def fusion_insn_all_def opc_info_def opc_info_zero_def isa_defs)
  have rl: "line_reloc mo = BFD_RELOC_FUSION_HI16" by (simp add: line_reloc_def mo opc_defs)
  have "drop 0 (gs_buf s) = ''lui'' @ '' '' @ operand_text (opc_args mo) 1 0 0 ''$'' @ NUL # []"
    by (simp add: s(3) mo(3) operand_text_def fusion_gpreg_name_def isa_defs)
  moreover have "registers_ok (opc_args mo) 1 0 0" by (simp add: mo(3) registers_ok_def unused_zero_def isa_defs)
  moreover have "immediate_ok (\<lambda>s. Inr (?ex, s)) mo 0 ''$'' [] ?ex"
    by (auto simp: immediate_ok_def starts_operand_def blank_def simple_expr_def reads_def NUL_def)
  moreover have "final_insn mo 1 0 0 0x20001 = LI_insn 1 4 3" by (simp add: final_insn_def rl mo)
  ultimately show ?thesis
    using s constant_operands_fixed [OF s(2) _ s(5) mo(1,2), of 0 1 0 0 "''$''" "[]" "\<lambda>s. Inr (?ex, s)" ?ex no_expr "\<lambda>_. 0"]
    by (fastforce simp: rl mo(3) isa_defs)
qed

subsection \<open>Fixups relative to the place\<close>

lemma apply_pcrel_ok:
  assumes "insn_place s fx w" "fx_addsy fx = Some y" "v \<noteq> 0"
    and "md_pcrel_from fx s = Inr (from, s)" "delta = get_value y + v - from"
  shows "apply_pcrel get_value fx v lo hi msg gen s = Inr ((), put_insn fx (w OR ucast (gen delta)) s
    \<lparr>gs_msgs := gs_msgs s @ (if lo \<le> signed_int delta \<and> signed_int delta \<le> hi then [] else [As_bad msg])\<rparr>)"
  using assms or_word_ok [OF assms(1)] or_word_ok [of "s\<lparr>gs_msgs := gs_msgs s @ [As_bad msg]\<rparr>" fx w]
  by (auto simp: apply_pcrel_def as_bad_where_def Let_def)

lemma apply_fix_pcrel:
  assumes "n < length (gs_fixes s)" "fx = gs_fixes s ! n" "insn_place s fx (encode i)"
    and "fixed_insn (fx_r_type fx) delta i = Some j" "fx_addsy fx = Some y" "v \<noteq> 0"
    and "fx_r_type fx \<in> {BFD_RELOC_16_PCREL, BFD_RELOC_HI16_PCREL, BFD_RELOC_FUSION_14_PCREL, BFD_RELOC_FUSION_21_PCREL}"
    and "md_pcrel_from fx s = Inr (from, s)" "delta = get_value y + v - from"
    and "pcrel_range (fx_r_type fx) = (lo, hi, msg)"
  shows "md_apply_fix get_value n v s = Inr ((), (fix_set n (fx\<lparr>fx_addnumber := v\<rparr>) (put_insn fx (encode j) s))
    \<lparr>gs_msgs := gs_msgs s @ (if lo \<le> signed_int delta \<and> signed_int delta \<le> hi then [] else [As_bad msg])\<rparr>)"
proof -
  define s1 where "s1 = fix_set n (fx\<lparr>fx_addnumber := v\<rparr>) s"
  obtain fr where fr: "frag_of fx s = Inr (fr, s)" using insn_place_frag [OF assms(3)] by blast
  have s1: "insn_place s1 fx (encode i)" "md_pcrel_from fx s1 = Inr (from, s1)" "gs_msgs s1 = gs_msgs s"
    using assms(3,8) fr by (auto simp: s1_def fix_set_def md_pcrel_from_def frag_of_def rbind_Inr_iff split: option.splits)
  obtain gen where gen: "md_apply_fix get_value n v s = apply_pcrel get_value fx v lo hi msg gen s1"
    "encode i OR ucast (gen delta) = encode j"
    using assms(1,2,4,7,10) fr or_imm_fields
    by (cases i) (auto simp: md_apply_fix_def upd_fix_def s1_def fix_set_def fixed_insn_def pcrel_range_def
      simp del: encode.simps split: if_splits)
  have "apply_pcrel get_value fx v lo hi msg gen s1 = Inr ((), put_insn fx (encode i OR ucast (gen delta)) s1
    \<lparr>gs_msgs := gs_msgs s1 @ (if lo \<le> signed_int delta \<and> signed_int delta \<le> hi then [] else [As_bad msg])\<rparr>)"
    by (rule apply_pcrel_ok [of s1 fx "encode i" y v "from" delta get_value lo hi msg gen]) (fact s1 assms(5,6,9))+
  then show ?thesis by (simp add: gen s1(3)) (simp add: s1_def fix_set_def)
qed

lemma insn_place_put:
  assumes "insn_place s fx w"
  shows "insn_place (put_insn fx w' s) fx w'"
proof -
  obtain i where i: "i < length (gs_frags s)" "fx_frag fx = Some i" "fx_where fx + 4 \<le> length (fr_literal (gs_frags s ! i))"
    using assms by (auto simp: insn_place_def)
  have "take 4 (drop a (splice p a (word_bytes w'))) = word_bytes w'" if "a + 4 \<le> length p" for a and p :: bytes
    using that by (simp add: splice_def)
  with i show ?thesis by (auto simp: insn_place_def put_insn_def upd_frag_def)
qed

lemma signed_int_bits: "signed_int v = signed_take_bit 31 (uint v)"
  by (simp add: signed_int_def sint_uint unsigned_ucast_eq signed_take_bit_take_bit)

lemma signed_field:
  "k < 31 \<Longrightarrow> - (2 ^ k) \<le> signed_int v \<and> signed_int v < 2 ^ k \<longleftrightarrow> signed_take_bit k (uint v) = signed_int v"
  using signed_take_bit_int_eq_self_iff [of k "signed_int v"]
  by (simp add: signed_int_bits signed_take_bit_signed_take_bit)

lemma branch_field: "sint (ucast v :: 14 word) = signed_take_bit 13 (uint (v :: bfd_vma))"
  "sint (ucast v :: 21 word) = signed_take_bit 20 (uint (v :: bfd_vma))"
  by (simp_all add: sint_uint unsigned_ucast_eq signed_take_bit_take_bit)

text \<open>A fixup with the value zero is passed over.\<close>

lemma apply_pcrel_zero:
  assumes "n < length (gs_fixes s)" "fx = gs_fixes s ! n" "insn_place s fx w"
    and "fx_r_type fx \<in> {BFD_RELOC_FUSION_14_PCREL, BFD_RELOC_FUSION_21_PCREL}"
  shows "md_apply_fix get_value n 0 s = Inr ((), fix_set n (fx\<lparr>fx_addnumber := 0\<rparr>) s)"
  using assms(1,2,4) insn_place_frag [OF assms(3)]
  by (auto simp: md_apply_fix_def upd_fix_def fix_set_def apply_pcrel_def)

text \<open>
  C16: branches and jumps to a symbol. When the value of the fixup is zero, nothing is stored
  and nothing reported, whatever the distance is. Otherwise the fixup puts the low bits of the distance into the
  immediate, which was zero. For a branch there is then no error message exactly when the immediate
  read as a signed number is the distance; for a jump, linking or not, also the distance 1048576 passes, which
  the immediate of 21 bits cannot represent.
\<close>

theorem pcrel_fixups:
  assumes "n < length (gs_fixes s)" "fx = gs_fixes s ! n" "insn_place s fx (encode i)" "fx_addsy fx = Some y"
    and "md_pcrel_from fx s = Inr (from, s)" "delta = get_value y + v - from"
    and "fx_r_type fx = BFD_RELOC_FUSION_14_PCREL \<and> i = B_insn rsa rsb 0 f \<and> j = B_insn rsa rsb d14 f \<and> d14 = ucast delta \<or>
      fx_r_type fx = BFD_RELOC_FUSION_21_PCREL \<and> (i, j) \<in> {(J_insn rsa 0, J_insn rsa d21), (JL_insn rsa 0, JL_insn rsa d21)} \<and> d21 = ucast delta"
  shows "\<exists>s'. md_apply_fix get_value n v s = Inr ((), s') \<and> insn_place s' fx (encode (if v = 0 then i else j)) \<and>
    (v = 0 \<longrightarrow> gs_msgs s' = gs_msgs s) \<and>
    (v \<noteq> 0 \<and> fx_r_type fx = BFD_RELOC_FUSION_14_PCREL \<longrightarrow> (gs_msgs s' = gs_msgs s \<longleftrightarrow> sint d14 = signed_int delta)) \<and>
    (v \<noteq> 0 \<and> fx_r_type fx = BFD_RELOC_FUSION_21_PCREL \<longrightarrow>
      (gs_msgs s' = gs_msgs s \<longleftrightarrow> sint d21 = signed_int delta \<or> signed_int delta = 1048576))"
proof (cases "v = 0")
  case True
  have r: "fx_r_type fx \<in> {BFD_RELOC_FUSION_14_PCREL, BFD_RELOC_FUSION_21_PCREL}" using assms(7) by auto
  have "insn_place (fix_set n (fx\<lparr>fx_addnumber := 0\<rparr>) s) fx (encode i)" "gs_msgs (fix_set n (fx\<lparr>fx_addnumber := 0\<rparr>) s) = gs_msgs s"
    using assms(3) by (simp_all add: fix_set_def insn_place_def del: encode.simps)
  with True apply_pcrel_zero [OF assms(1-3) r, of get_value] show ?thesis by (simp del: encode.simps)
next
  case False
  obtain lo hi msg where r: "pcrel_range (fx_r_type fx) = (lo, hi, msg)" by (cases "pcrel_range (fx_r_type fx)")
  have "fixed_insn (fx_r_type fx) delta i = Some j" "fx_r_type fx \<in> {BFD_RELOC_16_PCREL, BFD_RELOC_HI16_PCREL,
      BFD_RELOC_FUSION_14_PCREL, BFD_RELOC_FUSION_21_PCREL}"
    using assms(7) by (auto simp: fixed_insn_def)
  from apply_fix_pcrel [where get_value = get_value, OF assms(1-3) this(1) assms(4) False this(2) assms(5,6) r] show ?thesis
    using insn_place_put [OF assms(3), of "encode j"] r signed_field [of 13 delta] signed_field [of 20 delta] assms(7) False
    by (auto simp: fix_set_def pcrel_range_def branch_field)
qed

theorem pcrel_fixups_witness:
  "\<exists>s s'. s = (start_state [])\<lparr>gs_frags := [empty_frag\<lparr>fr_literal := word_bytes (encode (J_insn 0 0))\<rparr>],
      gs_fixes := [place_fix 0 0 (insn_fix (no_expr\<lparr>X_op := O_symbol, X_add_symbol := Some 0\<rparr>) BFD_RELOC_FUSION_21_PCREL)]\<rparr> \<and>
    md_apply_fix (\<lambda>_. 0) 0 1048576 s = Inr ((), s') \<and> gs_msgs s' = [] \<and>
    insn_place s' (gs_fixes s ! 0) (encode (J_insn 0 0x100000)) \<and> sint (0x100000 :: 21 word) = - 1048576"
proof -
  define fx where "fx = place_fix 0 0 (insn_fix (no_expr\<lparr>X_op := O_symbol, X_add_symbol := Some 0\<rparr>) BFD_RELOC_FUSION_21_PCREL)"
  define s where "s = (start_state [])\<lparr>gs_frags := [empty_frag\<lparr>fr_literal := word_bytes (encode (J_insn 0 0))\<rparr>], gs_fixes := [fx]\<rparr>"
  have fx: "fx_frag fx = Some 0" "fx_where fx = 0" "fx_addsy fx = Some 0" "fx_r_type fx = BFD_RELOC_FUSION_21_PCREL"
    by (simp_all add: fx_def insn_fix_def)
  have "insn_place s fx (encode (J_insn 0 0))" by (simp add: insn_place_def s_def fx del: encode.simps)
  moreover have "md_pcrel_from fx s = Inr (0, s)" by (simp add: md_pcrel_from_def frag_of_def s_def fx empty_frag_def)
  moreover have "signed_int 1048576 = 1048576" by (simp add: signed_int_def)
  moreover have "gs_fixes s ! 0 = fx" "gs_msgs s = []" "0 < length (gs_fixes s)" by (simp_all add: s_def start_state_def)
  ultimately obtain s' where "md_apply_fix (\<lambda>_. 0) 0 1048576 s = Inr ((), s')" "insn_place s' fx (encode (J_insn 0 0x100000))"
    "gs_msgs s' = []"
    using pcrel_fixups [of 0 s fx "J_insn 0 0" 0 0 1048576 "\<lambda>_. 0" 1048576 0 0 0 "J_insn 0 0x100000" 0 "0x100000"]
    by (simp add: fx del: encode.simps) blast
  then show ?thesis
    using \<open>gs_fixes s ! 0 = fx\<close> by (intro exI [of _ s] exI [of _ s']) (simp add: s_def fx_def del: encode.simps)
qed

end
