(* ===== verification/Gas_Write.thy ===== *)
theory Gas_Write
  imports Tc_Fix
begin

text \<open>
  The passes of \<^verbatim>\<open>gas/write.c\<close> over the fixups of a section when the object file is written:
  \<open>adjust_reloc_syms\<close> replaces local symbols by the symbol of their section, \<open>fixup_segment\<close>
  computes the value of every fixup and has the port apply it, \<open>write_relocs\<close> turns the fixups
  that are left into relocation entries. The macros with which a port can change these passes
  have their default values: the Fusion-Core port sets none of them.

  What the passes read of the symbol table, where every symbol is resolved, is the record
  \<open>symtab\<close>; a symbol is a number. Relocations from \<open>.reloc\<close> directives are not
  modelled.
\<close>

subsection \<open>Symbols\<close>

text \<open>
  \<open>sy_equated\<close> is \<open>symbol_equated_reloc_p\<close> or a weak reference, \<open>sy_value\<close> the symbol and the
  number of the value expression, \<open>sy_count\<close> the number of symbols, \<open>seg_link_once\<close> that a section is
  marked or named as one to be linked once.
\<close>

record symtab =
  S_GET_VALUE :: "nat \<Rightarrow> bfd_vma"
  S_GET_SEGMENT :: "nat \<Rightarrow> sym_segment"
  sy_local :: "nat \<Rightarrow> bool"
  sy_weak :: "nat \<Rightarrow> bool"
  sy_global :: "nat \<Rightarrow> bool"
  sy_ifunc :: "nat \<Rightarrow> bool"
  S_IS_LOCAL :: "nat \<Rightarrow> bool"
  symbol_section_p :: "nat \<Rightarrow> bool"
  symbol_mri_common_p :: "nat \<Rightarrow> bool"
  sy_equated :: "nat \<Rightarrow> bool"
  sy_value :: "nat \<Rightarrow> nat \<times> offsetT"
  sy_count :: nat
  section_symbol :: "sym_segment \<Rightarrow> nat"
  seg_link_once :: "sym_segment \<Rightarrow> bool"
  seg_merge :: "sym_segment \<Rightarrow> bool"
  seg_thread_local :: "sym_segment \<Rightarrow> bool"
  symbol_get_bfdsym :: "nat \<Rightarrow> asymbol"

definition S_FORCE_RELOC :: "symtab \<Rightarrow> nat \<Rightarrow> bool \<Rightarrow> bool" where
  "S_FORCE_RELOC tab y strict \<longleftrightarrow>
     \<not> sy_local tab y \<and> (strict \<and> (sy_weak tab y \<or> sy_global tab y) \<or> sy_ifunc tab y) \<or>
     S_GET_SEGMENT tab y = undefined_section \<or> S_GET_SEGMENT tab y = com_section"

definition generic_force_reloc :: "symtab \<Rightarrow> fixS \<Rightarrow> bool" where
  "generic_force_reloc tab fx \<longleftrightarrow>
     (if fx_r_type fx = BFD_RELOC_VTABLE_INHERIT \<or> fx_r_type fx = BFD_RELOC_VTABLE_ENTRY then True
      else case fx_addsy fx of None \<Rightarrow> False | Some y \<Rightarrow> S_FORCE_RELOC tab y (fx_subsy fx = None))"

definition TC_FORCE_RELOCATION_LOCAL :: "symtab \<Rightarrow> fixS \<Rightarrow> bool" where
  "TC_FORCE_RELOCATION_LOCAL tab fx \<longleftrightarrow> \<not> fx_pcrel fx \<or> generic_force_reloc tab fx"

definition SEG_NORMAL :: "sym_segment \<Rightarrow> bool" where
  "SEG_NORMAL seg \<longleftrightarrow> seg \<notin> {absolute_section, undefined_section, reg_section, expr_section}"

definition TC_VALIDATE_FIX_SUB :: "fixS \<Rightarrow> bool" where
  "TC_VALIDATE_FIX_SUB fx \<longleftrightarrow> fx_r_type fx = BFD_RELOC_GPREL32 \<or> fx_r_type fx = BFD_RELOC_GPREL16"

definition symbol_mark_used_in_reloc :: "nat \<Rightarrow> unit gas" where
  "symbol_mark_used_in_reloc y = (\<lambda>s. Inr ((), s\<lparr>gs_used := insert y (gs_used s)\<rparr>))"

subsection \<open>Section symbols for local symbols\<close>

text \<open>
  The chain of equated symbols. Each symbol of a chain that ends is met once, so that the
  number of symbols is enough fuel; a circle never ends.
\<close>

fun follow_equated :: "symtab \<Rightarrow> nat \<Rightarrow> nat \<Rightarrow> fixS \<Rightarrow> (nat \<times> fixS) result" where
  "follow_equated tab fuel y fx =
     (if \<not> sy_equated tab y then Inr (y, fx)
      else
        let (newsym, num) = sy_value tab y in
        if y = newsym then Inr (y, fx)
        else case fuel of
          0 \<Rightarrow> Inl No_return
        | Suc fuel \<Rightarrow> follow_equated tab fuel newsym (fx\<lparr>fx_offset := fx_offset fx + num, fx_addsy := Some newsym\<rparr>))"

declare follow_equated.simps [simp del]

definition adjust_fix :: "symtab \<Rightarrow> sym_segment \<Rightarrow> fixS \<Rightarrow> fixS result" where
  "adjust_fix tab sec fx =
     (if fx_done fx then Inr fx
      else case fx_addsy fx of
        None \<Rightarrow> Inr fx
      | Some y \<Rightarrow>
          rbind (follow_equated tab (sy_count tab) y fx) (\<lambda>(y, fx).
          if symbol_mri_common_p tab y then
            Inr (fx\<lparr>fx_offset := fx_offset fx + S_GET_VALUE tab y, fx_addsy := Some (fst (sy_value tab y))\<rparr>)
          else if S_FORCE_RELOC tab y True then Inr fx
          else if symbol_section_p tab y then Inr fx
          else
            let symsec = S_GET_SEGMENT tab y in
            if symsec = absolute_section \<or> symsec = reg_section then Inr fx
            else if symsec \<noteq> sec \<and> \<not> S_IS_LOCAL tab y \<and> seg_link_once tab symsec then Inr fx
            else if seg_merge tab symsec \<and> (fx_offset fx \<noteq> 0 \<or> fx_subsy fx \<noteq> None) then Inr fx
            else if seg_thread_local tab symsec then Inr fx
            else Inr (fx\<lparr>fx_offset := fx_offset fx + S_GET_VALUE tab y, fx_addsy := Some (section_symbol tab symsec)\<rparr>)))"

fun adjust_loop :: "symtab \<Rightarrow> sym_segment \<Rightarrow> fixS list \<Rightarrow> fixS list result" where
  "adjust_loop tab sec [] = Inr []"
| "adjust_loop tab sec (fx # fixes) =
     rbind (adjust_fix tab sec fx) (\<lambda>fx. rbind (adjust_loop tab sec fixes) (\<lambda>fixes. Inr (fx # fixes)))"

definition adjust_reloc_syms :: "symtab \<Rightarrow> sym_segment \<Rightarrow> unit gas" where
  "adjust_reloc_syms tab sec = (\<lambda>s. rbind (adjust_loop tab sec (gs_fixes s)) (\<lambda>fixes. Inr ((), s\<lparr>gs_fixes := fixes\<rparr>)))"

subsection \<open>Applying the fixups of a section\<close>

text \<open>The part of the loop body for a symbol to subtract.\<close>

definition fixup_sub :: "symtab \<Rightarrow> fixS \<Rightarrow> bfd_vma \<Rightarrow> (fixS \<times> bfd_vma) gas" where
  "fixup_sub tab fx add_number =
     (case fx_subsy fx of
        None \<Rightarrow> gret (fx, add_number)
      | Some sub \<Rightarrow>
          if (case fx_addsy fx of None \<Rightarrow> False
              | Some y \<Rightarrow> S_GET_SEGMENT tab sub = S_GET_SEGMENT tab y \<and> \<not> S_FORCE_RELOC tab y False \<and>
                  \<not> S_FORCE_RELOC tab sub False \<and> SEG_NORMAL (S_GET_SEGMENT tab y)) then
            let add_number = add_number + S_GET_VALUE tab (the (fx_addsy fx)) - S_GET_VALUE tab sub
            in gret (fx\<lparr>fx_offset := add_number, fx_addsy := None, fx_subsy := None\<rparr>, add_number)
          else if S_GET_SEGMENT tab sub = absolute_section \<and> \<not> S_FORCE_RELOC tab sub False then
            let add_number = add_number - S_GET_VALUE tab sub
            in gret (fx\<lparr>fx_offset := add_number, fx_subsy := None\<rparr>, add_number)
          else if \<not> TC_VALIDATE_FIX_SUB fx then
            gbind (as_bad_where ''can't resolve `%s' {%s section} - `%s' {%s section}'') (\<lambda>_. gret (fx, add_number))
          else if S_GET_SEGMENT tab sub \<noteq> undefined_section \<and> S_GET_SEGMENT tab sub \<noteq> com_section then
            gret (fx, add_number - S_GET_VALUE tab sub)
          else gret (fx, add_number))"

text \<open>The part for the symbol to add.\<close>

definition fixup_add :: "symtab \<Rightarrow> sym_segment \<Rightarrow> fixS \<Rightarrow> bfd_vma \<Rightarrow> (fixS \<times> bfd_vma) gas" where
  "fixup_add tab this_segment fx add_number =
     (case fx_addsy fx of
        None \<Rightarrow> gret (fx, add_number)
      | Some y \<Rightarrow>
          let seg = S_GET_SEGMENT tab y in
          if seg = this_segment \<and> \<not> S_FORCE_RELOC tab y False \<and> \<not> TC_FORCE_RELOCATION_LOCAL tab fx then
            let add_number = add_number + S_GET_VALUE tab y; fx = fx\<lparr>fx_offset := add_number\<rparr> in
            gbind (if fx_pcrel fx then gbind (md_pcrel_from fx) (\<lambda>from. gret (add_number - from)) else gret add_number)
              (\<lambda>add_number. gret (fx\<lparr>fx_addsy := None, fx_pcrel := False\<rparr>, add_number))
          else if seg = absolute_section \<and> \<not> S_FORCE_RELOC tab y False \<and> \<not> generic_force_reloc tab fx then
            let add_number = add_number + S_GET_VALUE tab y
            in gret (fx\<lparr>fx_offset := add_number, fx_addsy := None\<rparr>, add_number)
          else if seg \<noteq> undefined_section \<and> seg \<noteq> com_section then gret (fx, add_number + S_GET_VALUE tab y)
          else gret (fx, add_number))"

definition fixup_pcrel :: "nat \<Rightarrow> fixS \<Rightarrow> bfd_vma \<Rightarrow> (fixS \<times> bfd_vma) gas" where
  "fixup_pcrel abs_section_sym fx add_number =
     (if fx_pcrel fx then
        gbind (md_pcrel_from fx) (\<lambda>from.
        gret (if \<not> fx_done fx \<and> fx_addsy fx = None then fx\<lparr>fx_addsy := Some abs_section_sym\<rparr> else fx, add_number - from))
      else gret (fx, add_number))"

definition field_too_small :: "fixS \<Rightarrow> bfd_vma \<Rightarrow> bool" where
  "field_too_small fx add_number \<longleftrightarrow>
     \<not> fx_no_overflow fx \<and> fx_size fx \<noteq> 0 \<and> fx_size fx < 8 \<and>
     (let mask = push_bit (fx_size fx * 8 - (if fx_signed fx then 1 else 0)) (- 1) in
      add_number AND mask \<noteq> 0 \<and> add_number AND mask \<noteq> mask)"

definition get_fix :: "nat \<Rightarrow> fixS gas" where
  "get_fix n = (\<lambda>s. rbind (rd8 (gs_fixes s) n) (\<lambda>fx. Inr (fx, s)))"

text \<open>The fixup that is left gets a symbol, and its symbols are marked as used.\<close>

definition fixup_left :: "nat \<Rightarrow> nat \<Rightarrow> unit gas" where
  "fixup_left abs_section_sym n =
     gbind (get_fix n) (\<lambda>fx.
     if fx_done fx then gret ()
     else
       let y = (case fx_addsy fx of None \<Rightarrow> abs_section_sym | Some y \<Rightarrow> y) in
       gbind (upd_fix n (\<lambda>fx. fx\<lparr>fx_addsy := Some y\<rparr>)) (\<lambda>_.
       gbind (symbol_mark_used_in_reloc y) (\<lambda>_.
       case fx_subsy fx of None \<Rightarrow> gret () | Some y \<Rightarrow> symbol_mark_used_in_reloc y)))"

definition fixup_step :: "symtab \<Rightarrow> nat \<Rightarrow> sym_segment \<Rightarrow> nat \<Rightarrow> unit gas" where
  "fixup_step tab abs_section_sym this_segment n =
     gbind (get_fix n) (\<lambda>fx.
     gbind (fixup_sub tab fx (fx_offset fx)) (\<lambda>(fx, add_number).
     gbind (fixup_add tab this_segment fx add_number) (\<lambda>(fx, add_number).
     gbind (fixup_pcrel abs_section_sym fx add_number) (\<lambda>(fx, add_number).
     gbind (upd_fix n (\<lambda>_. fx)) (\<lambda>_.
     gbind (if fx_done fx then gret () else md_apply_fix (S_GET_VALUE tab) n add_number) (\<lambda>_.
     gbind (fixup_left abs_section_sym n) (\<lambda>_.
     if field_too_small fx add_number
     then as_bad_where ''value of %s too large for field of %d bytes at %s'' else gret ())))))))"

fun fixup_loop :: "symtab \<Rightarrow> nat \<Rightarrow> sym_segment \<Rightarrow> nat list \<Rightarrow> unit gas" where
  "fixup_loop tab abs_section_sym this_segment [] = gret ()"
| "fixup_loop tab abs_section_sym this_segment (n # ns) =
     gbind (fixup_step tab abs_section_sym this_segment n) (\<lambda>_. fixup_loop tab abs_section_sym this_segment ns)"

text \<open>
  When the linker relaxes (\<open>linkrelax\<close>, which the port never sets) every fixup is left to it.
\<close>

fun relax_loop :: "nat \<Rightarrow> nat list \<Rightarrow> unit gas" where
  "relax_loop abs_section_sym [] = gret ()"
| "relax_loop abs_section_sym (n # ns) =
     gbind (fixup_left abs_section_sym n) (\<lambda>_. relax_loop abs_section_sym ns)"

definition fixup_segment :: "symtab \<Rightarrow> bool \<Rightarrow> sym_segment \<Rightarrow> unit gas" where
  "fixup_segment tab linkrelax this_segment = (\<lambda>s.
     let abs_section_sym = section_symbol tab absolute_section; ns = [0 ..< length (gs_fixes s)] in
     if linkrelax then relax_loop abs_section_sym ns s
     else fixup_loop tab abs_section_sym this_segment ns s)"

subsection \<open>Relocation entries of a section\<close>

text \<open>
  \<open>install_reloc\<close> is given the section as BFD sees it. It changes the fragment and, through the
  pointer, the entry.
\<close>

definition install_reloc :: "bfd_t \<Rightarrow> asection \<Rightarrow> arelent \<Rightarrow> fixS \<Rightarrow> arelent gas" where
  "install_reloc abfd sec reloc fx =
     (let y = rel_sym reloc in
      gbind (if \<not> sym_keep y \<and> (\<not> sym_section_sym y \<or> sec_kind (sym_section y) \<noteq> Sec_abs)
             then as_bad_where ''redefined symbol cannot be used on reloc'' else gret ()) (\<lambda>_.
      gbind (frag_of fx) (\<lambda>fr.
      gbind (glift (bfd_install_relocation abfd reloc (fr_literal fr) (fr_address fr) sec)) (\<lambda>(r, reloc, lit).
      gbind (\<lambda>s. Inr ((), upd_frag (the (fx_frag fx)) (\<lambda>fr. fr\<lparr>fr_literal := lit\<rparr>) s)) (\<lambda>_.
      case r of
        bfd_reloc_ok \<Rightarrow> gret reloc
      | bfd_reloc_overflow \<Rightarrow> gbind (as_bad_where ''relocation overflow'') (\<lambda>_. gret reloc)
      | bfd_reloc_outofrange \<Rightarrow> gbind (as_bad_where ''relocation out of range'') (\<lambda>_. gret reloc)
      | _ \<Rightarrow> gfail (Fatal ''%s:%u: bad return from bfd_install_relocation: %x''))))))"

definition write_reloc :: "symtab \<Rightarrow> bfd_t \<Rightarrow> asection \<Rightarrow> arelent \<Rightarrow> fixS \<Rightarrow> arelent list gas" where
  "write_reloc tab abfd sec mem fx =
     (if fx_done fx then gret []
      else
        gbind (frag_of fx) (\<lambda>fr.
        gbind (if fx_where fx + fx_size fx > fr_fix fr
               then as_bad_where ''internal error: fixup not contained within frag'' else gret ()) (\<lambda>_.
        gbind (tc_gen_reloc (symbol_get_bfdsym tab) mem fx) (\<lambda>r.
        case r of None \<Rightarrow> gret []
        | Some reloc \<Rightarrow> gbind (install_reloc abfd sec reloc fx) (\<lambda>reloc. gret [reloc])))))"

fun write_relocs_loop :: "symtab \<Rightarrow> bfd_t \<Rightarrow> asection \<Rightarrow> arelent \<Rightarrow> fixS list \<Rightarrow> arelent list gas" where
  "write_relocs_loop tab abfd sec mem [] = gret []"
| "write_relocs_loop tab abfd sec mem (fx # fixes) =
     gbind (write_reloc tab abfd sec mem fx) (\<lambda>r.
     gbind (write_relocs_loop tab abfd sec mem fixes) (\<lambda>rs. gret (r @ rs)))"

definition write_relocs :: "symtab \<Rightarrow> bfd_t \<Rightarrow> asection \<Rightarrow> arelent \<Rightarrow> arelent list gas" where
  "write_relocs tab abfd sec mem = (\<lambda>s. write_relocs_loop tab abfd sec mem (gs_fixes s) s)"

subsection \<open>Specification\<close>

definition pcrel_relocs :: "bfd_reloc_code set" where
  "pcrel_relocs = {BFD_RELOC_16_PCREL, BFD_RELOC_HI16_PCREL, BFD_RELOC_FUSION_14_PCREL, BFD_RELOC_FUSION_21_PCREL}"

definition symbol_add :: "symtab \<Rightarrow> fixS \<Rightarrow> nat \<Rightarrow> bfd_vma" where
  "symbol_add tab fx y = fx_offset fx +
     (if S_GET_SEGMENT tab y \<in> {undefined_section, com_section} then 0 else S_GET_VALUE tab y)"

definition plain_fix :: "fixS \<Rightarrow> nat \<Rightarrow> bool" where
  "plain_fix fx y \<longleftrightarrow> fx_addsy fx = Some y \<and> fx_subsy fx = None \<and> \<not> fx_pcrel fx \<and> \<not> fx_done fx"

text \<open>The addend of the entry made from a fixup.\<close>

definition entry_addend :: "bfd_reloc_code \<Rightarrow> bfd_vma \<Rightarrow> bfd_vma \<Rightarrow> bfd_vma" where
  "entry_addend r fr_addr add =
     (if r = BFD_RELOC_FUSION_21_PCREL then GEN_J_IMM (fr_addr + add)
      else if r = BFD_RELOC_FUSION_14_PCREL then fr_addr + add
      else if r = BFD_RELOC_FUSION_21 then GEN_J_IMM add
      else add)"

definition entry_in_range :: "bfd_reloc_code \<Rightarrow> bfd_vma \<Rightarrow> bfd_vma \<Rightarrow> bool" where
  "entry_in_range r fr_addr add \<longleftrightarrow>
     (r = BFD_RELOC_FUSION_21_PCREL \<longrightarrow> - 1048576 \<le> signed_int (fr_addr + add) \<and> signed_int (fr_addr + add) \<le> 1048575) \<and>
     (r = BFD_RELOC_FUSION_14_PCREL \<longrightarrow> - 8192 \<le> signed_int (fr_addr + add) \<and> signed_int (fr_addr + add) \<le> 8191)"

text \<open>
  A label of the section that the assembler replaces by the symbol of the section, and the
  section as the assembler sees it: at address 0.
\<close>

definition local_label :: "symtab \<Rightarrow> sym_segment \<Rightarrow> nat \<Rightarrow> bool" where
  "local_label tab seg y \<longleftrightarrow>
     S_GET_SEGMENT tab y = seg \<and> SEG_NORMAL seg \<and> \<not> sy_equated tab y \<and> \<not> symbol_mri_common_p tab y \<and>
     \<not> S_FORCE_RELOC tab y True \<and> \<not> symbol_section_p tab y \<and> \<not> seg_merge tab seg \<and> \<not> seg_thread_local tab seg"

definition section_symbol_ok :: "symtab \<Rightarrow> sym_segment \<Rightarrow> bool" where
  "section_symbol_ok tab seg \<longleftrightarrow>
     (let z = section_symbol tab seg; b = symbol_get_bfdsym tab z in
      S_GET_SEGMENT tab z = seg \<and> S_GET_VALUE tab z = 0 \<and>
      sym_section_sym b \<and> sym_keep b \<and> sym_value b = 0 \<and> sec_kind (sym_section b) = Sec_normal \<and> sec_output_offset (sym_section b) = 0)"

definition gas_section :: "bfd_t \<Rightarrow> asection \<Rightarrow> nat \<Rightarrow> bool" where
  "gas_section abfd sec n \<longleftrightarrow> fusion_target abfd \<and> sec_output_vma sec = Some 0 \<and> sec_output_offset sec = 0 \<and>
     unat (bfd_get_section_limit_octets abfd sec) = n \<and> n < 2 ^ 63"

text \<open>The relocation that the linker reads is the entry that the assembler wrote.\<close>

definition rela_of :: "arelent \<Rightarrow> Elf_Internal_Rela \<Rightarrow> bool" where
  "rela_of e rel \<longleftrightarrow> r_offset rel = rel_address e \<and> r_addend rel = rel_addend e \<and>
     map_option howto_type (rel_howto e) = Some (ELF32_R_TYPE (r_info rel))"

definition linked_reloc :: "bfd_reloc_code \<Rightarrow> nat" where
  "linked_reloc r = (if r = BFD_RELOC_FUSION_14_PCREL then R_FUSION_BRANCH else if r = BFD_RELOC_16 then R_FUSION_LI else R_FUSION_LUI)"

text \<open>A table with a label at \<open>v\<close>, the symbol of its section and the symbol of the absolute section.\<close>

definition label_section :: asection where
  "label_section = \<lparr>sec_name = ''.text'', sec_kind = Sec_normal, sec_output_vma = Some 0, sec_output_is_abs = False,
     sec_output_offset = 0, sec_size = 0, sec_rawsize = 0, sec_debugging = False, sec_merge = False,
     sec_info_type = SEC_INFO_TYPE_NONE\<rparr>"

definition label_table :: "bfd_vma \<Rightarrow> symtab" where
  "label_table v = \<lparr>S_GET_VALUE = (\<lambda>y. if y = 0 then v else 0),
     S_GET_SEGMENT = (\<lambda>y. if y = 2 then absolute_section else normal_section 0),
     sy_local = (\<lambda>y. y = 0), sy_weak = (\<lambda>_. False), sy_global = (\<lambda>_. False), sy_ifunc = (\<lambda>_. False),
     S_IS_LOCAL = (\<lambda>_. True), symbol_section_p = (\<lambda>y. y \<noteq> 0), symbol_mri_common_p = (\<lambda>_. False),
     sy_equated = (\<lambda>_. False), sy_value = (\<lambda>y. (y, 0)), sy_count = 3,
     section_symbol = (\<lambda>seg. if seg = absolute_section then 2 else 1),
     seg_link_once = (\<lambda>_. False), seg_merge = (\<lambda>_. False), seg_thread_local = (\<lambda>_. False),
     symbol_get_bfdsym = (\<lambda>y. \<lparr>sym_value = if y = 0 then v else 0, sym_weak = False, sym_section_sym = y \<noteq> 0, sym_keep = True,
       sym_section = label_section\<rparr>)\<rparr>"

definition no_entry :: arelent where
  "no_entry = \<lparr>rel_sym = symbol_get_bfdsym (label_table 0) 2, rel_address = 0, rel_addend = 0, rel_howto = None\<rparr>"

definition symbol_fix :: "nat \<Rightarrow> nat \<Rightarrow> nat \<Rightarrow> bfd_reloc_code \<Rightarrow> fixS" where
  "symbol_fix i k y r = place_fix i k (insn_fix (no_expr\<lparr>X_op := O_symbol, X_add_symbol := Some y\<rparr>) r)"

section \<open>Properties\<close>

subsection \<open>Fixups with a symbol\<close>

lemma fixed_insn_None: "fixed_insn r v i = None \<longleftrightarrow> fixed_insn r u i = None"
  by (cases i) (simp_all add: fixed_insn_def)

lemma fixed_insn_obtain:
  assumes "fixed_insn r u i \<noteq> None"
  obtains j where "fixed_insn r v i = Some j"
  using assms fixed_insn_None [of r u i v] by (cases "fixed_insn r v i") auto

lemma fix_set_msgs: "(fix_set n fx s)\<lparr>gs_msgs := ms\<rparr> = fix_set n fx (s\<lparr>gs_msgs := ms\<rparr>)"
  by (simp add: fix_set_def)

lemma put_insn_same: "insn_place s fx w \<Longrightarrow> put_insn fx w s = s"
proof -
  assume "insn_place s fx w"
  then obtain i where i: "i < length (gs_frags s)" "fx_frag fx = Some i" "fx_where fx + 4 \<le> length (fr_literal (gs_frags s ! i))"
    "take 4 (drop (fx_where fx) (fr_literal (gs_frags s ! i))) = word_bytes w" by (auto simp: insn_place_def)
  have "splice (fr_literal (gs_frags s ! i)) (fx_where fx) (word_bytes w) = fr_literal (gs_frags s ! i)"
    unfolding i(4) [symmetric] using i(3) by (rule splice_same)
  with i show ?thesis by (simp add: put_insn_def upd_frag_def)
qed

lemma apply_fix_21:
  assumes "n < length (gs_fixes s)" "fx = gs_fixes s ! n" "insn_place s fx (encode i)"
    and "fixed_insn BFD_RELOC_FUSION_21 (get_value y + v) i = Some j" "fx_addsy fx = Some y" "v \<noteq> 0" "fx_r_type fx = BFD_RELOC_FUSION_21"
  shows "md_apply_fix get_value n v s = Inr ((), (fix_set n (fx\<lparr>fx_addnumber := v\<rparr>) (put_insn fx (encode j) s))
    \<lparr>gs_msgs := gs_msgs s @ (if get_value y + v > 0x1fffff then [As_bad ''too large jump offset''] else [])\<rparr>)"
proof -
  have "encode i OR ucast (GEN_J_IMM (get_value y + v)) = encode j"
    using assms(4) or_imm_fields(7,8) by (cases i) (auto simp: fixed_insn_def simp del: encode.simps)
  then show ?thesis
    using assms(1,2,5,6,7) insn_place_frag [OF assms(3)] or_word_ok [of "s\<lparr>gs_fixes := fs, gs_msgs := ms\<rparr>" fx "encode i" for fs ms]
      or_word_ok [of "s\<lparr>gs_fixes := fs\<rparr>" fx "encode i" for fs] assms(3)
    by (auto simp: md_apply_fix_def upd_fix_def fix_set_def as_bad_where_def Let_def)
qed

lemma fixed_insn_again: "fixed_insn r v i = Some j \<Longrightarrow> fixed_insn r u j \<noteq> None"
  by (cases i) (auto simp: fixed_insn_def split: if_splits)

lemma apply_fix_zero:
  assumes "n < length (gs_fixes s)" "fx = gs_fixes s ! n" "insn_place s fx w"
    and "fx_r_type fx \<in> pcrel_relocs \<or> fx_r_type fx = BFD_RELOC_FUSION_21"
  shows "md_apply_fix get_value n 0 s = Inr ((), fix_set n (fx\<lparr>fx_addnumber := 0\<rparr>) (put_insn fx w s))"
proof -
  obtain fr where "frag_of fx s = Inr (fr, s)" using insn_place_frag [OF assms(3)] by blast
  with assms(1,2,4) show ?thesis
    unfolding put_insn_same [OF assms(3)]
    by (auto simp: md_apply_fix_def upd_fix_def fix_set_def pcrel_relocs_def apply_pcrel_def)
qed

lemma same_msgs: "gs_msgs t = m \<Longrightarrow> t\<lparr>gs_msgs := m\<rparr> = t"
  by (cases t) simp

lemma apply_fix_symbol:
  assumes "n < length (gs_fixes s)" "fx = gs_fixes s ! n" "insn_place s fx (encode i)"
    and "fixed_insn (fx_r_type fx) 0 i \<noteq> None" "fx_addsy fx = Some y"
  obtains j ms where "md_apply_fix get_value n v s =
      Inr ((), (fix_set n (fx\<lparr>fx_addnumber := v\<rparr>) (put_insn fx (encode j) s))\<lparr>gs_msgs := ms\<rparr>)"
    "fixed_insn (fx_r_type fx) 0 j \<noteq> None" "j = i \<or> (\<exists>u. fixed_insn (fx_r_type fx) u i = Some j)"
proof -
  let ?r = "fx_r_type fx"
  consider (zero) "?r \<in> pcrel_relocs \<or> ?r = BFD_RELOC_FUSION_21" "v = 0" | (pcrel) "?r \<in> pcrel_relocs" "v \<noteq> 0"
    | (jump) "?r = BFD_RELOC_FUSION_21" "v \<noteq> 0" | (const) "?r \<notin> pcrel_relocs" "?r \<noteq> BFD_RELOC_FUSION_21" by blast
  then show ?thesis
  proof cases
    case zero
    then show ?thesis using apply_fix_zero [OF assms(1-3)] assms(4) by (intro that [of "gs_msgs s" i]) (simp_all add: same_msgs fix_set_def)
  next
    case pcrel
    obtain fr where fr: "frag_of fx s = Inr (fr, s)" using insn_place_frag [OF assms(3)] by blast
    define a where "a = of_nat (fx_where fx) + fr_address fr"
    have a: "md_pcrel_from fx s = Inr (a, s)" by (simp add: md_pcrel_from_def fr a_def)
    obtain j where j: "fixed_insn ?r (get_value y + v - a) i = Some j" using assms(4) by (rule fixed_insn_obtain)
    obtain lo hi msg where r: "pcrel_range ?r = (lo, hi, msg)" by (cases "pcrel_range ?r")
    from apply_fix_pcrel [where get_value = get_value, OF assms(1-3) j assms(5) pcrel(2) pcrel(1) [unfolded pcrel_relocs_def] a refl r]
    show ?thesis using fixed_insn_again [OF j] j by (intro that) blast+
  next
    case jump
    obtain j where j: "fixed_insn ?r (get_value y + v) i = Some j" using assms(4) by (rule fixed_insn_obtain)
    from apply_fix_21 [where get_value = get_value, OF assms(1-3) j [unfolded jump(1)] assms(5) jump(2,1)]
    show ?thesis using fixed_insn_again [OF j] j by (intro that) blast+
  next
    case const
    obtain j where j: "fixed_insn ?r v i = Some j" using assms(4) by (rule fixed_insn_obtain)
    from apply_fix_const [OF assms(1-3) j const(1) [unfolded pcrel_relocs_def], of get_value] const(2) assms(5)
    show ?thesis using fixed_insn_again [OF j] j by (intro that [of "gs_msgs s" j]) (auto simp: same_msgs fix_set_def)
  qed
qed

lemma put_insn_frags [simp]:
  "length (gs_frags (put_insn fx w s)) = length (gs_frags s)"
  "i < length (gs_frags s) \<Longrightarrow> fr_address (gs_frags (put_insn fx w s) ! i) = fr_address (gs_frags s ! i)"
  "i < length (gs_frags s) \<Longrightarrow> fr_fix (gs_frags (put_insn fx w s) ! i) = fr_fix (gs_frags s ! i)"
  by (simp_all add: put_insn_def upd_frag_def) (cases "i = the (fx_frag fx)"; simp)+

lemma same_addsy: "fx_addsy fx = Some y \<Longrightarrow> fx\<lparr>fx_addsy := Some y\<rparr> = fx"
  by (cases fx) simp

lemma fixup_left_symbol:
  assumes "n < length (gs_fixes t)" "fx_addsy (gs_fixes t ! n) = Some y" "fx_subsy (gs_fixes t ! n) = None"
    and "\<not> fx_done (gs_fixes t ! n)"
  shows "fixup_left a n t = Inr ((), t\<lparr>gs_used := insert y (gs_used t)\<rparr>)"
  using assms by (simp add: fixup_left_def get_fix_def upd_fix_def symbol_mark_used_in_reloc_def same_addsy Let_def)

lemma fixup_step_symbol:
  assumes "n < length (gs_fixes s)" "fx = gs_fixes s ! n" "insn_place s fx (encode i)"
    and "fixed_insn (fx_r_type fx) 0 i \<noteq> None" "plain_fix fx y" "S_GET_SEGMENT tab y \<noteq> absolute_section"
  obtains s' j ms where "fixup_step tab a seg n s = Inr ((), s')" "fixed_insn (fx_r_type fx) 0 j \<noteq> None"
    "j = i \<or> (\<exists>u. fixed_insn (fx_r_type fx) u i = Some j)"
    "s' = (put_insn fx (encode j) s)\<lparr>gs_fixes := (gs_fixes s)[n := fx\<lparr>fx_addnumber := symbol_add tab fx y\<rparr>],
      gs_msgs := ms, gs_used := insert y (gs_used s)\<rparr>"
proof -
  define v where "v = symbol_add tab fx y"
  note y = assms(5) [unfolded plain_fix_def]
  obtain j ms where j: "md_apply_fix (S_GET_VALUE tab) n v s =
      Inr ((), (fix_set n (fx\<lparr>fx_addnumber := v\<rparr>) (put_insn fx (encode j) s))\<lparr>gs_msgs := ms\<rparr>)"
    "fixed_insn (fx_r_type fx) 0 j \<noteq> None" "j = i \<or> (\<exists>u. fixed_insn (fx_r_type fx) u i = Some j)"
    using assms(1-4) y by (blast elim: apply_fix_symbol)
  have add: "fixup_add tab seg fx (fx_offset fx) s = Inr ((fx, v), s)"
    using y assms(6) by (simp add: fixup_add_def TC_FORCE_RELOCATION_LOCAL_def v_def symbol_add_def Let_def)
  have same: "s\<lparr>gs_fixes := (gs_fixes s)[n := fx]\<rparr> = s" using assms(2) by simp
  define t where "t = put_insn fx (encode j) s"
  have "fixup_step tab a seg n s = Inr ((), t\<lparr>gs_fixes := (gs_fixes s)[n := fx\<lparr>fx_addnumber := v\<rparr>],
      gs_msgs := ms @ (if field_too_small fx v then [As_bad ''value of %s too large for field of %d bytes at %s''] else []),
      gs_used := insert y (gs_used s)\<rparr>)"
    using y assms(1) add fixup_left_symbol [of n "(fix_set n (fx\<lparr>fx_addnumber := v\<rparr>) t)\<lparr>gs_msgs := ms\<rparr>" y a]
    by (simp add: fixup_step_def get_fix_def assms(2) [symmetric] fixup_sub_def fixup_pcrel_def upd_fix_def same
      j(1) [folded t_def] as_bad_where_def fix_set_def t_def)
       (auto intro!: gas_state.equality simp: put_insn_def upd_frag_def)
  then show ?thesis using j(2,3) by (rule that) (simp add: v_def t_def)
qed

lemma reloc_lookup_insn:
  assumes "fixed_insn r 0 i \<noteq> None"
  obtains k where "fusion_reloc_type_lookup r = Inr (Some (fusion_howto k))" "map_of fusion_reloc_map r = Some k"
proof -
  have "r \<in> {BFD_RELOC_FUSION_12, BFD_RELOC_FUSION_LOAD, BFD_RELOC_FUSION_STORE, BFD_RELOC_16, BFD_RELOC_16_PCREL,
      BFD_RELOC_HI16_PCREL, BFD_RELOC_FUSION_HI16, BFD_RELOC_8, BFD_RELOC_FUSION_21, BFD_RELOC_FUSION_21_PCREL, BFD_RELOC_FUSION_14_PCREL}"
    using assms by (cases i) (auto simp: fixed_insn_def split: if_splits)
  then show ?thesis
    by (intro that [of "the (map_of fusion_reloc_map r)"])
       (auto simp: reloc_type_lookup_map fusion_reloc_map_def)
qed

lemma gen_reloc_entry:
  assumes "fx_addsy fx = Some y" "frag_of fx s = Inr (fr, s)" "entry_in_range (fx_r_type fx) (fr_address fr) (fx_addnumber fx)"
    and "map_of fusion_reloc_map (fx_r_type fx) = Some k"
  shows "tc_gen_reloc bfdsym mem fx s = Inr (Some (mem\<lparr>rel_sym := bfdsym y,
      rel_address := fr_address fr + of_nat (fx_where fx),
      rel_addend := entry_addend (fx_r_type fx) (fr_address fr) (fx_addnumber fx), rel_howto := Some (fusion_howto k)\<rparr>), s)"
  using assms
  by (auto simp: tc_gen_reloc_def entry_in_range_def entry_addend_def pcrel_entry_def reloc_type_lookup_map Let_def)

text \<open>The step of the pass for such a fixup, and the entry that is made of it.\<close>

lemma symbol_entry:
  assumes "n < length (gs_fixes s)" "fx = gs_fixes s ! n" "insn_place s fx (encode i)"
    and "fixed_insn (fx_r_type fx) 0 i \<noteq> None" "plain_fix fx y" "S_GET_SEGMENT tab y \<noteq> absolute_section"
    and "frag_of fx s = Inr (fr, s)" "entry_in_range (fx_r_type fx) (fr_address fr) (symbol_add tab fx y)"
    and "map_of fusion_reloc_map (fx_r_type fx) = Some k"
    and "e = mem\<lparr>rel_sym := symbol_get_bfdsym tab y, rel_address := fr_address fr + of_nat (fx_where fx),
      rel_addend := entry_addend (fx_r_type fx) (fr_address fr) (symbol_add tab fx y), rel_howto := Some (fusion_howto k)\<rparr>"
  obtains s' j fr' where "fixup_step tab a seg n s = Inr ((), s')" "insn_place s' fx (encode j)"
    "fixed_insn (fx_r_type fx) 0 j \<noteq> None" "j = i \<or> (\<exists>u. fixed_insn (fx_r_type fx) u i = Some j)" "y \<in> gs_used s'"
    "gs_fixes s' ! n = fx\<lparr>fx_addnumber := symbol_add tab fx y\<rparr>" "frag_of (gs_fixes s' ! n) s' = Inr (fr', s')"
    "fr_address fr' = fr_address fr" "fr_fix fr' = fr_fix fr"
    "tc_gen_reloc (symbol_get_bfdsym tab) mem (gs_fixes s' ! n) s' = Inr (Some e, s')"
proof -
  obtain s' j ms where s': "fixup_step tab a seg n s = Inr ((), s')" "fixed_insn (fx_r_type fx) 0 j \<noteq> None"
    "j = i \<or> (\<exists>u. fixed_insn (fx_r_type fx) u i = Some j)"
    "s' = (put_insn fx (encode j) s)\<lparr>gs_fixes := (gs_fixes s)[n := fx\<lparr>fx_addnumber := symbol_add tab fx y\<rparr>],
      gs_msgs := ms, gs_used := insert y (gs_used s)\<rparr>"
    using assms(1-6) by (rule fixup_step_symbol)
  have pl: "insn_place s' fx (encode j)"
    using insn_place_put [OF assms(3), of "encode j"] by (simp add: s'(4) insn_place_def)
  have fx': "gs_fixes s' ! n = fx\<lparr>fx_addnumber := symbol_add tab fx y\<rparr>" using assms(1) by (simp add: s'(4))
  obtain fr' where fr': "frag_of (gs_fixes s' ! n) s' = Inr (fr', s')" "fr_address fr' = fr_address fr" "fr_fix fr' = fr_fix fr"
    using assms(7) unfolding fx' by (auto simp: s'(4) frag_of_def rbind_Inr_iff rd8_def split: option.splits if_splits)
  have y: "fx_addsy fx = Some y" using assms(5) by (simp add: plain_fix_def)
  have "tc_gen_reloc (symbol_get_bfdsym tab) mem (gs_fixes s' ! n) s' = Inr (Some e, s')"
    using gen_reloc_entry [of "gs_fixes s' ! n" y s' fr' k] fr' y assms(8,9) by (simp add: fx' assms(10))
  moreover have "y \<in> gs_used s'" by (simp add: s'(4))
  ultimately show ?thesis using s'(1) pl s'(2,3) fx' fr' by (intro that)
qed

text \<open>
  C17: fixups with a symbol that is not absolute. The pass over the fixups adds the value of a
  symbol that is defined to the offset, merges the result into the instruction, and leaves the
  fixup to the linker with the symbol marked as used; its relocation entry is at the place of
  the instruction, against the same symbol, and its addend contains the value of the symbol
  and, for a branch or a jump relative to the place, the address of the fragment.
\<close>

theorem symbol_fixup_entry:
  assumes "n < length (gs_fixes s)" "fx = gs_fixes s ! n" "insn_place s fx (encode i)"
    and "fixed_insn (fx_r_type fx) 0 i \<noteq> None" "plain_fix fx y" "S_GET_SEGMENT tab y \<noteq> absolute_section"
    and "frag_of fx s = Inr (fr, s)" "entry_in_range (fx_r_type fx) (fr_address fr) (symbol_add tab fx y)"
  shows "\<exists>s' j e k. fixup_step tab a seg n s = Inr ((), s') \<and> insn_place s' fx (encode j) \<and>
    fixed_insn (fx_r_type fx) 0 j \<noteq> None \<and> y \<in> gs_used s' \<and>
    tc_gen_reloc (symbol_get_bfdsym tab) mem (gs_fixes s' ! n) s' = Inr (Some e, s') \<and>
    rel_sym e = symbol_get_bfdsym tab y \<and> rel_address e = fr_address fr + of_nat (fx_where fx) \<and>
    rel_addend e = entry_addend (fx_r_type fx) (fr_address fr) (symbol_add tab fx y) \<and>
    map_of fusion_reloc_map (fx_r_type fx) = Some k \<and> rel_howto e = Some (fusion_howto k)"
proof -
  obtain k where k: "map_of fusion_reloc_map (fx_r_type fx) = Some k" using assms(4) by (rule reloc_lookup_insn)
  define e where "e = mem\<lparr>rel_sym := symbol_get_bfdsym tab y, rel_address := fr_address fr + of_nat (fx_where fx),
      rel_addend := entry_addend (fx_r_type fx) (fr_address fr) (symbol_add tab fx y), rel_howto := Some (fusion_howto k)\<rparr>"
  from assms k e_def show ?thesis
    by (rule symbol_entry [where a = a and seg = seg]) (use k in \<open>auto simp: e_def\<close>)
qed

lemma symbol_fix_simps [simp]:
  "fx_frag (symbol_fix i k y r) = Some i" "fx_where (symbol_fix i k y r) = k" "fx_addsy (symbol_fix i k y r) = Some y"
  "fx_r_type (symbol_fix i k y r) = r" "fx_offset (symbol_fix i k y r) = 0" "plain_fix (symbol_fix i k y r) z \<longleftrightarrow> z = y"
  by (auto simp: symbol_fix_def insn_fix_def plain_fix_def no_expr_def place_fix_def)

theorem symbol_fixup_entry_witness:
  "\<exists>s s' fx e. fx = symbol_fix 0 0 0 BFD_RELOC_FUSION_14_PCREL \<and>
    s = (start_state [])\<lparr>gs_frags := [empty_frag\<lparr>fr_address := 0x100, fr_literal := word_bytes (encode (B_insn 1 2 0 3))\<rparr>],
      gs_fixes := [fx]\<rparr> \<and>
    fixup_step (label_table 8) 2 (normal_section 0) 0 s = Inr ((), s') \<and>
    tc_gen_reloc (symbol_get_bfdsym (label_table 8)) no_entry (gs_fixes s' ! 0) s' = Inr (Some e, s') \<and>
    rel_address e = 0x100 \<and> rel_addend e = 0x108"
proof -
  define fx where "fx = symbol_fix 0 0 0 BFD_RELOC_FUSION_14_PCREL"
  define fr where "fr = empty_frag\<lparr>fr_address := 0x100, fr_literal := word_bytes (encode (B_insn 1 2 0 3))\<rparr>"
  define s where "s = (start_state [])\<lparr>gs_frags := [fr], gs_fixes := [fx]\<rparr>"
  have "insn_place s fx (encode (B_insn 1 2 0 3))" by (simp add: insn_place_def s_def fr_def fx_def del: encode.simps)
  moreover have "frag_of fx s = Inr (fr, s)" by (simp add: frag_of_def s_def fx_def)
  moreover have "symbol_add (label_table 8) fx 0 = 8" by (simp add: symbol_add_def label_table_def fx_def)
  moreover have "signed_int 0x108 = 0x108" by (simp add: signed_int_def)
  moreover have "S_GET_SEGMENT (label_table 8) 0 \<noteq> absolute_section" by (simp add: label_table_def)
  moreover have "gs_fixes s ! 0 = fx" "length (gs_fixes s) = 1" "plain_fix fx 0" "fx_r_type fx = BFD_RELOC_FUSION_14_PCREL"
    "fx_where fx = 0" "fr_address fr = 0x100"
    by (simp_all add: s_def fx_def fr_def)
  ultimately obtain s' e where "fixup_step (label_table 8) 2 (normal_section 0) 0 s = Inr ((), s')"
    "tc_gen_reloc (symbol_get_bfdsym (label_table 8)) no_entry (gs_fixes s' ! 0) s' = Inr (Some e, s')"
    "rel_address e = 0x100" "rel_addend e = 0x108"
    using symbol_fixup_entry [of 0 s fx "B_insn 1 2 0 3" 0 "label_table 8" fr 2 "normal_section 0" no_entry]
    by (auto simp: entry_in_range_def entry_addend_def fixed_insn_def simp del: encode.simps)
  then show ?thesis unfolding s_def fr_def fx_def by blast
qed

subsection \<open>Entries against the symbol of the section\<close>

lemma adjust_local:
  assumes "local_label tab seg y" "plain_fix fx y"
  shows "adjust_fix tab seg fx =
    Inr (fx\<lparr>fx_offset := fx_offset fx + S_GET_VALUE tab y, fx_addsy := Some (section_symbol tab seg)\<rparr>)"
  using assms
  by (simp add: adjust_fix_def local_label_def plain_fix_def follow_equated.simps [of tab _ y] SEG_NORMAL_def Let_def)

lemma install_section_symbol:
  assumes "section_symbol_ok tab seg" "rel_sym e = symbol_get_bfdsym tab (section_symbol tab seg)" "gas_section abfd sec n"
    and "rel_howto e = Some (fusion_howto t)" "t \<in> {R_FUSION_BRANCH, R_FUSION_LI, R_FUSION_LUI}" "unat (rel_address e) + 4 \<le> n"
  shows "bfd_install_relocation abfd e lit off sec = Inr (bfd_reloc_ok, e, lit)"
proof -
  let ?h = "fusion_howto t"
  have h: "howto_special ?h = Some bfd_elf_generic_reloc_fn" "\<not> howto_partial_inplace ?h" "howto_size ?h = 2"
    using assms(5) by (auto simp: fusion_howto_simps)
  have "reloc_offset_in_range ?h abfd sec (rel_address e * bfd_octets_per_byte abfd) = Inr True"
    using assms(3,6) h(3) unat_add_lem [of "rel_address e" 4]
    by (auto simp: reloc_offset_in_range_def bfd_get_reloc_size_def gas_section_def fusion_target_def word_le_nat_alt unat_word_ariths)
  then show ?thesis
    using assms(1-4) h
    by (simp add: bfd_install_relocation_def bfd_elf_generic_reloc_def symbol_relocation_def section_symbol_ok_def gas_section_def Let_def)
qed

lemma write_section_entry:
  assumes "\<not> fx_done fx" "frag_of fx s = Inr (fr, s)" "fx_where fx + fx_size fx \<le> fr_fix fr"
    and "tc_gen_reloc (symbol_get_bfdsym tab) mem fx s = Inr (Some e, s)"
    and "section_symbol_ok tab seg" "rel_sym e = symbol_get_bfdsym tab (section_symbol tab seg)" "gas_section abfd sec n"
    and "rel_howto e = Some (fusion_howto t)" "t \<in> {R_FUSION_BRANCH, R_FUSION_LI, R_FUSION_LUI}" "unat (rel_address e) + 4 \<le> n"
  shows "write_reloc tab abfd sec mem fx s = Inr ([e], s)"
proof -
  obtain i where i: "fx_frag fx = Some i" "i < length (gs_frags s)" "fr = gs_frags s ! i"
    using assms(2) by (auto simp: frag_of_def rbind_Inr_iff rd8_def split: option.splits if_splits)
  have "sym_keep (rel_sym e)" using assms(5,6) by (simp add: section_symbol_ok_def Let_def)
  then have "install_reloc abfd sec e fx s = Inr (e, s)"
    using assms(2) install_section_symbol [OF assms(5-10), of "fr_literal fr" "fr_address fr"]
    by (simp add: install_reloc_def i upd_frag_def Let_def)
  with assms(1-4) show ?thesis by (simp add: write_reloc_def)
qed

lemma word_of_parts:
  "(w :: insn_t) = push_bit 24 (ucast (ucast (drop_bit 24 w) :: 8 word)) OR push_bit 16 (ucast (ucast (drop_bit 16 w) :: 8 word))
     OR push_bit 8 (ucast (ucast (drop_bit 8 w) :: 8 word)) OR ucast (ucast w :: 8 word)"
  by (simp add: word_bits)

lemma word_bytes_inj: "word_bytes v = word_bytes w \<longleftrightarrow> v = w"
proof
  assume "word_bytes v = word_bytes w"
  then have b: "(ucast (drop_bit 24 v) :: 8 word) = ucast (drop_bit 24 w)" "(ucast (drop_bit 16 v) :: 8 word) = ucast (drop_bit 16 w)"
    "(ucast (drop_bit 8 v) :: 8 word) = ucast (drop_bit 8 w)" "(ucast v :: 8 word) = ucast w" by (simp_all add: word_bytes_def)
  from word_of_parts [of v] word_of_parts [of w] show "v = w" by (simp only: b)
qed simp

lemma insn_place_unique: "insn_place s fx v \<Longrightarrow> insn_place s fx w \<Longrightarrow> v = w"
  by (auto simp: insn_place_def word_bytes_inj)

lemma low_bits_add: "(ucast (a + b) :: 14 word) = ucast a + ucast (b :: bfd_vma)"
proof (rule word_uint_eqI)
  have "uint (ucast (a + b) :: 14 word) = take_bit 14 (take_bit 64 (uint a + uint b))"
    by (simp add: unsigned_ucast_eq uint_word_ariths(1) take_bit_eq_mod)
  also have "\<dots> = take_bit 14 (take_bit 14 (uint a) + take_bit 14 (uint b))" by (simp add: take_bit_add)
  also have "\<dots> = uint (ucast a + ucast b :: 14 word)"
    by (simp add: unsigned_ucast_eq uint_word_ariths(1) take_bit_eq_mod)
  finally show "uint (ucast (a + b) :: 14 word) = uint (ucast a + ucast b :: 14 word)" .
qed

lemma branch_offset_right: "(ucast (a + b) :: 14 word) = ucast a \<longleftrightarrow> take_bit 14 (b :: bfd_vma) = 0"
proof -
  have "uint (ucast b :: 14 word) = uint (take_bit 14 b)" by (simp only: unsigned_ucast_eq unsigned_take_bit_eq) simp
  then have "(ucast b :: 14 word) = 0 \<longleftrightarrow> take_bit 14 b = 0" unfolding uint_0_iff [symmetric] by (simp only:)
  then show ?thesis by (simp add: low_bits_add)
qed

lemma entry_relocated:
  assumes "rela_of e rel" "rel_howto e = Some (fusion_howto t)" "t \<in> {R_FUSION_BRANCH, R_FUSION_LI, R_FUSION_LUI}"
    and "fusion_target (li_bfd li)" "section_ok (li_bfd li) osec p" "sec_output_vma osec = Some vma" "base = vma + sec_output_offset osec"
    and "insn_at (li_bfd li) p (unat (r_offset rel)) = Inr w"
    and "decode (reloc_word t base (rel_addend e) (base + rel_address e) w) = Some j"
  shows "\<exists>q w'. relocate_switch li osec (fusion_howto (ELF32_R_TYPE (r_info rel))) rel base p = Inr (bfd_reloc_ok, q) \<and>
    insn_at (li_bfd li) q (unat (r_offset rel)) = Inr w' \<and> decode w' = Some j"
proof -
  have t: "t = ELF32_R_TYPE (r_info rel)" "t < R_FUSION_max" "t \<noteq> R_FUSION_RELATIVE"
    using assms(1-3) by (auto simp: rela_of_def fusion_howto_simps)
  have "reloc_place osec vma rel = base + rel_address e" using assms(1) by (simp add: reloc_place_def rela_of_def assms(7))
  with switch_word [OF assms(4-6) t assms(8), of base] assms(1,9) show ?thesis by (auto simp: rela_of_def simp flip: t(1))
qed

lemma symbol_fix_size: "fx_size (symbol_fix i k y r) = 4"
  by (simp add: symbol_fix_def insn_fix_def place_fix_def no_expr_def)

lemma insn_at_word: "insn_at example_bfd (example_contents (word_bytes w)) 4 = Inr w"
proof -
  have "w = push_bit 24 (ucast (ucast (drop_bit 24 w) :: 8 word)) OR push_bit 16 (ucast (ucast (drop_bit 16 w) :: 8 word))
      OR push_bit 8 (ucast (ucast (drop_bit 8 w) :: 8 word)) OR ucast (ucast w :: 8 word)" by (rule word_of_parts)
  then show ?thesis using example_insn by (simp add: word_bytes_def example_link_def)
qed

end
