(* ===== verification/Tc_Invariant.thy ===== *)
theory Tc_Invariant
  imports Tc_Line
begin

text \<open>
  The invariant of the state of the assembler over whole runs of the port. \<open>within R m\<close> says that
  the states before and after a routine are related; the locale \<open>step_relation\<close> carries a
  reflexive and transitive relation through the control structures, its extension
  \<open>line_relation\<close> through the parsers of the port, which only write messages and into
  the line. The relation \<open>extends\<close>, for which the locale is interpreted, says that the invariant is kept, that the
  section only grows, by whole instruction words, and that no fixup is lost.
\<close>

subsection \<open>Routines as steps\<close>

definition within :: "(gas_state \<Rightarrow> gas_state \<Rightarrow> bool) \<Rightarrow> 'a gas \<Rightarrow> bool" where
  "within R m \<longleftrightarrow> (\<forall>s x s'. m s = Inr (x, s') \<longrightarrow> R s s')"

subsection \<open>The invariant\<close>

text \<open>
  A fixup covers a word of its fragment and has one of the relocations that the port chooses
  or that of an image relative symbol, which the generic code puts in its place; closed fragments are plain contents. The tables
  are filled, every fragment holds whole words and every word has at most one fixup.
\<close>

definition port_relocs :: "bfd_reloc_code set" where
  "port_relocs = {BFD_RELOC_FUSION_12, BFD_RELOC_FUSION_LOAD, BFD_RELOC_FUSION_STORE, BFD_RELOC_16, BFD_RELOC_FUSION_HI16,
     BFD_RELOC_8, BFD_RELOC_FUSION_21, BFD_RELOC_FUSION_21_PCREL, BFD_RELOC_FUSION_14_PCREL}"

definition fix_ok :: "fragS list \<Rightarrow> fixS \<Rightarrow> bool" where
  "fix_ok fs fx \<longleftrightarrow> (\<exists>i < length fs. fx_frag fx = Some i \<and> fx_where fx + 4 \<le> length (fr_literal (fs ! i))) \<and>
     4 dvd fx_where fx \<and> fx_size fx \<le> 4 \<and> fx_r_type fx \<in> insert BFD_RELOC_RVA port_relocs \<and> \<not> fx_done fx"

definition closed_ok :: "fragS list \<Rightarrow> bool" where
  "closed_ok fs \<longleftrightarrow> (\<forall>f \<in> set (butlast fs). fr_type f = rs_fill \<and> fr_fix f = length (fr_literal f))"

definition fix_place :: "fixS \<Rightarrow> nat option \<times> nat" where
  "fix_place fx = (fx_frag fx, fx_where fx)"

definition state_ok :: "gas_state \<Rightarrow> bool" where
  "state_ok s \<longleftrightarrow> tables_ready s \<and> \<not> pending_reloc s \<and> gs_frags s \<noteq> [] \<and> closed_ok (gs_frags s) \<and>
     (\<forall>f \<in> set (gs_frags s). 4 dvd length (fr_literal f)) \<and>
     (\<forall>fx \<in> set (gs_fixes s). fix_ok (gs_frags s) fx) \<and> distinct (map fix_place (gs_fixes s))"

definition extends :: "gas_state \<Rightarrow> gas_state \<Rightarrow> bool" where
  "extends s s' \<longleftrightarrow> (state_ok s \<longrightarrow> state_ok s' \<and>
     (\<exists>ws. section_bytes s' = section_bytes s @ concat (map word_bytes ws)) \<and> (\<exists>fxs. gs_fixes s' = gs_fixes s @ fxs))"

text \<open>
  The states that a run of the port goes through: start-up on an empty section, then lines of
  any contents, in any order, at any place of the input buffer, and register names of the debug information.
\<close>

inductive assembled :: "expressionS gas \<Rightarrow> gas_state \<Rightarrow> bool" for expression where
  start: "md_begin arch_ok s = Inr ((), s') \<Longrightarrow> gs_frags s = [empty_frag] \<Longrightarrow> gs_fixes s = [] \<Longrightarrow> \<not> pending_reloc s \<Longrightarrow>
    assembled expression s'"
| line: "assembled expression s \<Longrightarrow> md_assemble expression e0 p (s\<lparr>gs_buf := buf, gs_ilp := q, gs_limit := l\<rparr>) = Inr ((), s') \<Longrightarrow>
    assembled expression s'"
| debug_register: "assembled expression s \<Longrightarrow> tc_fusion_regname_to_dw2regnum nm s = Inr (r, s') \<Longrightarrow> assembled expression s'"

text \<open>\<open>grown fs fs'\<close>: closing fragments and starting empty ones changes no contents.\<close>

definition grown :: "fragS list \<Rightarrow> fragS list \<Rightarrow> bool" where
  "grown fs fs' \<longleftrightarrow> fs' \<noteq> [] \<and> (\<exists>k. map fr_literal fs' = map fr_literal fs @ replicate k []) \<and>
     (closed_ok fs \<longrightarrow> closed_ok fs')"

definition same_but_fixes :: "gas_state \<Rightarrow> gas_state \<Rightarrow> bool" where
  "same_but_fixes s s' \<longleftrightarrow> gs_frags s' = gs_frags s \<and> pending_reloc s' = pending_reloc s \<and> tables_ready s' = tables_ready s"

section \<open>Properties\<close>

subsection \<open>Relations kept by the parsers\<close>

locale step_relation =
  fixes R :: "gas_state \<Rightarrow> gas_state \<Rightarrow> bool"
  assumes R_refl: "R s s"
    and R_trans: "R s t \<Longrightarrow> R t u \<Longrightarrow> R s u"
begin

lemma within_gret: "within R (gret x)"
  by (simp add: within_def R_refl)

lemma within_gfail: "within R (gfail e)"
  by (simp add: within_def)

lemma within_glift: "within R (glift m)"
  by (auto simp: within_def R_refl rbind_Inr_iff)

lemma within_gbind: "within R m \<Longrightarrow> (\<And>x. within R (f x)) \<Longrightarrow> within R (gbind m f)"
  unfolding within_def by (auto simp: rbind_Inr_iff) (blast intro: R_trans)

lemma within_if: "(b \<Longrightarrow> within R m) \<Longrightarrow> (\<not> b \<Longrightarrow> within R n) \<Longrightarrow> within R (if b then m else n)"
  by simp

lemma within_option: "within R m \<Longrightarrow> (\<And>x. within R (f x)) \<Longrightarrow> within R (case q of None \<Rightarrow> m | Some x \<Rightarrow> f x)"
  by (cases q) simp_all

lemma within_prod: "(\<And>a b. within R (f a b)) \<Longrightarrow> within R (case q of (a, b) \<Rightarrow> f a b)"
  by (cases q) simp

lemma within_gif: "within R c \<Longrightarrow> within R m \<Longrightarrow> within R n \<Longrightarrow> within R (gif c m n)"
  unfolding gif_def by (intro within_gbind within_if)

lemma within_gas_assert: "within R (gas_assert b)"
  by (simp add: within_def R_refl)

lemma within_peek: "within R (peek p)"
  by (auto simp: within_def peek_def rbind_Inr_iff R_refl)

lemma within_scan: "within R (scan P p)"
  by (auto simp: within_def scan_def rbind_Inr_iff R_refl)

lemmas within_steps = within_gret within_gfail within_glift within_gbind within_if within_option within_prod
  within_gif within_gas_assert within_peek within_scan

lemma within_skip_blanks: "within R (skip_blanks p)"
  unfolding skip_blanks_def by (rule within_scan)

lemma within_prefix_at: "within R (prefix_at cs p)"
  by (induction cs arbitrary: p) (simp_all only: prefix_at.simps within_steps)

end

text \<open>Steps that only report messages, write into the line or move the positions in it.\<close>

locale line_relation = step_relation +
  assumes R_msgs: "R s (s\<lparr>gs_msgs := ms\<rparr>)"
    and R_buf: "R s (s\<lparr>gs_buf := buf\<rparr>)"
    and R_ilp: "R s (s\<lparr>gs_ilp := p\<rparr>)"
    and R_end: "R s (s\<lparr>expr_end := p\<rparr>)"
begin

lemma within_as_bad: "within R (as_bad msg)"
  by (simp add: within_def R_msgs)

lemma within_as_warn: "within R (as_warn msg)"
  by (simp add: within_def R_msgs)

lemma within_poke: "within R (poke p c)"
  by (simp add: within_def poke_def R_buf)

lemma within_ignore: "within R ignore_rest_of_line"
  by (auto simp: within_def ignore_rest_of_line_def rbind_Inr_iff R_ilp)

lemmas within_line = within_steps within_as_bad within_as_warn within_poke within_ignore within_skip_blanks within_prefix_at

lemma within_register: "within R (parse_register_operand p)"
  unfolding parse_register_operand_def numeric_register_def named_register_def simple_register_def check_sep_def reg_error_def Let_def
  by (intro within_line)

lemma within_comma: "within R (comma msg p)" "within R (warn_rest p)"
  unfolding comma_def warn_rest_def by (intro within_line)+

lemma within_expression: "within R expression \<Longrightarrow> within R (getExpression expression p)"
  unfolding within_def getExpression_def
proof (intro allI impI)
  fix s x s'
  assume e: "\<forall>s x s'. expression s = Inr (x, s') \<longrightarrow> R s s'"
    and "rbind (expression (s\<lparr>gs_ilp := p\<rparr>)) (\<lambda>(ep, s'). Inr (ep, s'\<lparr>expr_end := gs_ilp s', gs_ilp := gs_ilp s\<rparr>)) = Inr (x, s')"
  then obtain t where t: "expression (s\<lparr>gs_ilp := p\<rparr>) = Inr (x, t)" "s' = t\<lparr>expr_end := gs_ilp t, gs_ilp := gs_ilp s\<rparr>"
    by (auto simp: rbind_Inr_iff)
  from R_trans [OF R_ilp e [rule_format, OF t(1)]] show "R s s'"
    unfolding t(2) by (rule R_trans [OF _ R_trans [OF R_end R_ilp]])
qed

lemma within_parse_imm: "within R expression \<Longrightarrow> within R (parse_imm expression reloc ops p)"
  unfolding parse_imm_def by (intro within_line within_expression)

lemmas within_parts = within_line within_register within_comma within_parse_imm

lemma within_operands_no_imm: "within R (operands_no_imm args ops p)"
  unfolding operands_no_imm_def parse_rdab_def parse_rda_def parse_rab_def Let_def by (intro within_parts)

lemma within_operands_imm: "within R expression \<Longrightarrow> within R (operands_imm expression reloc cpid args ops p)"
  unfolding operands_imm_def parse_rdai_def parse_rdi_def parse_rai_def parse_rabi_def parse_imm_last_def
    parse_rdai_offset_def parse_rai_offset_def parse_rabi_offset_def find_paren_def skip_closing_def
  by (intro within_parts)

lemma within_build_word: "within R (build_word ip reloc ops)"
  unfolding build_word_def check_absolute_expr_def Let_def by (intro within_parts)

lemma within_return_reloc: "within R (return_reloc insn)"
  unfolding return_reloc_def Let_def by (intro within_parts)

lemma within_assemble_insn_bin: "within R expression \<Longrightarrow> within R (assemble_insn_bin expression str ip e0)"
  unfolding assemble_insn_bin_def Let_def
  by (intro within_parts within_return_reloc within_operands_no_imm within_operands_imm within_build_word)

end

subsection \<open>Growing fragments\<close>

lemma tables_ready_updates [simp]:
  "tables_ready (s\<lparr>gs_msgs := ms\<rparr>) = tables_ready s" "tables_ready (s\<lparr>gs_buf := buf\<rparr>) = tables_ready s"
  "tables_ready (s\<lparr>gs_ilp := p\<rparr>) = tables_ready s" "tables_ready (s\<lparr>gs_limit := p\<rparr>) = tables_ready s"
  "tables_ready (s\<lparr>expr_end := p\<rparr>) = tables_ready s" "tables_ready (s\<lparr>gs_frags := fs\<rparr>) = tables_ready s"
  "tables_ready (s\<lparr>gs_rooms := rs\<rparr>) = tables_ready s" "tables_ready (s\<lparr>gs_fixes := fxs\<rparr>) = tables_ready s"
  "tables_ready (s\<lparr>gs_symbols := ys\<rparr>) = tables_ready s"
  by (simp_all add: tables_ready_def)

lemma extends_refl: "extends s s"
  by (auto simp: extends_def intro: exI [of _ "[]"])

lemma extends_trans: "extends s t \<Longrightarrow> extends t u \<Longrightarrow> extends s u"
  unfolding extends_def by (auto simp: append_assoc simp flip: concat_append map_append)

lemma extends_same:
  "gs_frags s' = gs_frags s \<Longrightarrow> gs_fixes s' = gs_fixes s \<Longrightarrow> pending_reloc s' = pending_reloc s \<Longrightarrow>
   (tables_ready s \<Longrightarrow> tables_ready s') \<Longrightarrow> extends s s'"
  by (auto simp: extends_def state_ok_def section_bytes_def intro: exI [of _ "[]"])

interpretation ext: line_relation extends
proof
  show "extends s s" for s by (rule extends_refl)
  show "extends s t \<Longrightarrow> extends t u \<Longrightarrow> extends s u" for s t u by (rule extends_trans)
qed (simp_all add: extends_same)

lemma frag_new_grown:
  assumes "frag_new 0 (frag_wane (frag_now s) s) = Inr s'"
  obtains fs where "s' = s\<lparr>gs_frags := fs\<rparr>" "grown (gs_frags s) fs" "gs_frags s \<noteq> []"
proof -
  have ne: "gs_frags s \<noteq> []" using assms by (auto simp: frag_new_def frag_wane_def upd_frag_def Let_def split: if_splits)
  then obtain fs f where f: "gs_frags s = fs @ [f]" by (cases "gs_frags s" rule: rev_cases) auto
  then have "s' = s\<lparr>gs_frags := fs @ [f\<lparr>fr_type := rs_fill, fr_offset := 0, fr_var := 0, fr_fix := length (fr_literal f)\<rparr>, empty_frag]\<rparr>"
    using assms by (simp add: frag_new_def frag_wane_def upd_frag_def frag_now_def frag_now_fix_octets_def Let_def)
  then show ?thesis
    by (rule that) (auto simp: grown_def closed_ok_def f butlast_append empty_frag_def ne intro: exI [of _ 1])
qed

lemma grown_refl: "fs \<noteq> [] \<Longrightarrow> grown fs fs"
  by (auto simp: grown_def intro: exI [of _ 0])

lemma grown_trans: "grown fs gs \<Longrightarrow> grown gs hs \<Longrightarrow> grown fs hs"
proof -
  assume g: "grown fs gs" "grown gs hs"
  obtain k where k: "map fr_literal gs = map fr_literal fs @ replicate k []" using g(1) unfolding grown_def by blast
  obtain l where l: "map fr_literal hs = map fr_literal gs @ replicate l []" using g(2) unfolding grown_def by blast
  have "map fr_literal hs = map fr_literal fs @ replicate (k + l) []" by (simp only: k l replicate_add append_assoc)
  then have "\<exists>k. map fr_literal hs = map fr_literal fs @ replicate k []" ..
  with g show ?thesis unfolding grown_def by blast
qed

lemma frag_grow_loop_grown:
  "frag_grow_loop rooms n s = Inr s' \<Longrightarrow>
   \<exists>fs rs. s' = s\<lparr>gs_frags := fs, gs_rooms := rs\<rparr> \<and> (gs_frags s \<noteq> [] \<longrightarrow> grown (gs_frags s) fs) \<and> (gs_frags s = [] \<longrightarrow> fs = [])"
proof (induction rooms arbitrary: s)
  case (Cons r rooms)
  show ?case
  proof (cases "r < n")
    case True
    then obtain t where t: "frag_new 0 (frag_wane (frag_now s) s) = Inr t" "frag_grow_loop rooms n t = Inr s'"
      using Cons.prems by (auto simp: rbind_Inr_iff)
    from t(1) obtain fs where fs: "t = s\<lparr>gs_frags := fs\<rparr>" "grown (gs_frags s) fs" "gs_frags s \<noteq> []"
      by (rule frag_new_grown)
    then have "fs \<noteq> []" by (simp add: grown_def)
    with Cons.IH [OF t(2)] fs show ?thesis by (auto intro: grown_trans)
  next
    case False
    with Cons.prems show ?thesis
      by (intro exI [of _ "gs_frags s"] exI [of _ "r # rooms"]) (simp add: grown_refl)
  qed
qed simp

lemma frag_more_grown:
  assumes "frag_more n s = Inr (a, s')"
  obtains fs f rs where "s' = s\<lparr>gs_frags := fs @ [f\<lparr>fr_literal := fr_literal f @ replicate n 0\<rparr>], gs_rooms := rs\<rparr>"
    "grown (gs_frags s) (fs @ [f])" "a = length (fr_literal f)"
proof -
  obtain t where t: "frag_grow_loop (gs_rooms s) n s = Inr t" "gs_frags t \<noteq> []" "a = frag_now_fix_octets t"
    "s' = (upd_frag (frag_now t) (\<lambda>f. f\<lparr>fr_literal := fr_literal f @ replicate n 0\<rparr>) t)
           \<lparr>gs_rooms := (hd (gs_rooms t) - n) # tl (gs_rooms t)\<rparr>"
    using assms by (auto simp: frag_more_def frag_grow_def rbind_Inr_iff split: if_splits)
  obtain gs rs where g: "t = s\<lparr>gs_frags := gs, gs_rooms := rs\<rparr>" "gs_frags s \<noteq> [] \<longrightarrow> grown (gs_frags s) gs"
    "gs_frags s = [] \<longrightarrow> gs = []" using frag_grow_loop_grown [OF t(1)] by blast
  obtain fs f where f: "gs = fs @ [f]" using t(2) g(1) by (cases gs rule: rev_cases) auto
  show ?thesis
    by (rule that [of "(hd rs - n) # tl rs" fs f])
       (use g f t(3,4) in \<open>auto simp: upd_frag_def frag_now_def frag_now_fix_octets_def\<close>)
qed

subsection \<open>Adding fixups and putting instructions out\<close>

lemma make_expr_symbol_keeps:
  "make_expr_symbol e s = Inr (y, s') \<Longrightarrow> gs_fixes s' = gs_fixes s \<and> same_but_fixes s s'"
  by (auto simp: same_but_fixes_def make_expr_symbol_def new_symbol_def rbind_Inr_iff split: if_splits)

lemma fix_new_internal_adds:
  "fix_new_internal fr wh sz add sub off pcrel r False s = Inr (n, s') \<Longrightarrow>
   \<exists>f. n = length (gs_fixes s) \<and> gs_fixes s' = gs_fixes s @ [f] \<and> same_but_fixes s s' \<and> fx_size f = sz \<and> (fx_r_type f = r \<or> fx_r_type f = BFD_RELOC_RVA) \<and> \<not> fx_done f"
  by (auto simp: same_but_fixes_def fix_new_internal_def Let_def split: if_splits)

lemma fix_new_exp_adds:
  assumes "fix_new_exp fr wh sz e pcrel r s = Inr ((n, e'), s')"
  obtains f where "n = length (gs_fixes s)" "gs_fixes s' = gs_fixes s @ [f]" "same_but_fixes s s'" "fx_size f = sz"
    "fx_r_type f = r \<or> fx_r_type f = BFD_RELOC_RVA" "\<not> fx_done f"
proof -
  have "\<exists>f. n = length (gs_fixes s) \<and> gs_fixes s' = gs_fixes s @ [f] \<and> same_but_fixes s s' \<and> fx_size f = sz \<and> (fx_r_type f = r \<or> fx_r_type f = BFD_RELOC_RVA) \<and> \<not> fx_done f"
    using assms
    by (cases "X_op e") (auto simp: same_but_fixes_def fix_new_exp_def rbind_Inr_iff Let_def dest!: make_expr_symbol_keeps fix_new_internal_adds)
  with that show ?thesis by blast
qed

lemma table_reloc_sizes: "howto \<in> set fusion_elf_howto_table \<Longrightarrow> bfd_get_reloc_size howto = Inr sz \<Longrightarrow> sz \<le> 4"
  by (auto simp: fusion_elf_howto_table_def HOWTO_def bfd_get_reloc_size_def)

lemma lookup_in_table: "fusion_reloc_type_lookup r = Inr (Some h) \<Longrightarrow> h \<in> set fusion_elf_howto_table"
proof -
  have "type_lookup_loop m i r = Inr (Some h) \<Longrightarrow> h \<in> set fusion_elf_howto_table" for m i
    by (induction i) (auto simp: rbind_Inr_iff rd8_def split: if_splits prod.splits)
  then show "fusion_reloc_type_lookup r = Inr (Some h) \<Longrightarrow> h \<in> set fusion_elf_howto_table"
    by (auto simp: fusion_reloc_type_lookup_def)
qed

lemma install_insn_last:
  assumes "install_insn ip (s\<lparr>gs_frags := fs @ [f]\<rparr>) = Inr ((), s')" "cl_frag ip = Some (length fs)"
    "fr_literal f = lit @ old" "length old = 4" "frag_offset ip = length lit"
  shows "s' = s\<lparr>gs_frags := fs @ [f\<lparr>fr_literal := lit @ word_bytes (insn_word ip)\<rparr>]\<rparr>"
  using assms install_insn_ok [of ip "length fs" "s\<lparr>gs_frags := fs @ [f]\<rparr>"] splice_end [of "word_bytes (insn_word ip)" old lit]
  by simp

lemma emit_insn:
  assumes "rbind (add_fixed_insn ip s) (\<lambda>(ip, s). install_insn ip s) = Inr ((), s')"
    and "fixptr ip = None \<and> fxs = [] \<or> fixptr ip = Some (length gs) \<and> fxs = [fx]" "gs_fixes s = gs @ fxs"
  obtains fs f rs where "grown (gs_frags s) (fs @ [f])"
    "s' = s\<lparr>gs_frags := fs @ [f\<lparr>fr_literal := fr_literal f @ word_bytes (insn_word ip)\<rparr>], gs_rooms := rs,
       gs_fixes := gs @ map (\<lambda>fx. fx\<lparr>fx_frag := Some (length fs), fx_where := length (fr_literal f)\<rparr>) fxs\<rparr>"
proof -
  obtain a s1 ip2 s2 where m: "frag_more 4 s = Inr (a, s1)" "move_insn ip (frag_now s1) a s1 = Inr (ip2, s2)"
    "install_insn ip2 s2 = Inr ((), s')"
    using assms(1) by (auto simp: add_fixed_insn_def rbind_Inr_iff)
  obtain fs f rs where s1: "s1 = s\<lparr>gs_frags := fs @ [f\<lparr>fr_literal := fr_literal f @ replicate 4 0\<rparr>], gs_rooms := rs\<rparr>"
    and g: "grown (gs_frags s) (fs @ [f])" and a: "a = length (fr_literal f)"
    using m(1) by (rule frag_more_grown)
  define fxs' where "fxs' = map (\<lambda>fx. fx\<lparr>fx_frag := Some (length fs), fx_where := length (fr_literal f)\<rparr>) fxs"
  define s3 where "s3 = s\<lparr>gs_rooms := rs, gs_fixes := gs @ fxs'\<rparr>"
  define ip' where "ip' = ip\<lparr>cl_frag := Some (length fs), frag_offset := a\<rparr>"
  have ip': "cl_frag ip' = Some (length fs)" "frag_offset ip' = length (fr_literal f)" "insn_word ip' = insn_word ip"
    by (simp_all add: ip'_def a)
  have fxd: "(case fixptr ip' of None \<Rightarrow> gret () | Some n \<Rightarrow> upd_fix n (\<lambda>fix. fix\<lparr>fx_frag := Some (length fs), fx_where := a\<rparr>)) s1 =
      Inr ((), s3\<lparr>gs_frags := fs @ [f\<lparr>fr_literal := fr_literal f @ replicate 4 0\<rparr>]\<rparr>)"
    using assms(2,3) by (auto simp: ip'_def s1 s3_def fxs'_def upd_fix_def a intro!: gas_state.equality)
  have "install_insn ip' (s3\<lparr>gs_frags := fs @ [f\<lparr>fr_literal := fr_literal f @ replicate 4 0\<rparr>]\<rparr>) = Inr ((), s2)" "ip2 = ip'"
    using m(2) fxd by (auto simp: move_insn_def ip'_def [symmetric] s1 frag_now_def rbind_Inr_iff Let_def)
  from install_insn_last [OF this(1) ip'(1), of "fr_literal f" "replicate 4 0"] ip'(2,3) this(2)
  have s2: "s2 = s3\<lparr>gs_frags := fs @ [f\<lparr>fr_literal := fr_literal f @ word_bytes (insn_word ip)\<rparr>]\<rparr>" "ip2 = ip'" by simp_all
  from install_insn_last [OF m(3) [unfolded s2] ip'(1), of "fr_literal f" "word_bytes (insn_word ip)"] ip'(2,3)
  have "s' = s3\<lparr>gs_frags := fs @ [f\<lparr>fr_literal := fr_literal f @ word_bytes (insn_word ip)\<rparr>]\<rparr>" by simp
  then show ?thesis
    by (intro that [OF g, of rs]) (auto simp: s3_def fxs'_def intro!: gas_state.equality)
qed

lemma fix_ok_grown:
  assumes "fix_ok gs fx" "grown gs (fs @ [f])"
  shows "fix_ok (fs @ [f\<lparr>fr_literal := fr_literal f @ ext\<rparr>]) fx"
proof -
  obtain i where i: "i < length gs" "fx_frag fx = Some i" "fx_where fx + 4 \<le> length (fr_literal (gs ! i))"
    using assms(1) by (auto simp: fix_ok_def)
  obtain k where k: "map fr_literal (fs @ [f]) = map fr_literal gs @ replicate k []" using assms(2) by (auto simp: grown_def)
  have len: "i < length (fs @ [f])" using arg_cong [OF k, of length] i(1) by simp
  have "fr_literal ((fs @ [f]) ! i) = (map fr_literal gs @ replicate k []) ! i" unfolding k [symmetric] using len by (subst nth_map) simp_all
  also have "\<dots> = fr_literal (gs ! i)" using i(1) by (simp add: nth_append)
  finally have "fx_where fx + 4 \<le> length (fr_literal ((fs @ [f\<lparr>fr_literal := fr_literal f @ ext\<rparr>]) ! i))"
    using i(3) len by (cases "i < length fs") (auto simp: nth_append less_Suc_eq)
  with i(2) len assms(1) show ?thesis by (auto simp: fix_ok_def)
qed

lemma grown_aligned:
  assumes "grown gs (fs @ [f])" "\<forall>g \<in> set gs. 4 dvd length (fr_literal g)"
  shows "\<forall>g \<in> set fs. 4 dvd length (fr_literal g)" "4 dvd length (fr_literal f)"
proof -
  obtain k where k: "map fr_literal (fs @ [f]) = map fr_literal gs @ replicate k []" using assms(1) by (auto simp: grown_def)
  have "\<forall>l \<in> set (map fr_literal (fs @ [f])). 4 dvd length l" unfolding k using assms(2) by auto
  then show "\<forall>g \<in> set fs. 4 dvd length (fr_literal g)" "4 dvd length (fr_literal f)" by simp_all
qed

lemma emit_extends:
  assumes "grown (gs_frags s) (fs @ [f])" "\<forall>fx \<in> set fxs. fx_size fx \<le> 4 \<and> fx_r_type fx \<in> insert BFD_RELOC_RVA port_relocs \<and> \<not> fx_done fx" "length fxs \<le> 1"
    and "gs_frags s' = fs @ [f\<lparr>fr_literal := fr_literal f @ word_bytes w\<rparr>]"
    and "gs_fixes s' = gs_fixes s @ map (\<lambda>fx. fx\<lparr>fx_frag := Some (length fs), fx_where := length (fr_literal f)\<rparr>) fxs"
    and "pending_reloc s' = pending_reloc s" "tables_ready s' = tables_ready s"
  shows "extends s s'"
  unfolding extends_def
proof (intro impI conjI)
  assume ok: "state_ok s"
  obtain k where k: "map fr_literal (fs @ [f]) = map fr_literal (gs_frags s) @ replicate k []" using assms(1) by (auto simp: grown_def)
  have c: "closed_ok (gs_frags s')" using ok assms(1) by (simp add: state_ok_def grown_def closed_ok_def assms(4))
  note al = grown_aligned [OF assms(1)]
  have new: "fix_ok (gs_frags s') (fx\<lparr>fx_frag := Some (length fs), fx_where := length (fr_literal f)\<rparr>)" if "fx \<in> set fxs" for fx
    using assms(2) that al(2) ok by (auto simp: fix_ok_def assms(4) state_ok_def)
  have grown: "fix_ok (fs @ [f\<lparr>fr_literal := fr_literal f @ ext\<rparr>]) fx" if "fx \<in> set (gs_fixes s)" for fx ext
    using ok that by (intro fix_ok_grown [OF _ assms(1)]) (simp add: state_ok_def)
  have "(Some (length fs), length (fr_literal f)) \<noteq> fix_place fx" if "fx \<in> set (gs_fixes s)" for fx
    using grown [OF that, of "[]"] by (auto simp: fix_ok_def fix_place_def)
  then have "(Some (length fs), length (fr_literal f)) \<notin> fix_place ` set (gs_fixes s)" by blast
  then have "distinct (map fix_place (gs_fixes s'))" using ok assms(3)
    by (cases fxs) (simp_all add: state_ok_def assms(5) fix_place_def [of "_\<lparr>fx_where := _\<rparr>"])
  with grown new c al ok assms(6,7) show "state_ok s'" by (auto simp: state_ok_def assms(5)) (auto simp: assms(4))
  have "concat (map fr_literal (fs @ [f])) = section_bytes s" by (simp only: k) (simp add: section_bytes_def)
  then have "section_bytes s' = section_bytes s @ concat (map word_bytes [w])" by (simp add: section_bytes_def assms(4))
  then show "\<exists>ws. section_bytes s' = section_bytes s @ concat (map word_bytes ws)" ..
  show "\<exists>fxs. gs_fixes s' = gs_fixes s @ fxs" using assms(5) by blast
qed

lemma append_insn_extends:
  assumes "fixptr ip = None" "r = BFD_RELOC_UNUSED \<or> r \<in> port_relocs"
  shows "within extends (append_insn ip e r)"
  unfolding within_def
proof (intro allI impI)
  fix s x s' assume a: "append_insn ip e r s = Inr (x, s')"
  show "extends s s'"
  proof (cases "r = BFD_RELOC_UNUSED")
    case True
    then have "rbind (add_fixed_insn ip s) (\<lambda>(ip, s). install_insn ip s) = Inr ((), s')" using a by (simp add: append_insn_def)
    from emit_insn [OF this, of "[]" "gs_fixes s" undefined] assms(1) obtain fs f rs where "grown (gs_frags s) (fs @ [f])"
      "s' = s\<lparr>gs_frags := fs @ [f\<lparr>fr_literal := fr_literal f @ word_bytes (insn_word ip)\<rparr>], gs_rooms := rs, gs_fixes := gs_fixes s\<rparr>"
      by auto
    then show ?thesis by (intro emit_extends [of s fs f "[]" s' "insn_word ip"]) simp_all
  next
    case False
    then obtain howto sz n e' s1 s2 where h: "fusion_reloc_type_lookup r = Inr (Some howto)" "bfd_get_reloc_size howto = Inr sz"
      "fix_new_exp (cl_frag ip) (frag_offset ip) sz (the e) False r s = Inr ((n, e'), s1)"
      "upd_fix n (\<lambda>fix. fix\<lparr>fx_tcbit := False\<rparr>) s1 = Inr ((), s2)"
      "rbind (add_fixed_insn (ip\<lparr>fixptr := Some n\<rparr>) s2) (\<lambda>(ip, s). install_insn ip s) = Inr ((), s')"
      using a by (auto simp: append_insn_def rbind_Inr_iff split: option.splits if_splits)
    obtain fx where fx: "n = length (gs_fixes s)" "gs_fixes s1 = gs_fixes s @ [fx]" "same_but_fixes s s1" "fx_size fx = sz"
      "fx_r_type fx = r \<or> fx_r_type fx = BFD_RELOC_RVA" "\<not> fx_done fx"
      using h(3) by (rule fix_new_exp_adds)
    then have s2: "gs_fixes s2 = gs_fixes s @ [fx\<lparr>fx_tcbit := False\<rparr>]" "gs_frags s2 = gs_frags s"
      "pending_reloc s2 = pending_reloc s" "tables_ready s2 = tables_ready s"
      using h(4) by (auto simp: upd_fix_def rbind_Inr_iff same_but_fixes_def)
    have "sz \<le> 4" using table_reloc_sizes [OF lookup_in_table [OF h(1)] h(2)] .
    moreover obtain fs f rs where "grown (gs_frags s) (fs @ [f])"
      "s' = s2\<lparr>gs_frags := fs @ [f\<lparr>fr_literal := fr_literal f @ word_bytes (insn_word ip)\<rparr>], gs_rooms := rs,
         gs_fixes := gs_fixes s @ map (\<lambda>fx. fx\<lparr>fx_frag := Some (length fs), fx_where := length (fr_literal f)\<rparr>) [fx\<lparr>fx_tcbit := False\<rparr>]\<rparr>"
      using emit_insn [OF h(5), of "[fx\<lparr>fx_tcbit := False\<rparr>]" "gs_fixes s" "fx\<lparr>fx_tcbit := False\<rparr>"] s2 fx(1) by auto
    ultimately show ?thesis
      by (intro emit_extends [of s fs f "[fx\<lparr>fx_tcbit := False\<rparr>]" s' "insn_word ip"]) (use assms(2) False fx(5) in \<open>auto simp: fx(4,6) s2\<close>)
  qed
qed

lemma find_op_ready: "find_op nm s = Inr (r, s') \<Longrightarrow> tables_ready s \<Longrightarrow> tables_ready s'"
  by (rule find_op_ok [of s nm]) (auto intro: tables_ready_op)

lemma within_find_op: "within extends (find_op nm)"
proof -
  have "extends s s'" if "find_op nm s = Inr (r, s')" for s r s'
    using that find_op_ready [OF that]
    by (intro extends_same) (auto simp: find_op_def rbind_Inr_iff split: option.splits)
  then show ?thesis by (auto simp: within_def)
qed

lemma macro_args_reloc: "macro_args fmt args has_ep w r = Inr (w', r') \<Longrightarrow> r' = r \<or> Arg_reloc r' \<in> set args"
  by (induction fmt args has_ep w r rule: macro_args.induct) (auto split: if_splits list.splits macro_arg.splits)

lemma macro_build_extends:
  assumes "\<And>r. Arg_reloc r \<in> set args \<Longrightarrow> r \<in> port_relocs"
  shows "within extends (macro_build ep nm fmt args)"
  unfolding within_def
proof (intro allI impI)
  fix s x s' assume "macro_build ep nm fmt args s = Inr (x, s')"
  then obtain mo w r t where m: "find_op nm s = Inr (Some mo, t)" "append_insn ((create_insn mo)\<lparr>insn_word := w\<rparr>) ep r t = Inr (x, s')"
    "macro_args fmt args (ep \<noteq> None) (macro_word mo) BFD_RELOC_UNUSED = Inr (w, r)"
    by (auto simp: macro_build_def rbind_Inr_iff split: option.splits if_splits)
  have "within extends (append_insn ((create_insn mo)\<lparr>insn_word := w\<rparr>) ep r)"
    using macro_args_reloc [OF m(3)] assms by (intro append_insn_extends) (auto simp: create_insn_def)
  with m(1,2) within_find_op [of nm] have "extends s t" "extends t s'" unfolding within_def by blast+
  then show "extends s s'" by (rule extends_trans)
qed

lemmas within_extends = ext.within_parts within_find_op append_insn_extends macro_build_extends

lemma macro_extends: "within extends (macro ip e)"
  unfolding macro_def load_address_def load_const_def fusion_call_def fusion_return_def Let_def
  by (intro within_extends) (auto simp: port_relocs_def)

lemma return_reloc_port: "return_reloc insn s = Inr (r, s') \<Longrightarrow> r = BFD_RELOC_UNUSED \<or> r \<in> port_relocs"
  by (auto simp: return_reloc_def port_relocs_def Let_def split: if_splits)

lemma build_word_parts:
  "build_word ip reloc ops s = Inr ((ip', e, r), s') \<Longrightarrow> fixptr ip' = fixptr ip \<and> (r = reloc \<or> r \<in> port_relocs)"
  by (auto simp: build_word_def rbind_Inr_iff port_relocs_def Let_def split: if_splits)

lemma assemble_insn_bin_parts:
  assumes "assemble_insn_bin expression p ip e0 s = Inr (Some (ip', e, r), s')"
  shows "fixptr ip' = fixptr ip" "r = BFD_RELOC_UNUSED \<or> r \<in> port_relocs"
proof -
  obtain reloc t ops t' where "return_reloc (insn_mo ip) s = Inr (reloc, t)" "build_word ip reloc ops t' = Inr ((ip', e, r), s')"
    using assms by (auto simp: assemble_insn_bin_def rbind_Inr_iff Let_def split: if_splits option.splits)
  from return_reloc_port [OF this(1)] build_word_parts [OF this(2)]
  show "fixptr ip' = fixptr ip" "r = BFD_RELOC_UNUSED \<or> r \<in> port_relocs" by auto
qed

lemma emit_line_extends:
  assumes "within extends expression"
  shows "within extends (emit_line expression e0 p insn)"
  unfolding within_def
proof (intro allI impI)
  fix s x s' assume a: "emit_line expression e0 p insn s = Inr (x, s')"
  obtain r s1 where r: "assemble_insn_bin expression p (create_insn insn) e0 s = Inr (r, s1)"
    using a by (auto simp: emit_line_def rbind_Inr_iff)
  have 1: "extends s s1" using ext.within_assemble_insn_bin [OF assms] r by (auto simp: within_def)
  have "extends s1 s'"
  proof (cases r)
    case None
    then show ?thesis using a r by (auto simp: emit_line_def ext.R_msgs)
  next
    case (Some q)
    obtain ip e rl where q: "q = (ip, e, rl)" by (cases q)
    have fp: "fixptr ip = None" "rl = BFD_RELOC_UNUSED \<or> rl \<in> port_relocs"
      using assemble_insn_bin_parts [of expression p "create_insn insn" e0 s ip e rl s1] r Some q by (simp_all add: create_insn_def)
    define m where "m = (if opc_cpid (insn_mo ip) = CPID_MACRO then macro ip e
                else if opc_cpid (insn_mo ip) = CPID_MAIN then append_insn ip (Some e) rl
                else gfail (Fatal ''Unimplemented CPID''))"
    have "within extends m" unfolding m_def using fp by (intro within_extends macro_extends)
    moreover obtain s2 where "m s1 = Inr ((), s2)" "s' = s2 \<or> s' = s2\<lparr>gs_msgs := gs_msgs s2 @ [As_warn (''something forgot to clean up ooooooh'' @ [CHR 0x0A])]\<rparr>"
      using a r Some q by (auto simp: emit_line_def m_def [symmetric] rbind_Inr_iff split: if_splits)
    ultimately have "extends s1 s2" "extends s2 s'" by (auto simp: within_def extends_refl intro: ext.R_msgs)
    then show ?thesis by (rule extends_trans)
  qed
  with 1 show "extends s s'" by (rule extends_trans)
qed

lemma md_assemble_extends:
  assumes "within extends expression"
  shows "within extends (md_assemble expression e0 p)"
proof -
  have "within extends (\<lambda>s. Inr (take (q - p) (drop p (gs_buf s)), s))" for p q
    by (auto simp: within_def extends_refl)
  then show ?thesis
    unfolding md_assemble_def c_string_def by (intro within_extends emit_line_extends assms)
qed

subsection \<open>Runs of the port\<close>

lemma reg_lookup_ready:
  assumes "reg_lookup_internal nm regf s = Inr (r, s')" "tables_ready s"
  shows "tables_ready s'"
proof -
  obtain t where t: "reg_names_hash s = Some t" "hash_ok t" "hash_abs t = reg_map" using assms(2) by (auto simp: tables_ready_def)
  from gh.find_abs [OF t(2), of nm] obtain t' where "hash_find t nm = Inr (reg_map (c_str nm), t')" "hash_ok t'" "hash_abs t' = reg_map"
    by (auto simp: t(3))
  with assms t(1) show ?thesis by (auto simp: reg_lookup_internal_def tables_ready_def Let_def split: option.splits if_splits)
qed

lemma within_reg_lookup: "within extends (reg_lookup_internal nm regf)"
proof -
  have "extends s s'" if "reg_lookup_internal nm regf s = Inr (r, s')" for s r s'
    using that reg_lookup_ready [OF that]
    by (intro extends_same) (auto simp: reg_lookup_internal_def rbind_Inr_iff Let_def split: option.splits if_splits)
  then show ?thesis by (auto simp: within_def)
qed

lemma within_dw2regnum: "within extends (tc_fusion_regname_to_dw2regnum nm)"
  unfolding tc_fusion_regname_to_dw2regnum_def by (intro ext.within_parts within_reg_lookup)

lemma state_ok_start:
  assumes "md_begin arch_ok s = Inr ((), s')" "gs_frags s = [empty_frag]" "gs_fixes s = []" "\<not> pending_reloc s"
  shows "state_ok s' \<and> section_bytes s' = []"
proof (rule md_begin_ok [of arch_ok s])
  fix t assume t: "md_begin arch_ok s = Inr ((), t)" "tables_ready t" "t = s\<lparr>gs_msgs := gs_msgs t, gs_text_align := gs_text_align t,
    op_hash_ctrl := op_hash_ctrl t, reg_names_hash := reg_names_hash t\<rparr>"
  have "gs_frags t = [empty_frag]" "gs_fixes t = []" "\<not> pending_reloc t" by (subst t(3), simp add: assms(2-4))+
  moreover have "t = s'" using t(1) assms(1) by simp
  ultimately show ?thesis using t(2) by (simp add: state_ok_def closed_ok_def section_bytes_def empty_frag_def)
qed

lemma concat_word_bytes: "length (concat (map word_bytes ws)) = 4 * length ws"
  by (induction ws) simp_all

lemma assembled_inv:
  assumes "within extends expression" "assembled expression s"
  shows "state_ok s \<and> (\<exists>ws. section_bytes s = concat (map word_bytes ws))"
  using assms(2)
proof induction
  case (start arch_ok s s')
  then show ?case using state_ok_start [of arch_ok s s'] by (auto intro: exI [of _ "[]"])
next
  case (line s e0 p l q buf s')
  have "extends s (s\<lparr>gs_buf := buf, gs_ilp := q, gs_limit := l\<rparr>)" by (rule extends_same) simp_all
  moreover have "extends (s\<lparr>gs_buf := buf, gs_ilp := q, gs_limit := l\<rparr>) s'"
    using md_assemble_extends [OF assms(1)] line.hyps(2) by (auto simp: within_def)
  ultimately have "extends s s'" by (rule extends_trans)
  with line.IH show ?case by (auto simp: extends_def simp flip: concat_append map_append)
next
  case (debug_register s nm r s')
  then have "extends s s'" using within_dw2regnum by (auto simp: within_def)
  with debug_register.IH show ?case by (auto simp: extends_def simp flip: concat_append map_append)
qed

text \<open>A run with one line that has a fixup.\<close>

lemma one_line:
  obtains e s s' where "e = (\<lambda>s. Inr (no_expr\<lparr>X_op := O_constant, X_add_number := 0x20001\<rparr>, s))"
    "md_begin True (start_state (''lui sp,$'' @ [NUL])) = Inr ((), s)" "md_assemble e no_expr 0 s = Inr ((), s')"
    "within extends e" "assembled e s'" "length (gs_fixes s') = 1" "\<forall>fx \<in> set (gs_fixes s'). fx_r_type fx = BFD_RELOC_FUSION_HI16"
proof -
  let ?ex = "no_expr\<lparr>X_op := O_constant, X_add_number := 0x20001\<rparr>"
  let ?e = "\<lambda>s. Inr (?ex, s) :: (expressionS \<times> gas_state) result"
  define mo where "mo = opc_info ''lui'' 0x4 USE_RDI FRMT_LI CPID_MAIN MASK_IMM_LI OPC_LI"
  obtain s where s: "md_begin True (start_state (''lui sp,$'' @ [NUL])) = Inr ((), s)" "tables_ready s"
    "gs_buf s = ''lui sp,$'' @ [NUL]" "\<forall>n \<le> 64. roomy n s" "\<not> pending_reloc s" "section_bytes s = []" "gs_fixes s = []"
    by (rule start_ready)
  have mo: "mo \<in> set operand_insns" "opc_name mo = Some ''lui''" "opc_args mo = USE_RDI" "opc_opc mo = OPC_LI" "opc_index mo = 4"
    by (simp_all add: mo_def operand_insns_def named_insns_def fusion_insn_all_def opc_info_def opc_info_zero_def isa_defs)
  have dr: "drop 0 (gs_buf s) = ''lui'' @ '' '' @ operand_text (opc_args mo) 1 0 0 ''$'' @ NUL # []"
    by (simp add: s(3) mo(3) operand_text_def fusion_gpreg_name_def isa_defs)
  have ro: "registers_ok (opc_args mo) 1 0 0" by (simp add: mo(3) registers_ok_def unused_zero_def isa_defs)
  have im: "immediate_ok ?e mo 0 ''$'' [] ?ex"
    by (auto simp: immediate_ok_def starts_operand_def blank_def simple_expr_def reads_def NUL_def)
  have ar: "opc_args mo \<noteq> USE_RDAB" by (simp add: mo(3) isa_defs)
  have rm: "roomy 4 s" using s(4) by simp
  obtain h r s' where s': "md_assemble ?e no_expr 0 s = Inr ((), s')"
    "emitted (encode (line_insn mo 1 0 0 (X_add_number ?ex))) (line_fix mo ?ex) (s\<lparr>op_hash_ctrl := h, expr_end := r\<rparr>) s'"
    using s(2) rm s(5) mo(1,2) dr ro im ar by (rule line_emitted)
  have fx: "line_fix mo ?ex = Some (insn_fix ?ex BFD_RELOC_FUSION_HI16)"
    using ar by (simp add: line_fix_def line_reloc_def mo opc_defs)
  have "assembled ?e s" by (rule assembled.start [OF s(1)]) (simp_all add: start_state_def)
  then have as: "assembled ?e s'" using s'(1) assembled.line [of ?e s no_expr 0 "gs_limit s" "gs_ilp s" "gs_buf s" s'] by simp
  show ?thesis
    by (rule that [OF refl s(1) s'(1) _ as])
       (use emitted_fields(10) [OF s'(2) fx] s(7) in \<open>auto simp: within_def extends_refl insn_fix_def place_fix_def\<close>)
qed

text \<open>
  C7: the invariant of the assembler. Whatever lines a run of the port reads, accepted or rejected, with
  any reader of expressions that itself respects the invariant: the tables keep
  all names, the section consists of whole instruction words, every fixup covers a word of
  an existing fragment, is not done and has a relocation of the port, and no two fixups are at the same place.
\<close>

theorem assembled_state_ok:
  assumes "within extends expression" "assembled expression s"
  shows "tables_ready s \<and> (\<exists>ws. section_bytes s = concat (map word_bytes ws)) \<and>
    (\<forall>fx \<in> set (gs_fixes s). fix_ok (gs_frags s) fx) \<and> distinct (map fix_place (gs_fixes s))"
  using assembled_inv [OF assms] by (simp add: state_ok_def)

theorem assembled_state_ok_witness:
  "\<exists>s s' expression. expression = (\<lambda>s. Inr (no_expr\<lparr>X_op := O_constant, X_add_number := 0x20001\<rparr>, s)) \<and>
    md_begin True (start_state (''lui sp,$'' @ [NUL])) = Inr ((), s) \<and> md_assemble expression no_expr 0 s = Inr ((), s') \<and>
    length (gs_fixes s') = 1 \<and> (\<forall>fx \<in> set (gs_fixes s'). fix_ok (gs_frags s') fx)"
proof (rule one_line, goal_cases)
  case (1 e s s')
  with assembled_state_ok [OF 1(4,5)] show ?case by blast
qed

end
