(* ===== verification/Gas_Fixups.thy ===== *)
theory Gas_Fixups
  imports Gas_Write Tc_Invariant
begin

text \<open>
  The pass over the fixups on the states that a run of the port reaches. \<open>patched\<close> relates the
  states before and after a part of the pass and interprets the locale of step relations;
  \<open>settled\<close> says what the pass owes every fixup.
\<close>

subsection \<open>Specification\<close>

text \<open>The bytes that the fixups of a list cover.\<close>

definition covered :: "fixS list \<Rightarrow> nat \<Rightarrow> nat \<Rightarrow> bool" where
  "covered fs i k \<longleftrightarrow> (\<exists>(j, w) \<in> set (map fix_place fs). j = Some i \<and> w \<le> k \<and> k < w + 4)"

definition frag_patched :: "(nat \<Rightarrow> bool) \<Rightarrow> fragS \<Rightarrow> fragS \<Rightarrow> bool" where
  "frag_patched P f g \<longleftrightarrow> fr_address g = fr_address f \<and> fr_fix g = fr_fix f \<and> length (fr_literal g) = length (fr_literal f) \<and>
     (\<forall>k < length (fr_literal f). \<not> P k \<longrightarrow> fr_literal g ! k = fr_literal f ! k)"

definition same_fixes :: "fixS list \<Rightarrow> fixS list \<Rightarrow> bool" where
  "same_fixes fs gs \<longleftrightarrow> map fix_place gs = map fix_place fs \<and> map fx_r_type gs = map fx_r_type fs \<and> map fx_size gs = map fx_size fs"

definition patched :: "gas_state \<Rightarrow> gas_state \<Rightarrow> bool" where
  "patched s s' \<longleftrightarrow> same_fixes (gs_fixes s) (gs_fixes s') \<and> gs_used s \<subseteq> gs_used s' \<and> length (gs_frags s') = length (gs_frags s) \<and>
     (\<forall>i < length (gs_frags s). frag_patched (covered (gs_fixes s) i) (gs_frags s ! i) (gs_frags s' ! i))"

definition place_ok :: "fragS list \<Rightarrow> nat option \<times> nat \<Rightarrow> bool" where
  "place_ok fs p \<longleftrightarrow> (\<exists>i < length fs. fst p = Some i \<and> snd p + 4 \<le> length (fr_literal (fs ! i)))"

definition pass_ok :: "gas_state \<Rightarrow> bool" where
  "pass_ok s \<longleftrightarrow> (\<forall>r \<in> set (map fx_r_type (gs_fixes s)). r \<in> port_relocs) \<and>
     (\<forall>p \<in> set (map fix_place (gs_fixes s)). place_ok (gs_frags s) p)"

definition settled :: "nat set \<Rightarrow> fixS \<Rightarrow> bool" where
  "settled used fx \<longleftrightarrow> fx_done fx \<or> (\<exists>y \<in> used. fx_addsy fx = Some y \<and> set_option (fx_subsy fx) \<subseteq> used)"

text \<open>What a routine applied to the fixup \<open>n\<close> may change.\<close>

definition applied :: "nat \<Rightarrow> fixS \<Rightarrow> (unit \<times> gas_state) result \<Rightarrow> gas_state \<Rightarrow> bool" where
  "applied n fx m s \<longleftrightarrow> (\<exists>w ms d. m = Inr ((), (put_insn fx w s)\<lparr>gs_fixes := (gs_fixes s)[n := fx\<lparr>fx_done := d\<rparr>], gs_msgs := ms\<rparr>) \<and>
     (fx_done fx \<longrightarrow> d))"

definition same_fix :: "fixS \<Rightarrow> fixS \<Rightarrow> bool" where
  "same_fix fx fx' \<longleftrightarrow> fx_frag fx' = fx_frag fx \<and> fx_where fx' = fx_where fx \<and> fx_r_type fx' = fx_r_type fx \<and> fx_size fx' = fx_size fx"

section \<open>Properties\<close>

subsection \<open>Composition of the steps\<close>

lemma same_fixes_covered: "same_fixes fs gs \<Longrightarrow> covered gs = covered fs"
  by (intro ext) (simp only: same_fixes_def covered_def)

lemma frag_patched_trans: "frag_patched P f g \<Longrightarrow> frag_patched P g h \<Longrightarrow> frag_patched P f h"
  by (simp add: frag_patched_def)

lemma patched_refl: "patched s s"
  by (simp add: patched_def same_fixes_def frag_patched_def)

lemma same_fixes_trans: "same_fixes fs gs \<Longrightarrow> same_fixes gs hs \<Longrightarrow> same_fixes fs hs"
  by (simp only: same_fixes_def)

lemma patched_trans:
  assumes "patched s t" "patched t u"
  shows "patched s u"
proof -
  note st = assms(1) [unfolded patched_def] and tu = assms(2) [unfolded patched_def]
  have c: "covered (gs_fixes t) = covered (gs_fixes s)" using st by (blast intro: same_fixes_covered)
  have "frag_patched (covered (gs_fixes s) i) (gs_frags s ! i) (gs_frags u ! i)" if "i < length (gs_frags s)" for i
    by (rule frag_patched_trans [of _ _ "gs_frags t ! i"]) (use st tu [unfolded c] that in \<open>simp_all only:\<close>)
  moreover have "same_fixes (gs_fixes s) (gs_fixes u)" using st tu by (blast intro: same_fixes_trans)
  ultimately show ?thesis using st tu unfolding patched_def by auto
qed

interpretation pass: step_relation patched
  by unfold_locales (rule patched_refl, rule patched_trans)

lemma pass_ok_patched:
  assumes "patched s s'" "pass_ok s"
  shows "pass_ok s'"
proof -
  have "place_ok (gs_frags s') p" if "place_ok (gs_frags s) p" for p
    using that assms(1) by (auto simp: place_ok_def patched_def frag_patched_def)
  with assms show ?thesis by (simp only: pass_ok_def patched_def same_fixes_def) blast
qed

lemma word_of_bytes:
  assumes "length bs = 4"
  shows "\<exists>w. word_bytes w = bs"
proof -
  obtain a b c d where bs: "bs = [a, b, c, d]" using assms by (auto simp: numeral_eq_Suc length_Suc_conv)
  have "word_bytes (push_bit 24 (ucast a) OR push_bit 16 (ucast b) OR push_bit 8 (ucast c) OR ucast d) = bs"
    unfolding bs word_bytes_def by (auto simp: word_bits)
  then show ?thesis ..
qed

lemma place_ok_insn: "place_ok (gs_frags s) (fix_place fx) \<Longrightarrow> \<exists>w. insn_place s fx w"
proof -
  assume "place_ok (gs_frags s) (fix_place fx)"
  then obtain i where i: "i < length (gs_frags s)" "fx_frag fx = Some i" "fx_where fx + 4 \<le> length (fr_literal (gs_frags s ! i))"
    by (auto simp: place_ok_def fix_place_def)
  then obtain w where "word_bytes w = take 4 (drop (fx_where fx) (fr_literal (gs_frags s ! i)))"
    using word_of_bytes [of "take 4 (drop (fx_where fx) (fr_literal (gs_frags s ! i)))"] by auto
  with i show ?thesis unfolding insn_place_def by metis
qed

lemma put_insn_patched:
  assumes "insn_place s fx w0" "fx = gs_fixes s ! n" "n < length (gs_fixes s)"
    and "fix_place fx' = fix_place fx" "fx_r_type fx' = fx_r_type fx" "fx_size fx' = fx_size fx" "gs_used s \<subseteq> us"
  shows "patched s ((put_insn fx w s)\<lparr>gs_fixes := (gs_fixes s)[n := fx'], gs_msgs := ms, gs_used := us\<rparr>)"
proof -
  obtain i where i: "i < length (gs_frags s)" "fx_frag fx = Some i" "fx_where fx + 4 \<le> length (fr_literal (gs_frags s ! i))"
    using assms(1) by (auto simp: insn_place_def)
  have c: "covered (gs_fixes s) i k" if "fx_where fx \<le> k" "k < fx_where fx + 4" for k
    using that i(2) nth_mem [OF assms(3)] unfolding assms(2) [symmetric] covered_def fix_place_def by force
  have same: "map f ((gs_fixes s)[n := fx']) = map f (gs_fixes s)" if "f fx' = f fx" for f :: "fixS \<Rightarrow> 'a"
    using that assms(2,3) by (simp add: map_update list_update_same_conv)
  have "frag_patched (covered (gs_fixes s) j) (gs_frags s ! j) (gs_frags (put_insn fx w s) ! j)" if "j < length (gs_frags s)" for j
    using i c that by (cases "j = i") (auto simp: frag_patched_def put_insn_def upd_frag_def nth_splice)
  then show ?thesis using assms(4-7) by (simp add: patched_def same_fixes_def same)
qed

subsection \<open>The port applies every fixup\<close>

lemma const_reloc_total:
  "r \<in> {BFD_RELOC_FUSION_12, BFD_RELOC_FUSION_LOAD, BFD_RELOC_FUSION_STORE, BFD_RELOC_16, BFD_RELOC_FUSION_HI16, BFD_RELOC_8,
     BFD_RELOC_FUSION_21} \<Longrightarrow> \<exists>w. fusion_apply_const_reloc r v = Inr w"
  by (auto simp: fusion_apply_const_reloc_def)

lemma appliedI:
  "m = Inr ((), (put_insn fx w s)\<lparr>gs_fixes := (gs_fixes s)[n := fx\<lparr>fx_done := d\<rparr>], gs_msgs := ms\<rparr>) \<Longrightarrow>
   (fx_done fx \<longrightarrow> d) \<Longrightarrow> applied n fx m s"
  unfolding applied_def by blast

lemma gas_update_same:
  "n < length (gs_fixes s) \<Longrightarrow> gs_fixes s ! n = fx \<Longrightarrow>
   (put_insn fx w s)\<lparr>gs_fixes := (gs_fixes s)[n := fx\<lparr>fx_done := fx_done fx\<rparr>], gs_msgs := gs_msgs s\<rparr> = put_insn fx w s"
  by (auto simp: put_insn_def upd_frag_def intro!: gas_state.equality)

lemma applied_msgs: "applied n fx m (s\<lparr>gs_msgs := ms\<rparr>) \<Longrightarrow> applied n fx m s"
  by (simp add: applied_def put_insn_def upd_frag_def)

lemma applied_none:
  assumes "n < length (gs_fixes s)" "gs_fixes s ! n = fx" "insn_place s fx w"
  shows "applied n fx (Inr ((), s)) s"
  by (rule appliedI [where w = w and d = "fx_done fx" and ms = "gs_msgs s"])
     (unfold gas_update_same [OF assms(1,2)], simp_all add: put_insn_same [OF assms(3)])

lemma applied_or:
  assumes "n < length (gs_fixes s)" "gs_fixes s ! n = fx" "insn_place s fx w"
  shows "applied n fx (or_word fx x s) s"
  by (rule appliedI [where w = "w OR ucast x" and d = "fx_done fx" and ms = "gs_msgs s"])
     (unfold gas_update_same [OF assms(1,2)], simp_all add: or_word_ok [OF assms(3)])

lemma applied_bad_or:
  assumes "n < length (gs_fixes s)" "gs_fixes s ! n = fx" "insn_place s fx w"
  shows "applied n fx (gbind (if b then as_bad_where msg else gret ()) (\<lambda>_. or_word fx x) s) s"
proof (cases b)
  case True
  have "applied n fx (or_word fx x (s\<lparr>gs_msgs := gs_msgs s @ [As_bad msg]\<rparr>)) (s\<lparr>gs_msgs := gs_msgs s @ [As_bad msg]\<rparr>)"
    using assms by (intro applied_or [where w = w]) simp_all
  then show ?thesis using True by (auto simp: as_bad_where_def intro: applied_msgs)
next
  case False
  with applied_or [OF assms] show ?thesis by simp
qed

lemma applied_const:
  assumes "n < length (gs_fixes s)" "gs_fixes s ! n = fx" "insn_place s fx w" "\<exists>x. fusion_apply_const_reloc (fx_r_type fx) v = Inr x"
  shows "applied n fx (const_fixup n fx v s) s"
proof -
  obtain x where x: "fusion_apply_const_reloc (fx_r_type fx) v = Inr x" using assms(4) ..
  show ?thesis
    by (rule appliedI [where w = "w OR ucast (ucast x :: bfd_vma)" and d = "fx_done fx \<or> fx_addsy fx = None" and ms = "gs_msgs s"])
       (use assms(1-3) in \<open>auto simp: const_fixup_def x or_word_ok upd_fix_def put_insn_def upd_frag_def intro!: gas_state.equality\<close>)
qed

lemma applied_pcrel:
  assumes "n < length (gs_fixes s)" "gs_fixes s ! n = fx" "insn_place s fx w"
  shows "applied n fx (apply_pcrel gv fx v lo hi msg gen s) s"
proof -
  obtain fr where "frag_of fx s = Inr (fr, s)" using insn_place_frag [OF assms(3)] by blast
  then show ?thesis
    using applied_none [OF assms] applied_bad_or [OF assms]
    by (auto simp: apply_pcrel_def md_pcrel_from_def Let_def split: option.splits)
qed

lemma frag_of_addnumber [simp]: "frag_of (fx\<lparr>fx_addnumber := v\<rparr>) = frag_of fx"
  by (simp add: frag_of_def)

lemma place_addnumber [simp]:
  "insn_place s (fx\<lparr>fx_addnumber := v\<rparr>) w = insn_place s fx w" "put_insn (fx\<lparr>fx_addnumber := v\<rparr>) w s = put_insn fx w s"
  by (simp_all add: insn_place_def put_insn_def)

lemma or_word_addnumber [simp]: "or_word (fx\<lparr>fx_addnumber := v\<rparr>) = or_word fx"
  by (simp add: fun_eq_iff or_word_def)

lemma apply_addnumber:
  "apply_pcrel gv (fx\<lparr>fx_addnumber := v\<rparr>) = apply_pcrel gv fx" "const_fixup n (fx\<lparr>fx_addnumber := v\<rparr>) = const_fixup n fx"
proof -
  have "md_pcrel_from (fx\<lparr>fx_addnumber := v\<rparr>) = md_pcrel_from fx" by (simp add: md_pcrel_from_def)
  then show "apply_pcrel gv (fx\<lparr>fx_addnumber := v\<rparr>) = apply_pcrel gv fx" by (intro ext) (simp add: apply_pcrel_def split: option.split)
  show "const_fixup n (fx\<lparr>fx_addnumber := v\<rparr>) = const_fixup n fx" by (intro ext) (simp add: const_fixup_def)
qed

lemma apply_fix_returns:
  assumes "n < length (gs_fixes s)" "gs_fixes s ! n = fx" "insn_place s fx w" "fx_r_type fx \<in> port_relocs"
  obtains w ms d where "md_apply_fix gv n v s = Inr ((), (put_insn fx w s)
      \<lparr>gs_fixes := (gs_fixes s)[n := fx\<lparr>fx_addnumber := v, fx_done := d\<rparr>], gs_msgs := ms\<rparr>)"
proof -
  define fx1 where "fx1 = fx\<lparr>fx_addnumber := v\<rparr>"
  define t where "t = s\<lparr>gs_fixes := (gs_fixes s)[n := fx1]\<rparr>"
  have t: "n < length (gs_fixes t)" "gs_fixes t ! n = fx1" "insn_place t fx1 w"
    using assms(1-3) by (simp_all add: t_def fx1_def)
  obtain fr where fr: "frag_of fx s = Inr (fr, s)" using insn_place_frag [OF assms(3)] by blast
  have same: "const_fixup n fx1 = const_fixup n fx" "or_word fx1 = or_word fx" "apply_pcrel gv fx1 = apply_pcrel gv fx"
    by (simp_all add: fx1_def apply_addnumber)
  have "applied n fx1 (const_fixup n fx v t) t" if "fx_r_type fx \<in> {BFD_RELOC_FUSION_12, BFD_RELOC_FUSION_LOAD,
      BFD_RELOC_FUSION_STORE, BFD_RELOC_16, BFD_RELOC_FUSION_HI16, BFD_RELOC_8, BFD_RELOC_FUSION_21}"
    using applied_const [OF t, of v, unfolded same] const_reloc_total [OF that] by (simp add: fx1_def)
  then have "applied n fx1 (md_apply_fix gv n v s) t"
    using assms(1,2,4) fr applied_none [OF t] applied_bad_or [OF t, unfolded same] applied_pcrel [OF t, of gv v, unfolded same]
    unfolding port_relocs_def
    by (elim insertE emptyE)
       (simp_all add: md_apply_fix_def upd_fix_def t_def [symmetric] fx1_def [symmetric] Let_def split: option.splits)
  then show ?thesis
    by (auto simp: applied_def t_def fx1_def put_insn_def upd_frag_def intro: that)
qed

subsection \<open>The pass\<close>

lemma same_fix_trans: "same_fix fx fx' \<Longrightarrow> same_fix fx' fx'' \<Longrightarrow> same_fix fx fx''"
  by (simp add: same_fix_def)

lemma same_fix_place: "same_fix fx fx' \<Longrightarrow> insn_place s fx' w = insn_place s fx w" "same_fix fx fx' \<Longrightarrow> put_insn fx' w = put_insn fx w"
  by (simp_all add: same_fix_def insn_place_def put_insn_def)

lemma fixup_sub_returns:
  obtains fx' v ms where "fixup_sub tab fx a s = Inr ((fx', v), s\<lparr>gs_msgs := ms\<rparr>)" "same_fix fx fx'"
proof -
  have "\<exists>fx' v t. fixup_sub tab fx a s = Inr ((fx', v), t) \<and> t = s\<lparr>gs_msgs := gs_msgs t\<rparr> \<and> same_fix fx fx'"
    by (simp add: fixup_sub_def same_fix_def as_bad_where_def Let_def split: option.split)
  then obtain fx' v t where "fixup_sub tab fx a s = Inr ((fx', v), t)" "t = s\<lparr>gs_msgs := gs_msgs t\<rparr>" "same_fix fx fx'" by blast
  then show ?thesis using that [of fx' v "gs_msgs t"] by simp
qed

lemma fixup_add_returns:
  assumes "insn_place s fx w"
  obtains fx' v where "fixup_add tab seg fx a s = Inr ((fx', v), s)" "same_fix fx fx'"
proof -
  obtain fr where "frag_of fx s = Inr (fr, s)" using insn_place_frag [OF assms] by blast
  then have "\<exists>fx' v. fixup_add tab seg fx a s = Inr ((fx', v), s) \<and> same_fix fx fx'"
    by (auto simp: fixup_add_def same_fix_def md_pcrel_from_def Let_def frag_of_def split: option.split)
  with that show ?thesis by blast
qed

lemma fixup_pcrel_returns:
  assumes "insn_place s fx w"
  obtains fx' v where "fixup_pcrel b fx a s = Inr ((fx', v), s)" "same_fix fx fx'"
proof -
  obtain fr where "frag_of fx s = Inr (fr, s)" using insn_place_frag [OF assms] by blast
  then have "\<exists>fx' v. fixup_pcrel b fx a s = Inr ((fx', v), s) \<and> same_fix fx fx'"
    by (auto simp: fixup_pcrel_def same_fix_def md_pcrel_from_def)
  with that show ?thesis by blast
qed

lemma fixup_left_returns:
  assumes "n < length (gs_fixes s)"
  obtains fx' us where "fixup_left b n s = Inr ((), s\<lparr>gs_fixes := (gs_fixes s)[n := fx'], gs_used := us\<rparr>)" "same_fix (gs_fixes s ! n) fx'"
    "settled us fx'" "gs_used s \<subseteq> us"
proof (cases "fx_done (gs_fixes s ! n)")
  case True
  then show ?thesis using assms
    by (intro that [of "gs_used s" "gs_fixes s ! n"]) (simp_all add: fixup_left_def get_fix_def settled_def same_fix_def)
next
  case False
  define y where "y = (case fx_addsy (gs_fixes s ! n) of None \<Rightarrow> b | Some y \<Rightarrow> y)"
  define us where "us = set_option (fx_subsy (gs_fixes s ! n)) \<union> insert y (gs_used s)"
  show ?thesis
    by (rule that [of us "(gs_fixes s ! n)\<lparr>fx_addsy := Some y\<rparr>"])
       (use False assms in \<open>auto simp: fixup_left_def get_fix_def upd_fix_def symbol_mark_used_in_reloc_def y_def [symmetric]
          us_def settled_def same_fix_def Let_def insert_commute split: option.split\<close>)
qed

lemma fixup_apply_returns:
  assumes "u = s\<lparr>gs_msgs := ms, gs_fixes := (gs_fixes s)[n := fx']\<rparr>" "n < length (gs_fixes s)" "insn_place s fx w"
    and "fx_r_type fx \<in> port_relocs" "same_fix fx fx'"
  obtains w4 fx4 ms4 where "(if fx_done fx' then gret () else md_apply_fix gv n v) u =
    Inr ((), (put_insn fx w4 s)\<lparr>gs_fixes := (gs_fixes s)[n := fx4], gs_msgs := ms4\<rparr>)" "same_fix fx fx4"
proof (cases "fx_done fx'")
  case True
  have "put_insn fx w s = s" using assms(3) by (rule put_insn_same)
  with True that [of ms fx' w] assms(5) show ?thesis by (simp add: assms(1))
next
  case False
  have u: "n < length (gs_fixes u)" "gs_fixes u ! n = fx'" "insn_place u fx' w"
    using assms(2,3) by (simp_all add: assms(1) same_fix_place [OF assms(5)])
  have "fx_r_type fx' \<in> port_relocs" using assms(4,5) by (simp add: same_fix_def)
  with u obtain w4 ms4 d where "md_apply_fix gv n v u = Inr ((), (put_insn fx' w4 u)
    \<lparr>gs_fixes := (gs_fixes u)[n := fx'\<lparr>fx_addnumber := v, fx_done := d\<rparr>], gs_msgs := ms4\<rparr>)"
    by (rule apply_fix_returns)
  with False that [of ms4 "fx'\<lparr>fx_addnumber := v, fx_done := d\<rparr>" w4] assms(5) show ?thesis
    by (simp add: same_fix_place [OF assms(5)] assms(1) put_insn_def upd_frag_def same_fix_def)
qed

lemma fixup_step_returns:
  assumes "pass_ok s" "n < length (gs_fixes s)"
  obtains s' where "fixup_step tab b seg n s = Inr ((), s')" "patched s s'" "\<forall>m. m \<noteq> n \<longrightarrow> gs_fixes s' ! m = gs_fixes s ! m"
    "settled (gs_used s') (gs_fixes s' ! n)"
proof -
  define fx where "fx = gs_fixes s ! n"
  have r: "fx_r_type fx \<in> port_relocs" and p: "place_ok (gs_frags s) (fix_place fx)"
    using assms by (auto simp: pass_ok_def fx_def)
  obtain w where w: "insn_place s fx w" using place_ok_insn [OF p] ..
  obtain fx1 v1 ms where 1: "fixup_sub tab fx (fx_offset fx) s = Inr ((fx1, v1), s\<lparr>gs_msgs := ms\<rparr>)" "same_fix fx fx1"
    by (rule fixup_sub_returns)
  define t where "t = s\<lparr>gs_msgs := ms\<rparr>"
  have t: "insn_place t fx1 w" using w by (simp add: t_def same_fix_place [OF 1(2)])
  obtain fx2 v2 where 2: "fixup_add tab seg fx1 v1 t = Inr ((fx2, v2), t)" "same_fix fx1 fx2"
    using t by (rule fixup_add_returns)
  have "insn_place t fx2 w" using t by (simp add: same_fix_place [OF 2(2)])
  then obtain fx3 v3 where 3: "fixup_pcrel b fx2 v2 t = Inr ((fx3, v3), t)" "same_fix fx2 fx3"
    by (rule fixup_pcrel_returns)
  define u where "u = t\<lparr>gs_fixes := (gs_fixes s)[n := fx3]\<rparr>"
  have sf: "same_fix fx fx3" using 1(2) 2(2) 3(2) by (blast intro: same_fix_trans)
  obtain w4 fx4 ms4 where 4: "(if fx_done fx3 then gret () else md_apply_fix (S_GET_VALUE tab) n v3) u =
      Inr ((), (put_insn fx w4 s)\<lparr>gs_fixes := (gs_fixes s)[n := fx4], gs_msgs := ms4\<rparr>)" "same_fix fx fx4"
    using u_def [unfolded t_def] assms(2) w r sf by (rule fixup_apply_returns)
  define x where "x = (put_insn fx w4 s)\<lparr>gs_fixes := (gs_fixes s)[n := fx4], gs_msgs := ms4\<rparr>"
  have x: "n < length (gs_fixes x)" "gs_fixes x ! n = fx4" "gs_used x = gs_used s"
    using assms(2) by (simp_all add: x_def put_insn_def upd_frag_def)
  obtain fx5 us where 5: "fixup_left b n x = Inr ((), x\<lparr>gs_fixes := (gs_fixes x)[n := fx5], gs_used := us\<rparr>)" "same_fix fx4 fx5"
    "settled us fx5" "gs_used s \<subseteq> us" using fixup_left_returns [OF x(1)] x(2,3) by metis
  define ms5 where "ms5 = ms4 @ (if field_too_small fx3 v3 then [As_bad ''value of %s too large for field of %d bytes at %s''] else [])"
  have "get_fix n s = Inr (fx, s)" using assms(2) by (simp add: get_fix_def fx_def)
  moreover have "upd_fix n (\<lambda>_. fx3) t = Inr ((), u)" using assms(2) by (simp add: upd_fix_def u_def t_def)
  ultimately have "fixup_step tab b seg n s =
      (if field_too_small fx3 v3 then as_bad_where ''value of %s too large for field of %d bytes at %s'' else gret ())
        (x\<lparr>gs_fixes := (gs_fixes x)[n := fx5], gs_used := us\<rparr>)"
    using 1(1) [folded t_def] 2(1) 3(1) 4(1) [folded x_def] 5(1) by (simp add: fixup_step_def)
  then have fin: "fixup_step tab b seg n s = Inr ((), (put_insn fx w4 s)\<lparr>gs_fixes := (gs_fixes s)[n := fx5], gs_msgs := ms5, gs_used := us\<rparr>)"
    by (simp add: x_def ms5_def as_bad_where_def)
  show ?thesis
  proof (rule that [OF fin])
    have "same_fix fx fx5" using 4(2) 5(2) by (rule same_fix_trans)
    then show "patched s ((put_insn fx w4 s)\<lparr>gs_fixes := (gs_fixes s)[n := fx5], gs_msgs := ms5, gs_used := us\<rparr>)"
      using 5(4) assms(2) by (intro put_insn_patched [OF w]) (simp_all add: fx_def same_fix_def fix_place_def)
  qed (use assms(2) 5(3) in simp_all)
qed

lemma settled_mono: "settled us fx \<Longrightarrow> us \<subseteq> us' \<Longrightarrow> settled us' fx"
  by (auto simp: settled_def)

lemma fixup_loop_returns:
  assumes "pass_ok s" "distinct ns" "\<forall>n \<in> set ns. n < length (gs_fixes s)"
  shows "\<exists>s'. fixup_loop tab b seg ns s = Inr ((), s') \<and> patched s s' \<and>
    (\<forall>m. m \<notin> set ns \<longrightarrow> gs_fixes s' ! m = gs_fixes s ! m) \<and> (\<forall>n \<in> set ns. settled (gs_used s') (gs_fixes s' ! n))"
  using assms
proof (induction ns arbitrary: s)
  case (Cons n ns)
  have "n < length (gs_fixes s)" using Cons.prems(3) by simp
  with Cons.prems(1) obtain t where t: "fixup_step tab b seg n s = Inr ((), t)" "patched s t"
    "\<forall>m. m \<noteq> n \<longrightarrow> gs_fixes t ! m = gs_fixes s ! m" "settled (gs_used t) (gs_fixes t ! n)"
    by (rule fixup_step_returns)
  have "length (gs_fixes t) = length (gs_fixes s)"
    using t(2) by (auto simp: patched_def same_fixes_def dest: map_eq_imp_length_eq)
  then obtain s' where s': "fixup_loop tab b seg ns t = Inr ((), s')" "patched t s'" "\<forall>m. m \<notin> set ns \<longrightarrow> gs_fixes s' ! m = gs_fixes t ! m"
    "\<forall>n \<in> set ns. settled (gs_used s') (gs_fixes s' ! n)"
    using Cons.IH [OF pass_ok_patched [OF t(2) Cons.prems(1)]] Cons.prems(2,3) by auto
  have "settled (gs_used s') (gs_fixes s' ! n)"
    using t(4) s'(2,3) Cons.prems(2) by (auto simp: patched_def intro: settled_mono)
  with t(1,3) s' pass.R_trans [OF t(2) s'(2)] show ?case by (intro exI [of _ s']) auto
qed (simp add: pass.R_refl)

text \<open>
  C6: the pass over the fixups is complete. In every state that a run of the port reaches, unless an
  expression is relative to an image, \<open>fixup_segment\<close> returns. Afterwards every fixup is either done, its value
  being in the instruction, or has a symbol, and all its symbols are marked as used, so that a relocation entry can be made
  of it; the pass changes no byte that no fixup covers, no size and no address of a fragment, and neither the place
  nor the relocation of a fixup.
\<close>

theorem fixups_settled:
  assumes "within extends expression" "assembled expression s" "\<forall>fx \<in> set (gs_fixes s). fx_r_type fx \<noteq> BFD_RELOC_RVA"
  shows "\<exists>s'. fixup_segment tab False seg s = Inr ((), s') \<and> patched s s' \<and> (\<forall>fx \<in> set (gs_fixes s'). settled (gs_used s') fx)"
proof -
  have "state_ok s" using assms(1,2) by (rule assembled_inv [THEN conjunct1])
  then have "pass_ok s" using assms(3) by (auto simp: pass_ok_def state_ok_def fix_ok_def place_ok_def fix_place_def)
  from fixup_loop_returns [OF this, of "[0 ..< length (gs_fixes s)]" tab "section_symbol tab absolute_section" seg]
  obtain s' where s': "fixup_segment tab False seg s = Inr ((), s')" "patched s s'"
    "\<forall>n < length (gs_fixes s). settled (gs_used s') (gs_fixes s' ! n)" by (auto simp: fixup_segment_def)
  moreover have "length (gs_fixes s') = length (gs_fixes s)"
    using s'(2) by (auto simp: patched_def same_fixes_def dest: map_eq_imp_length_eq)
  ultimately show ?thesis by (auto simp: in_set_conv_nth)
qed

theorem fixups_settled_witness:
  "\<exists>s s' u expression. expression = (\<lambda>s. Inr (no_expr\<lparr>X_op := O_constant, X_add_number := 0x20001\<rparr>, s)) \<and>
    md_begin True (start_state (''lui sp,$'' @ [NUL])) = Inr ((), s) \<and> md_assemble expression no_expr 0 s = Inr ((), s') \<and>
    length (gs_fixes s') = 1 \<and> fixup_segment (label_table 0) False (normal_section 0) s' = Inr ((), u) \<and> patched s' u \<and>
    (\<forall>fx \<in> set (gs_fixes u). settled (gs_used u) fx)"
proof (rule one_line, goal_cases)
  case (1 e s s')
  then have "\<forall>fx \<in> set (gs_fixes s'). fx_r_type fx \<noteq> BFD_RELOC_RVA" by simp
  from fixups_settled [OF 1(4,5) this, of "label_table 0" "normal_section 0"] 1(1-3,6) show ?case by auto
qed

end
