(* ===== verification/Bfd_Arch.thy ===== *)
theory Bfd_Arch
  imports Elf_Fusion
begin

text \<open>
  The descriptions of architectures: \<^verbatim>\<open>bfd/cpu-fusion.c\<close> and the routines of
  \<^verbatim>\<open>bfd/archures.c\<close> that work on them. Strings are lists of characters without the final
  NUL. The chains of \<open>bfd_archures_list\<close>, which the configuration chooses, are a
  parameter, as is the routine behind the pointer \<open>scan\<close> of an entry.
\<close>

subsection \<open>Architectures\<close>

text \<open>The architectures that the code names; every other member of the enumeration is a number.\<close>

datatype bfd_architecture =
    bfd_arch_unknown | bfd_arch_obscure | bfd_arch_m68k | bfd_arch_we32k | bfd_arch_mips | bfd_arch_rs6000 | bfd_arch_sh
  | bfd_arch_fusion | bfd_arch_other nat

record bfd_arch_info_type =
  bits_per_word :: int
  bits_per_address :: int
  bits_per_byte :: int
  arch :: bfd_architecture
  mach :: "64 word"
  arch_name :: string
  printable_name :: string
  section_align_power :: c_uint
  the_default :: bool

definition bfd_mach_fusion :: "64 word" where
  "bfd_mach_fusion = 1"

definition bfd_fusion_arch :: bfd_arch_info_type where
  "bfd_fusion_arch = \<lparr>bits_per_word = 32, bits_per_address = 32, bits_per_byte = 8, arch = bfd_arch_fusion, mach = bfd_mach_fusion,
     arch_name = ''fusion'', printable_name = ''fusion'', section_align_power = 3, the_default = True\<rparr>"

definition bfd_default_arch_struct :: bfd_arch_info_type where
  "bfd_default_arch_struct = \<lparr>bits_per_word = 32, bits_per_address = 32, bits_per_byte = 8, arch = bfd_arch_unknown, mach = 0,
     arch_name = ''unknown'', printable_name = ''unknown'', section_align_power = 2, the_default = True\<rparr>"

subsection \<open>Compatibility\<close>

definition bfd_default_compatible :: "bfd_arch_info_type \<Rightarrow> bfd_arch_info_type \<Rightarrow> bfd_arch_info_type option" where
  "bfd_default_compatible a b =
     (if arch a \<noteq> arch b then None
      else if bits_per_word a \<noteq> bits_per_word b then None
      else if mach a > mach b then Some a
      else if mach b > mach a then Some b
      else Some a)"

text \<open>
  A BFD is its architecture and the name of its target; \<open>compatible\<close> is the routine of the
  first one.
\<close>

definition bfd_arch_get_compatible ::
  "(bfd_arch_info_type \<Rightarrow> bfd_arch_info_type \<Rightarrow> bfd_arch_info_type option)
     \<Rightarrow> bfd_arch_info_type \<times> string \<Rightarrow> bfd_arch_info_type \<times> string \<Rightarrow> bool \<Rightarrow> bfd_arch_info_type option" where
  "bfd_arch_get_compatible compatible abfd bbfd accept_unknowns =
     (let unknown = (\<lambda>ubfd kbfd. if accept_unknowns \<or> snd ubfd = ''binary'' then Some (fst kbfd) else None) in
      if arch (fst abfd) = bfd_arch_unknown then unknown abfd bbfd
      else if arch (fst bbfd) = bfd_arch_unknown then unknown bbfd abfd
      else compatible (fst abfd) (fst bbfd))"

subsection \<open>Finding an architecture by its name\<close>

definition strncasecmp_eq :: "string \<Rightarrow> string \<Rightarrow> nat \<Rightarrow> bool" where
  "strncasecmp_eq a b n \<longleftrightarrow> map TOLOWER (take n a) = map TOLOWER (take n b)"

text \<open>The characters left after the longest common prefix.\<close>

fun skip_common :: "string \<Rightarrow> string \<Rightarrow> string" where
  "skip_common (a # as) (b # bs) = (if a \<noteq> b then a # as else skip_common as bs)"
| "skip_common as bs = as"

definition ISDIGIT :: "char \<Rightarrow> bool" where
  "ISDIGIT c \<longleftrightarrow> (let n = of_char c :: nat in 48 \<le> n \<and> n \<le> 57)"

definition scan_number :: "string \<Rightarrow> 64 word" where
  "scan_number s = foldl (\<lambda>number c. number * 10 + of_nat (of_char c) - 48) 0 (takeWhile ISDIGIT s)"

text \<open>The numbers that are known for compatibility, with the machine they stand for.\<close>

definition compat_machine :: "64 word \<Rightarrow> (bfd_architecture \<times> 64 word) option" where
  "compat_machine number =
     (if number \<in> {1, 3, 4, 5, 6, 7, 8} then Some (bfd_arch_m68k, number)
      else map_of [(68000, bfd_arch_m68k, 1), (68010, bfd_arch_m68k, 3), (68020, bfd_arch_m68k, 4), (68030, bfd_arch_m68k, 5),
        (68040, bfd_arch_m68k, 6), (68060, bfd_arch_m68k, 7), (68332, bfd_arch_m68k, 8), (5200, bfd_arch_m68k, 10),
        (5206, bfd_arch_m68k, 12), (5307, bfd_arch_m68k, 12), (5407, bfd_arch_m68k, 18), (5282, bfd_arch_m68k, 16),
        (32000, bfd_arch_we32k, 32000), (3000, bfd_arch_mips, 3000), (4000, bfd_arch_mips, 4000), (6000, bfd_arch_rs6000, 6000),
        (7410, bfd_arch_sh, 0x2d), (7708, bfd_arch_sh, 0x30), (7729, bfd_arch_sh, 0x3d), (7750, bfd_arch_sh, 0x40)] number)"

definition compat_scan :: "bfd_arch_info_type \<Rightarrow> string \<Rightarrow> bool" where
  "compat_scan info string =
     (let src = skip_common string (arch_name info);
          src = (case src of c # cs \<Rightarrow> if c = CHR '':'' then cs else src | [] \<Rightarrow> []) in
      if src = [] then the_default info
      else case compat_machine (scan_number src) of
        None \<Rightarrow> False
      | Some (a, number) \<Rightarrow> a = arch info \<and> number = mach info)"

definition bfd_default_scan :: "bfd_arch_info_type \<Rightarrow> string \<Rightarrow> bool" where
  "bfd_default_scan info string =
     (if strcasecmp_eq string (arch_name info) \<and> the_default info then True
      else if strcasecmp_eq string (printable_name info) then True
      else
        let n = length (arch_name info); colon_index = length (takeWhile (\<lambda>c. c \<noteq> CHR '':'') (printable_name info)) in
        if CHR '':'' \<notin> set (printable_name info) \<and> strncasecmp_eq string (arch_name info) n \<and>
           strcasecmp_eq (if drop n string \<noteq> [] \<and> string ! n = CHR '':'' then drop (n + 1) string else drop n string)
             (printable_name info)
        then True
        else if CHR '':'' \<in> set (printable_name info) \<and> strncasecmp_eq string (printable_name info) colon_index \<and>
           strcasecmp_eq (drop colon_index string) (drop (colon_index + 1) (printable_name info))
        then True
        else compat_scan info string)"

definition bfd_scan_arch ::
  "(bfd_arch_info_type \<Rightarrow> string \<Rightarrow> bool) \<Rightarrow> bfd_arch_info_type list list \<Rightarrow> string \<Rightarrow> bfd_arch_info_type option" where
  "bfd_scan_arch scan bfd_archures_list string = find (\<lambda>ap. scan ap string) (concat bfd_archures_list)"

subsection \<open>Finding an architecture by its number\<close>

definition bfd_lookup_arch ::
  "bfd_arch_info_type list list \<Rightarrow> bfd_architecture \<Rightarrow> 64 word \<Rightarrow> bfd_arch_info_type option" where
  "bfd_lookup_arch bfd_archures_list a machine =
     find (\<lambda>ap. arch ap = a \<and> (mach ap = machine \<or> machine = 0 \<and> the_default ap)) (concat bfd_archures_list)"

definition bfd_default_set_arch_mach ::
  "bfd_arch_info_type list list \<Rightarrow> bfd_architecture \<Rightarrow> 64 word \<Rightarrow> bool \<times> bfd_arch_info_type" where
  "bfd_default_set_arch_mach bfd_archures_list a machine =
     (case bfd_lookup_arch bfd_archures_list a machine of
        Some ap \<Rightarrow> (True, ap)
      | None \<Rightarrow> (False, bfd_default_arch_struct))"

definition bfd_printable_arch_mach :: "bfd_arch_info_type list list \<Rightarrow> bfd_architecture \<Rightarrow> 64 word \<Rightarrow> string" where
  "bfd_printable_arch_mach bfd_archures_list a machine =
     (case bfd_lookup_arch bfd_archures_list a machine of Some ap \<Rightarrow> printable_name ap | None \<Rightarrow> ''UNKNOWN!'')"

definition bfd_arch_mach_octets_per_byte :: "bfd_arch_info_type list list \<Rightarrow> bfd_architecture \<Rightarrow> 64 word \<Rightarrow> int" where
  "bfd_arch_mach_octets_per_byte bfd_archures_list a machine =
     (case bfd_lookup_arch bfd_archures_list a machine of Some ap \<Rightarrow> bits_per_byte ap div 8 | None \<Rightarrow> 1)"

text \<open>The names of all architectures; \<open>mem\<close> tells whether the allocator has so many bytes.\<close>

definition bfd_arch_list :: "(64 word \<Rightarrow> bool) \<Rightarrow> bfd_arch_info_type list list \<Rightarrow> string list option" where
  "bfd_arch_list mem bfd_archures_list =
     (let aps = concat bfd_archures_list in
      if mem ((of_nat (length aps) + 1) * 8) then Some (map printable_name aps) else None)"

section \<open>Properties\<close>

lemma skip_common_append: "\<exists>p q. s = p @ skip_common s t \<and> t = p @ q"
proof (induction s t rule: skip_common.induct)
  case (1 a as b bs)
  then show ?case by (cases "a = b") (auto intro: exI [of _ "[]"] simp: Cons_eq_append_conv)
qed auto

lemma skip_common_prefix: "skip_common (p @ s) (p @ t) = skip_common s t"
  by (induction p) simp_all

lemma compat_not_fusion: "compat_machine n = Some (a, m) \<Longrightarrow> a \<noteq> bfd_arch_fusion"
  by (auto simp: compat_machine_def split: if_splits)

lemma skip_common_end:
  assumes "CHR '':'' \<notin> set t"
  shows "skip_common s t = [] \<or> skip_common s t = '':'' \<longleftrightarrow> (\<exists>p q. t = p @ q \<and> (s = p \<or> s = p @ '':''))"
proof
  assume "skip_common s t = [] \<or> skip_common s t = '':''"
  with skip_common_append [of s t] show "\<exists>p q. t = p @ q \<and> (s = p \<or> s = p @ '':'')" by force
next
  assume "\<exists>p q. t = p @ q \<and> (s = p \<or> s = p @ '':'')"
  then obtain p q where pq: "t = p @ q" "s = p \<or> s = p @ '':''" by blast
  have "skip_common '':'' q = '':''" using assms pq(1) by (cases q) auto
  with pq skip_common_prefix [of p "[]" q] skip_common_prefix [of p "'':''" q] show "skip_common s t = [] \<or> skip_common s t = '':''"
    by auto
qed

lemma TOLOWER_colon: "TOLOWER c = CHR '':'' \<longleftrightarrow> c = CHR '':''"
proof (cases "65 \<le> (of_char c :: nat) \<and> (of_char c :: nat) \<le> 90")
  case True
  then have "(of_char (TOLOWER c) :: nat) = of_char c + 32" by (simp add: TOLOWER_def Let_def)
  with True have "TOLOWER c \<noteq> CHR '':''" by auto
  moreover have "c \<noteq> CHR '':''" using True by auto
  ultimately show ?thesis by simp
next
  case False
  then have "TOLOWER c = c" by (auto simp: TOLOWER_def Let_def)
  then show ?thesis by simp
qed

lemma compat_scan_fusion: "compat_scan bfd_fusion_arch s \<longleftrightarrow> (\<exists>p q. ''fusion'' = p @ q \<and> (s = p \<or> s = p @ '':''))"
proof -
  have "compat_scan bfd_fusion_arch s \<longleftrightarrow> skip_common s ''fusion'' = [] \<or> skip_common s ''fusion'' = '':''"
    using compat_not_fusion by (auto simp: compat_scan_def bfd_fusion_arch_def Let_def split: list.splits option.splits if_splits)
  also have "\<dots> \<longleftrightarrow> (\<exists>p q. ''fusion'' = p @ q \<and> (s = p \<or> s = p @ '':''))" by (rule skip_common_end) simp
  finally show ?thesis .
qed

lemma lower_append: "map TOLOWER s = a @ b \<longleftrightarrow> map TOLOWER (take (length a) s) = a \<and> map TOLOWER (drop (length a) s) = b"
proof
  assume "map TOLOWER s = a @ b"
  then show "map TOLOWER (take (length a) s) = a \<and> map TOLOWER (drop (length a) s) = b" by (simp flip: take_map drop_map)
next
  assume "map TOLOWER (take (length a) s) = a \<and> map TOLOWER (drop (length a) s) = b"
  then show "map TOLOWER s = a @ b" by (metis append_take_drop_id map_append)
qed

lemma lower_fusion: "map TOLOWER ''fusion'' = ''fusion''"
  by code_simp

lemma drop_cons: "drop n s = c # cs \<Longrightarrow> s ! n = c \<and> drop (n + 1) s = cs"
  by (metis Suc_eq_plus1 drop_Suc list.sel(3) nth_via_drop tl_drop)

lemma name_twice:
  assumes "map TOLOWER nm = nm" "CHR '':'' \<notin> set nm"
  shows "strncasecmp_eq s nm (length nm) \<and>
      strcasecmp_eq (if drop (length nm) s \<noteq> [] \<and> s ! length nm = CHR '':'' then drop (length nm + 1) s else drop (length nm) s) nm \<longleftrightarrow>
    map TOLOWER s = nm @ nm \<or> map TOLOWER s = nm @ '':'' @ nm"
proof (cases "drop (length nm) s")
  case Nil
  then show ?thesis unfolding lower_append using assms by (auto simp: strncasecmp_eq_def strcasecmp_eq_def)
next
  case (Cons c cs)
  have "TOLOWER (CHR '':'') = CHR '':''" by (simp add: TOLOWER_colon)
  then have "map TOLOWER (drop (length nm) s) \<noteq> nm" if "c = CHR '':''" using assms(2) that by (auto simp: Cons)
  with drop_cons [OF Cons] show ?thesis
    unfolding lower_append using assms(1) by (auto simp: Cons strncasecmp_eq_def strcasecmp_eq_def TOLOWER_colon)
qed

lemma scan_one_name:
  assumes "arch_name i = nm" "printable_name i = nm" "map TOLOWER nm = nm" "CHR '':'' \<notin> set nm"
  shows "bfd_default_scan i s \<longleftrightarrow> map TOLOWER s \<in> {nm, nm @ nm, nm @ '':'' @ nm} \<or> compat_scan i s"
  using name_twice [OF assms(3,4), of s] assms
  by (simp add: bfd_default_scan_def Let_def) (auto simp: strcasecmp_eq_def)

text \<open>
  C32: the names of the architecture. A name selects the Fusion-Core architecture exactly when,
  in any case, it is \<open>fusion\<close>, \<open>fusionfusion\<close> or \<open>fusion:fusion\<close>, or when it is any
  prefix of \<open>fusion\<close>, the empty one included, with or without a colon behind it; no number selects it.
\<close>

theorem fusion_scan_spec:
  "bfd_default_scan bfd_fusion_arch s \<longleftrightarrow>
     map TOLOWER s \<in> {''fusion'', ''fusionfusion'', ''fusion:fusion''} \<or>
     (\<exists>p q. ''fusion'' = p @ q \<and> (s = p \<or> s = p @ '':''))"
  using scan_one_name [of bfd_fusion_arch "''fusion''" s, OF _ _ lower_fusion] compat_scan_fusion [of s]
  by (simp add: bfd_fusion_arch_def)

text \<open>What the port asks for at start-up, when the list has one entry for the architecture.\<close>

lemma set_arch_fusion:
  assumes "bfd_fusion_arch \<in> set (concat L)" "\<forall>ap \<in> set (concat L). arch ap = bfd_arch_fusion \<longrightarrow> ap = bfd_fusion_arch"
  shows "bfd_default_set_arch_mach L bfd_arch_fusion 0 = (True, bfd_fusion_arch)"
    "bfd_arch_mach_octets_per_byte L bfd_arch_fusion 0 = 1" "bfd_printable_arch_mach L bfd_arch_fusion 0 = ''fusion''"
proof -
  have "\<exists>ap. bfd_lookup_arch L bfd_arch_fusion 0 = Some ap" (is "\<exists>ap. ?l = Some ap")
  proof (rule ccontr)
    assume "\<nexists>ap. ?l = Some ap"
    then have "?l = None" by simp
    then have "\<not> (arch bfd_fusion_arch = bfd_arch_fusion \<and> the_default bfd_fusion_arch)"
      using assms(1) unfolding bfd_lookup_arch_def find_None_iff by (auto simp del: set_concat)
    then show False by (simp add: bfd_fusion_arch_def)
  qed
  then obtain ap where ap: "?l = Some ap" by blast
  then have "ap \<in> set (concat L)" "arch ap = bfd_arch_fusion"
    unfolding bfd_lookup_arch_def find_Some_iff by (auto simp del: set_concat)
  with ap assms(2) have "?l = Some bfd_fusion_arch" by blast
  then show "bfd_default_set_arch_mach L bfd_arch_fusion 0 = (True, bfd_fusion_arch)"
    "bfd_arch_mach_octets_per_byte L bfd_arch_fusion 0 = 1" "bfd_printable_arch_mach L bfd_arch_fusion 0 = ''fusion''"
    by (simp_all add: bfd_default_set_arch_mach_def bfd_arch_mach_octets_per_byte_def bfd_printable_arch_mach_def bfd_fusion_arch_def)
qed

end
