(* ===== verification/Bfd_Hash.thy ===== *)
theory Bfd_Hash
  imports Bfd_Bytes "HOL-Library.Multiset"
begin

text \<open>
  The hash tables of BFD, \<^verbatim>\<open>bfd/hash.c\<close>, behind the symbol tables of the linker. A chain is
  the list of its entries in the order of the \<open>next\<close> pointers. An entry is
  an object: \<open>be_id\<close> stands for its address, which renaming and replacing compare. What
  follows the common part of an entry is its data; \<open>newfunc\<close>, which allocates and initialises an entry, is a
  parameter from the string to the data, with \<open>None\<close> for a null pointer, and \<open>mem\<close> tells whether the
  allocator has so many bytes.
\<close>

subsection \<open>Tables\<close>

record 'a bfd_hash_entry =
  be_id :: nat
  be_string :: string
  be_hash :: "64 word"
  be_data :: 'a

text \<open>\<open>bt_next\<close> is the number of entries allocated so far.\<close>

record 'a bfd_hash_table =
  bt_table :: "'a bfd_hash_entry list list"
  bt_size :: c_uint
  bt_count :: c_uint
  bt_frozen :: bool
  bt_next :: nat

definition higher_primes :: "64 word list" where
  "higher_primes = [31, 61, 127, 251, 509, 1021, 2039, 4093, 8191, 16381, 32749, 65521, 131071, 262139, 524287, 1048573,
     2097143, 4194301, 8388593, 16777213, 33554393, 67108859, 134217689, 268435399, 536870909, 1073741789, 2147483647,
     2147483647 + 2147483644]"

text \<open>
  The binary search. Its last test reads the element at \<open>low\<close>, which is behind the array when the
  number is not below the last prime.
\<close>

function prime_search :: "64 word \<Rightarrow> nat \<Rightarrow> nat \<Rightarrow> nat result" where
  "prime_search n low high =
     (if low < high then
        let mid = low + (high - low) div 2 in
        rbind (rd8 higher_primes mid) (\<lambda>p. if n \<ge> p then prime_search n (mid + 1) high else prime_search n low mid)
      else Inr low)"
  by pat_completeness auto
termination
  by (relation "measure (\<lambda>(n, low, high). high - low)") auto

declare prime_search.simps [simp del]

definition higher_prime_number :: "64 word \<Rightarrow> 64 word result" where
  "higher_prime_number n =
     rbind (prime_search n 0 (length higher_primes)) (\<lambda>low.
     rbind (rd8 higher_primes low) (\<lambda>p.
     Inr (if n \<ge> p then 0 else p)))"

definition bfd_hash_table_init_n :: "(64 word \<Rightarrow> bool) \<Rightarrow> c_uint \<Rightarrow> 'a bfd_hash_table option" where
  "bfd_hash_table_init_n mem sz =
     (let alloc = ucast sz * 8 in
      if alloc div 8 \<noteq> ucast sz then None
      else if \<not> mem alloc then None
      else Some \<lparr>bt_table = replicate (unat sz) [], bt_size = sz, bt_count = 0, bt_frozen = False, bt_next = 0\<rparr>)"

definition bfd_hash_table_init :: "64 word \<Rightarrow> (64 word \<Rightarrow> bool) \<Rightarrow> 'a bfd_hash_table option" where
  "bfd_hash_table_init bfd_default_hash_table_size mem = bfd_hash_table_init_n mem (ucast bfd_default_hash_table_size)"

definition bfd_hash_set_default_size :: "64 word \<Rightarrow> 64 word" where
  "bfd_hash_set_default_size hash_size =
     (case find (\<lambda>p. hash_size \<le> p) [31, 61, 127, 251, 509, 1021, 2039, 4091, 8191, 16381, 32749] of
        Some p \<Rightarrow> p | None \<Rightarrow> 65537)"

subsection \<open>Hash codes\<close>

text \<open>Characters are read as \<open>unsigned char\<close>; the sums in 32 bits are added to a hash of 64.\<close>

definition bfd_mix :: "64 word \<Rightarrow> c_uint \<Rightarrow> 64 word" where
  "bfd_mix hash c = (let hash = hash + ucast (c + push_bit 17 c) in hash XOR drop_bit 2 hash)"

definition bfd_hash_hash :: "string \<Rightarrow> 64 word \<times> c_uint" where
  "bfd_hash_hash string =
     (let len = of_nat (length string) in
      (bfd_mix (foldl (\<lambda>hash ch. bfd_mix hash (of_nat (of_char ch))) 0 string) len, len))"

subsection \<open>Growing a table\<close>

text \<open>
  An old chain is moved in runs of entries with the same hash code, each in front of its new
  chain.
\<close>

function move_runs :: "64 word \<Rightarrow> 'a bfd_hash_entry list \<Rightarrow> 'a bfd_hash_entry list list \<Rightarrow> 'a bfd_hash_entry list list result" where
  "move_runs newsize [] newtable = Inr newtable"
| "move_runs newsize (p # ps) newtable =
     (let run = p # takeWhile (\<lambda>q. be_hash q = be_hash p) ps; rest = dropWhile (\<lambda>q. be_hash q = be_hash p) ps;
          i = unat (be_hash p mod newsize) in
      rbind (rd8 newtable i) (\<lambda>chain. move_runs newsize rest (newtable[i := run @ chain])))"
  by pat_completeness auto
termination
  by (relation "measure (\<lambda>(n, ps, t). length ps)") (auto simp: le_imp_less_Suc length_dropWhile_le)

fun rehash :: "64 word \<Rightarrow> 'a bfd_hash_entry list list \<Rightarrow> 'a bfd_hash_entry list list \<Rightarrow> 'a bfd_hash_entry list list result" where
  "rehash newsize [] newtable = Inr newtable"
| "rehash newsize (ch # chs) newtable = rbind (move_runs newsize ch newtable) (rehash newsize chs)"

definition bfd_hash_grow :: "(64 word \<Rightarrow> bool) \<Rightarrow> 'a bfd_hash_table \<Rightarrow> 'a bfd_hash_table result" where
  "bfd_hash_grow mem t =
     (if \<not> bt_frozen t \<and> bt_count t > bt_size t * 3 div 4 then
        rbind (higher_prime_number (ucast (bt_size t))) (\<lambda>newsize.
        let alloc = newsize * 8 in
        if newsize = 0 \<or> alloc div 8 \<noteq> newsize then Inr (t\<lparr>bt_frozen := True\<rparr>)
        else if \<not> mem alloc then Inr (t\<lparr>bt_frozen := True\<rparr>)
        else
          rbind (rehash newsize (bt_table t) (replicate (unat newsize) [])) (\<lambda>newtable.
          Inr (t\<lparr>bt_table := newtable, bt_size := ucast newsize\<rparr>)))
      else Inr t)"

subsection \<open>Operations\<close>

definition bt_index :: "'a bfd_hash_table \<Rightarrow> 64 word \<Rightarrow> nat result" where
  "bt_index t hash = (if bt_size t = 0 then Inl Division_by_zero else Inr (unat (hash mod ucast (bt_size t))))"

definition bfd_hash_insert ::
  "(64 word \<Rightarrow> bool) \<Rightarrow> (string \<Rightarrow> 'a option) \<Rightarrow> 'a bfd_hash_table \<Rightarrow> string \<Rightarrow> 64 word
     \<Rightarrow> ('a bfd_hash_entry option \<times> 'a bfd_hash_table) result" where
  "bfd_hash_insert mem newfunc t string hash =
     (case newfunc string of
        None \<Rightarrow> Inr (None, t)
      | Some d \<Rightarrow>
          let hashp = \<lparr>be_id = bt_next t, be_string = string, be_hash = hash, be_data = d\<rparr> in
          rbind (bt_index t hash) (\<lambda>i.
          rbind (rd8 (bt_table t) i) (\<lambda>chain.
          rbind (bfd_hash_grow mem (t\<lparr>bt_table := (bt_table t)[i := hashp # chain], bt_count := bt_count t + 1,
              bt_next := bt_next t + 1\<rparr>)) (\<lambda>t.
          Inr (Some hashp, t)))))"

definition bfd_hash_lookup ::
  "(64 word \<Rightarrow> bool) \<Rightarrow> (string \<Rightarrow> 'a option) \<Rightarrow> 'a bfd_hash_table \<Rightarrow> string \<Rightarrow> bool \<Rightarrow> bool
     \<Rightarrow> ('a bfd_hash_entry option \<times> 'a bfd_hash_table) result" where
  "bfd_hash_lookup mem newfunc t string create copy =
     (let (hash, len) = bfd_hash_hash string in
      rbind (bt_index t hash) (\<lambda>i.
      rbind (rd8 (bt_table t) i) (\<lambda>chain.
      case find (\<lambda>p. be_hash p = hash \<and> be_string p = string) chain of
        Some p \<Rightarrow> Inr (Some p, t)
      | None \<Rightarrow>
          if \<not> create then Inr (None, t)
          else if copy \<and> \<not> mem (ucast (len + 1)) then Inr (None, t)
          else bfd_hash_insert mem newfunc t string hash)))"

definition bfd_hash_rename :: "'a bfd_hash_table \<Rightarrow> string \<Rightarrow> 'a bfd_hash_entry \<Rightarrow> 'a bfd_hash_table result" where
  "bfd_hash_rename t string ent =
     rbind (bt_index t (be_hash ent)) (\<lambda>i.
     rbind (rd8 (bt_table t) i) (\<lambda>chain.
     if \<forall>p \<in> set chain. be_id p \<noteq> be_id ent then Inl Abort
     else
       let table = (bt_table t)[i := takeWhile (\<lambda>p. be_id p \<noteq> be_id ent) chain @ tl (dropWhile (\<lambda>p. be_id p \<noteq> be_id ent) chain)];
           ent = ent\<lparr>be_string := string, be_hash := fst (bfd_hash_hash string)\<rparr> in
       rbind (bt_index t (be_hash ent)) (\<lambda>i.
       rbind (rd8 table i) (\<lambda>chain.
       Inr (t\<lparr>bt_table := table[i := ent # chain]\<rparr>)))))"

text \<open>
  Replacing assigns \<open>*pph = nw\<close> and nothing else: behind the new entry comes what its own \<open>next\<close>
  pointer leads to, the list \<open>nw_next\<close>. When an entry before the old one is among these, the assignment
  closes a circle; such a chain is no list, and searching it does not end.
\<close>

definition bfd_hash_replace ::
  "'a bfd_hash_table \<Rightarrow> 'a bfd_hash_entry \<Rightarrow> 'a bfd_hash_entry \<Rightarrow> 'a bfd_hash_entry list \<Rightarrow> 'a bfd_hash_table result" where
  "bfd_hash_replace t old nw nw_next =
     rbind (bt_index t (be_hash old)) (\<lambda>i.
     rbind (rd8 (bt_table t) i) (\<lambda>chain.
     if \<forall>p \<in> set chain. be_id p \<noteq> be_id old then Inl Abort
     else
       let before = takeWhile (\<lambda>p. be_id p \<noteq> be_id old) chain in
       if \<exists>p \<in> set before. \<exists>q \<in> set (nw # nw_next). be_id p = be_id q then Inl No_return
       else Inr (t\<lparr>bt_table := (bt_table t)[i := before @ nw # nw_next]\<rparr>)))"

text \<open>
  The entries that \<open>func\<close> is called with, in their order: the traversal stops after the first
  one for which it returns \<open>FALSE\<close>.
\<close>

definition bfd_hash_traverse ::
  "'a bfd_hash_table \<Rightarrow> ('a bfd_hash_entry \<Rightarrow> bool) \<Rightarrow> ('a bfd_hash_entry list \<times> 'a bfd_hash_table) result" where
  "bfd_hash_traverse t func =
     rbind (ld (bt_table t) 0 (unat (bt_size t))) (\<lambda>chs.
     let all = concat chs in
     Inr (takeWhile func all @ take 1 (dropWhile func all), t\<lparr>bt_frozen := False\<rparr>))"

subsection \<open>Specification\<close>

text \<open>
  A table stands for the map from the strings of its entries to the entries. Every entry is in
  the chain of its hash code, and no string and no address occurs twice.
\<close>

definition bt_entries :: "'a bfd_hash_table \<Rightarrow> 'a bfd_hash_entry list" where
  "bt_entries t = concat (bt_table t)"

definition entry_map :: "'a bfd_hash_entry list \<Rightarrow> string \<rightharpoonup> 'a bfd_hash_entry" where
  "entry_map es = map_of (map (\<lambda>p. (be_string p, p)) es)"

definition bt_abs :: "'a bfd_hash_table \<Rightarrow> string \<rightharpoonup> 'a bfd_hash_entry" where
  "bt_abs t = entry_map (bt_entries t)"

text \<open>What the \<open>next\<close> pointer of an entry leads to.\<close>

definition chain_behind :: "'a bfd_hash_table \<Rightarrow> 'a bfd_hash_entry \<Rightarrow> 'a bfd_hash_entry list" where
  "chain_behind t p =
     tl (dropWhile (\<lambda>q. be_id q \<noteq> be_id p) (bt_table t ! unat (be_hash p mod ucast (bt_size t))))"

definition hashed :: "'a bfd_hash_entry \<Rightarrow> bool" where
  "hashed p \<longleftrightarrow> be_hash p = fst (bfd_hash_hash (be_string p))"

definition in_slot :: "64 word \<Rightarrow> nat \<Rightarrow> 'a bfd_hash_entry \<Rightarrow> bool" where
  "in_slot sz i p \<longleftrightarrow> hashed p \<and> unat (be_hash p mod sz) = i"

definition in_slots :: "64 word \<Rightarrow> 'a bfd_hash_entry list list \<Rightarrow> bool" where
  "in_slots sz L \<longleftrightarrow> (\<forall>i < length L. \<forall>p \<in> set (L ! i). in_slot sz i p)"

definition keys_ok :: "nat \<Rightarrow> 'a bfd_hash_entry list \<Rightarrow> bool" where
  "keys_ok n es \<longleftrightarrow> distinct (map be_string es) \<and> distinct (map be_id es) \<and> (\<forall>p \<in> set es. be_id p < n)"

definition bt_ok :: "'a bfd_hash_table \<Rightarrow> bool" where
  "bt_ok t \<longleftrightarrow> bt_size t \<noteq> 0 \<and> bt_size t < 4294967291 \<and> length (bt_table t) = unat (bt_size t) \<and> in_slots (ucast (bt_size t)) (bt_table t) \<and>
     keys_ok (bt_next t) (bt_entries t)"


subsection \<open>The size of a grown table\<close>

lemma primes_sorted: "sorted higher_primes"
  by (simp add: higher_primes_def)

lemma primes_last: "length higher_primes = 28" "higher_primes ! 27 = 4294967291"
  by (simp_all add: higher_primes_def)

lemma prime_search_ok:
  "low \<le> high \<Longrightarrow> high \<le> length higher_primes \<Longrightarrow> \<forall>i < low. higher_primes ! i \<le> n \<Longrightarrow>
   \<forall>i < length higher_primes. high \<le> i \<longrightarrow> n < higher_primes ! i \<Longrightarrow>
   \<exists>r \<le> length higher_primes. prime_search n low high = Inr r \<and> (\<forall>i < r. higher_primes ! i \<le> n) \<and>
     (\<forall>i < length higher_primes. r \<le> i \<longrightarrow> n < higher_primes ! i)"
proof (induction n low high rule: prime_search.induct)
  case (1 n low high)
  show ?case
  proof (cases "low < high")
    case False
    with 1 show ?thesis by (subst prime_search.simps) auto
  next
    case True
    define mid where "mid = low + (high - low) div 2"
    have mid: "low \<le> mid" "mid < high" "mid < length higher_primes" using True "1.prems" by (auto simp: mid_def)
    then have rd: "rd8 higher_primes mid = Inr (higher_primes ! mid)" by simp
    note nth = sorted_nth_mono [OF primes_sorted]
    note eq = prime_search.simps [of n low high, folded mid_def]
    show ?thesis
    proof (cases "higher_primes ! mid \<le> n")
      case le: True
      have "\<forall>i < mid + 1. higher_primes ! i \<le> n" using nth [OF _ mid(3)] le by (auto simp: less_Suc_eq_le intro: order_trans)
      with "1.IH" (1) [OF True mid_def rd le _ "1.prems"(2) _ "1.prems"(4)] mid(2) rd le True show ?thesis
        by (subst eq) (simp add: Let_def mid_def)
    next
      case gt: False
      have "\<forall>i < length higher_primes. mid \<le> i \<longrightarrow> n < higher_primes ! i" using nth gt by (force simp: not_le intro: less_le_trans)
      with "1.IH"(2) [OF True mid_def rd gt mid(1) _ "1.prems"(3)] mid rd gt True "1.prems"(2) show ?thesis
        by (subst eq) (simp add: Let_def mid_def)
    qed
  qed
qed

lemma higher_prime_ok:
  assumes "n < 4294967291"
  shows "\<exists>p \<in> set higher_primes. higher_prime_number n = Inr p \<and> n < p \<and> (\<forall>q \<in> set higher_primes. n < q \<longrightarrow> p \<le> q)"
proof -
  let ?P = higher_primes
  obtain r where r: "r \<le> length ?P" "prime_search n 0 (length ?P) = Inr r" "\<forall>i < r. ?P ! i \<le> n"
    "\<forall>i < length ?P. r \<le> i \<longrightarrow> n < ?P ! i"
    using prime_search_ok [of 0 "length ?P" n] by auto
  have "r \<noteq> length ?P"
  proof
    assume "r = length ?P"
    with r(3) have "?P ! 27 \<le> n" by (simp add: primes_last(1))
    with assms show False by (simp add: primes_last(2))
  qed
  with r have "r < length ?P" "n < ?P ! r" by auto
  moreover have "?P ! r \<le> ?P ! i" if "i < length ?P" "n < ?P ! i" for i
    using that r(3) sorted_nth_mono [OF primes_sorted, of r i] by (metis leD not_le_imp_less order_less_imp_le)
  ultimately show ?thesis using r(2) by (intro bexI [of _ "?P ! r"]) (auto simp: higher_prime_number_def in_set_conv_nth)
qed

lemma higher_prime_last: "4294967291 \<le> n \<Longrightarrow> higher_prime_number n = Inl Out_of_bounds"
proof -
  assume n: "4294967291 \<le> n"
  let ?P = higher_primes
  obtain r where r: "r \<le> length ?P" "prime_search n 0 (length ?P) = Inr r" 
    "\<forall>i < length ?P. r \<le> i \<longrightarrow> n < ?P ! i"
    using prime_search_ok [of 0 "length ?P" n] by auto
  have "\<forall>i < length ?P. ?P ! i \<le> ?P ! 27" using sorted_nth_mono [OF primes_sorted, of _ 27] primes_last(1) by auto
  moreover have "?P ! 27 \<le> n" using n by (simp add: primes_last(2))
  ultimately have "\<not> r < length ?P" using r(3) by (meson leD order_refl order_trans)
  with r(2) show ?thesis by (simp add: higher_prime_number_def rd8_def)
qed

subsection \<open>Chains as multisets\<close>


lemma entry_map_Some:
  "distinct (map be_string es) \<Longrightarrow> entry_map es k = Some p \<longleftrightarrow> p \<in> set es \<and> be_string p = k"
  unfolding entry_map_def by (subst map_of_eq_Some_iff) (auto simp: comp_def)

lemma entry_map_mset:
  assumes "distinct (map be_string es)" "mset es = mset es'"
  shows "entry_map es = entry_map es'"
proof -
  have d: "distinct (map be_string es')" using assms by (metis mset_eq_imp_distinct_iff mset_map)
  have "set es = set es'" using assms(2) by (rule mset_eq_setD)
  then have "entry_map es k = Some p \<longleftrightarrow> entry_map es' k = Some p" for k p
    by (simp add: entry_map_Some [OF assms(1)] entry_map_Some [OF d])
  then show ?thesis by (metis (no_types, opaque_lifting) not_Some_eq ext)
qed

lemma keys_ok_mset: "mset es = mset es' \<Longrightarrow> keys_ok n es = keys_ok n es'"
  unfolding keys_ok_def by (metis mset_eq_imp_distinct_iff mset_eq_setD mset_map)

lemma in_slots_update:
  assumes "in_slots n L" "\<forall>p \<in> set xs. in_slot n i p"
  shows "in_slots n (L[i := xs])"
  using assms by (cases "i < length L") (auto simp: in_slots_def nth_list_update)

lemma unat_mod_less: "(n :: 64 word) \<noteq> 0 \<Longrightarrow> unat (h mod n) < unat n"
  by (simp add: unat_mod unat_gt_0)

lemma move_runs_ok:
  "n \<noteq> 0 \<Longrightarrow> length T = unat n \<Longrightarrow> in_slots n T \<Longrightarrow> \<forall>p \<in> set ps. hashed p \<Longrightarrow>
   \<exists>T'. move_runs n ps T = Inr T' \<and> length T' = unat n \<and> in_slots n T' \<and> mset (concat T') = mset ps + mset (concat T)"
proof (induction n ps T rule: move_runs.induct)
  case (2 n p ps T)
  define run where "run = p # takeWhile (\<lambda>q. be_hash q = be_hash p) ps"
  define rest where "rest = dropWhile (\<lambda>q. be_hash q = be_hash p) ps"
  define i where "i = unat (be_hash p mod n)"
  have i: "i < length T" using unat_mod_less "2.prems" by (simp add: i_def)
  have all: "run @ rest = p # ps" by (simp add: run_def rest_def)
  have hash: "\<forall>q \<in> set (run @ rest). hashed q" using "2.prems"(4) by (simp only: all)
  have "\<forall>q \<in> set run. be_hash q = be_hash p" by (auto simp: run_def dest: set_takeWhileD)
  then have "\<forall>q \<in> set (run @ T ! i). in_slot n i q"
    using hash "2.prems"(3) i by (auto simp: in_slots_def in_slot_def i_def)
  from in_slots_update [OF "2.prems"(3) this] "2.IH" [OF run_def rest_def i_def rd8_in [OF i] "2.prems"(1)] "2.prems"(2) hash
  obtain T' where T': "move_runs n rest (T[i := run @ T ! i]) = Inr T'" "length T' = unat n" "in_slots n T'"
    "mset (concat T') = mset rest + mset (concat (T[i := run @ T ! i]))" by auto
  have "mset (concat (T[i := run @ T ! i])) = mset run + mset (concat T)"
    using mset_concat_update [OF i, of "run @ T ! i"] by simp
  with T' i arg_cong [OF all, of mset] show ?case
    by (simp add: Let_def add.commute [of "mset rest"] flip: run_def rest_def i_def)
qed simp

lemma rehash_ok:
  "n \<noteq> 0 \<Longrightarrow> length T = unat n \<Longrightarrow> in_slots n T \<Longrightarrow> \<forall>p \<in> set (concat L). hashed p \<Longrightarrow>
   \<exists>T'. rehash n L T = Inr T' \<and> length T' = unat n \<and> in_slots n T' \<and> mset (concat T') = mset (concat L) + mset (concat T)"
proof (induction n L T rule: rehash.induct)
  case (2 n ch chs T)
  from move_runs_ok [OF "2.prems"(1-3), of ch] "2.prems"(4) obtain T1 where
    T1: "move_runs n ch T = Inr T1" "length T1 = unat n" "in_slots n T1" "mset (concat T1) = mset ch + mset (concat T)" by auto
  from "2.IH" [OF T1(1) "2.prems"(1) T1(2,3)] "2.prems"(4) T1 show ?case by (auto simp: ac_simps)
qed simp


subsection \<open>The operations on a table that is well formed\<close>

lemma bt_index_ok:
  assumes "bt_size t \<noteq> 0" "length (bt_table t) = unat (bt_size t)"
  shows "\<exists>i < length (bt_table t). bt_index t h = Inr i \<and> i = unat (h mod ucast (bt_size t))"
proof -
  have "(ucast (bt_size t) :: 64 word) \<noteq> 0" using assms(1) by (simp flip: unat_eq_0) (simp add: unat_ucast_up)
  from unat_mod_less [OF this, of h] assms show ?thesis by (simp add: bt_index_def unat_ucast_up)
qed

lemma in_concat_nth: "p \<in> set (concat L) \<Longrightarrow> \<exists>i < length L. p \<in> set (L ! i)"
  unfolding set_concat by (metis UN_E in_set_conv_nth)

lemma in_slots_nth:
  assumes "in_slots n L" "p \<in> set (concat L)"
  shows "p \<in> set (L ! unat (be_hash p mod n))"
  using in_concat_nth [OF assms(2)] assms(1) by (auto simp: in_slots_def in_slot_def)

lemma in_slots_hashed: "in_slots n L \<Longrightarrow> p \<in> set (concat L) \<Longrightarrow> hashed p"
  using in_concat_nth [of p L] by (auto simp: in_slots_def in_slot_def)

text \<open>Growing keeps the entries: the new size is a prime of the list, or the table is frozen.\<close>

lemma bfd_hash_grow_ok:
  assumes t: "bt_ok t" and mem: "\<not> mem 34359738328"
  shows "\<exists>t'. bfd_hash_grow mem t = Inr t' \<and> bt_ok t' \<and> mset (bt_entries t') = mset (bt_entries t) \<and>
    bt_next t' = bt_next t \<and> bt_count t' = bt_count t"
proof (cases "\<not> bt_frozen t \<and> bt_count t > bt_size t * 3 div 4")
  case False
  with t show ?thesis by (auto simp: bfd_hash_grow_def)
next
  case True
  have "(ucast (bt_size t) :: 64 word) < 4294967291" using t by (simp add: bt_ok_def word_less_nat_alt unat_ucast_up)
  from higher_prime_ok [OF this] obtain p where p: "p \<in> set higher_primes" "higher_prime_number (ucast (bt_size t)) = Inr p" by blast
  show ?thesis
  proof (cases "p = 0 \<or> p * 8 div 8 \<noteq> p \<or> \<not> mem (p * 8)")
    case frozen: True
    with True p(2) t show ?thesis by (auto simp: bfd_hash_grow_def bt_ok_def bt_entries_def Let_def)
  next
    case False
    then have "p \<noteq> 4294967291" using mem by auto
    with p(1) have small: "p < 4294967291" by (auto simp: higher_primes_def)
    have small32: "unat p < 2 ^ 32" using small by (simp add: word_less_nat_alt)
    then have cast: "unat (ucast p :: 32 word) = unat p" by (simp add: unsigned_ucast_eq take_bit_nat_eq_self)
    then have cast64: "ucast (ucast p :: 32 word) = p" by (simp add: word_unat_eq_iff unat_ucast_up)
    have "\<forall>q \<in> set (concat (bt_table t)). hashed q" using t in_slots_hashed by (auto simp: bt_ok_def simp del: set_concat)
    from rehash_ok [of p "replicate (unat p) []", OF _ _ _ this] False obtain T' where
      T': "rehash p (bt_table t) (replicate (unat p) []) = Inr T'" "length T' = unat p" "in_slots p T'"
        "mset (concat T') = mset (concat (bt_table t))" by (auto simp: in_slots_def)
    have "bt_ok (t\<lparr>bt_table := T', bt_size := ucast p\<rparr>)"
      using t T' False small cast cast64 keys_ok_mset [OF T'(4), of "bt_next t"]
      by (auto simp: bt_ok_def bt_entries_def word_less_nat_alt unat_eq_0 simp flip: unat_eq_0 [of "ucast p"])
    with True p(2) False T' show ?thesis by (auto simp: bfd_hash_grow_def bt_entries_def Let_def)
  qed
qed

lemma bt_abs_mset: "bt_ok t \<Longrightarrow> mset (bt_entries t') = mset (bt_entries t) \<Longrightarrow> bt_abs t' = bt_abs t"
  using entry_map_mset [of "bt_entries t" "bt_entries t'"] by (simp add: bt_abs_def bt_ok_def keys_ok_def)

lemma bt_abs_Some: "bt_ok t \<Longrightarrow> bt_abs t k = Some p \<longleftrightarrow> p \<in> set (bt_entries t) \<and> be_string p = k"
  by (simp add: bt_abs_def bt_ok_def keys_ok_def entry_map_Some)

lemma bt_abs_None: "bt_ok t \<Longrightarrow> bt_abs t k = None \<longleftrightarrow> (\<forall>p \<in> set (bt_entries t). be_string p \<noteq> k)"
  using bt_abs_Some [of t k] by (metis not_Some_eq)

text \<open>The slot that the string of a lookup selects holds every entry with this string.\<close>

lemma lookup_chain:
  assumes "bt_ok t" "h = fst (bfd_hash_hash s)"
  shows "\<exists>i < length (bt_table t). bt_index t h = Inr i \<and> i = unat (h mod ucast (bt_size t)) \<and>
    find (\<lambda>p. be_hash p = h \<and> be_string p = s) (bt_table t ! i) = bt_abs t s"
proof -
  obtain i where i: "i < length (bt_table t)" "bt_index t h = Inr i" "i = unat (h mod ucast (bt_size t))"
    using bt_index_ok [of t h] assms(1) by (auto simp: bt_ok_def)
  let ?f = "find (\<lambda>p. be_hash p = h \<and> be_string p = s) (bt_table t ! i)"
  have slots: "in_slots (ucast (bt_size t)) (bt_table t)"
    using assms(1) by (simp add: bt_ok_def)
  have "?f = bt_abs t s"
  proof (cases ?f)
    case None
    have "\<forall>p \<in> set (bt_entries t). be_string p \<noteq> s"
    proof
      fix p assume p: "p \<in> set (bt_entries t)"
      then have "p \<in> set (bt_table t ! unat (be_hash p mod ucast (bt_size t)))" "hashed p"
        using in_slots_nth [OF slots] in_slots_hashed [OF slots] by (simp_all add: bt_entries_def)
      with None assms(2) i(3) show "be_string p \<noteq> s" by (auto simp: find_None_iff hashed_def)
    qed
    then have "bt_abs t s = None" using bt_abs_None [OF assms(1)] by blast
    with None show ?thesis by simp
  next
    case (Some p)
    then have "p \<in> set (bt_table t ! i)" "be_string p = s" by (auto simp: find_Some_iff)
    with Some i(1) bt_abs_Some [OF assms(1), of s p] show ?thesis by (auto simp: bt_entries_def)
  qed
  with i show ?thesis by blast
qed

text \<open>Changing one chain: the table stays well formed when the entries keep their keys apart.\<close>

lemma bt_ok_update:
  assumes t: "bt_ok t" and i: "i < length (bt_table t)" "\<forall>p \<in> set xs. in_slot (ucast (bt_size t)) i p"
    and es: "mset xs + mset (bt_entries t) = mset es + mset (bt_table t ! i)" "keys_ok n es"
    and t': "t' = t\<lparr>bt_table := (bt_table t)[i := xs], bt_count := c, bt_next := n\<rparr>"
  shows "bt_ok t'" "mset (bt_entries t') = mset es"
proof -
  have "mset (concat ((bt_table t)[i := xs])) + mset (bt_table t ! i) = mset es + mset (bt_table t ! i)"
    using mset_concat_update [OF i(1), of xs] es(1) by (simp add: bt_entries_def)
  then show m: "mset (bt_entries t') = mset es" by (simp add: t' bt_entries_def)
  show "bt_ok t'"
    using t in_slots_update [of _ "bt_table t" xs, OF _ i(2)] keys_ok_mset [OF m, of n] es(2) by (simp add: bt_ok_def t')
qed

lemma bt_ok_push:
  assumes t: "bt_ok t" and i: "i < length (bt_table t)" "i = unat (be_hash e mod ucast (bt_size t))"
    and e: "hashed e" "keys_ok n (e # bt_entries t)"
    and t': "t' = t\<lparr>bt_table := (bt_table t)[i := e # bt_table t ! i], bt_count := c, bt_next := n\<rparr>"
  shows "bt_ok t'" "mset (bt_entries t') = mset (e # bt_entries t)"
proof -
  have "in_slot (ucast (bt_size t)) i e" using i(2) e(1) by (simp add: in_slot_def)
  then have slot: "\<forall>p \<in> set (e # bt_table t ! i). in_slot (ucast (bt_size t)) i p"
    using t i(1) by (simp add: bt_ok_def in_slots_def)
  show "bt_ok t'" "mset (bt_entries t') = mset (e # bt_entries t)"
    by (rule bt_ok_update [OF t i(1) slot _ e(2) t']; simp)+
qed

lemma bt_abs_eq: "bt_ok t \<Longrightarrow> mset (bt_entries t) = mset es \<Longrightarrow> bt_abs t = entry_map es"
  using entry_map_mset [of "bt_entries t" es] by (simp add: bt_abs_def bt_ok_def keys_ok_def)

lemma entry_map_Cons: "entry_map (e # es) = (entry_map es)(be_string e \<mapsto> e)"
  by (simp add: entry_map_def)

definition new_entry :: "'a bfd_hash_table \<Rightarrow> string \<Rightarrow> 'a \<Rightarrow> 'a bfd_hash_entry" where
  "new_entry t s d = \<lparr>be_id = bt_next t, be_string = s, be_hash = fst (bfd_hash_hash s), be_data = d\<rparr>"

lemma new_entry_simps [simp]:
  "be_id (new_entry t s d) = bt_next t" "be_string (new_entry t s d) = s"
  "be_hash (new_entry t s d) = fst (bfd_hash_hash s)" "be_data (new_entry t s d) = d"
  by (simp_all add: new_entry_def)

lemma new_entry_hash: "be_hash (new_entry t s d) = fst (bfd_hash_hash (be_string (new_entry t s d)))"
  by simp

lemma bfd_hash_insert_ok:
  assumes t: "bt_ok t" and new: "bt_abs t s = None" "newfunc s = Some d" and mem: "\<not> mem 34359738328"
  shows "\<exists>t'. bfd_hash_insert mem newfunc t s (fst (bfd_hash_hash s)) = Inr (Some (new_entry t s d), t') \<and> bt_ok t' \<and>
    mset (bt_entries t') = mset (new_entry t s d # bt_entries t) \<and> bt_next t' = bt_next t + 1"
proof -
  let ?e = "new_entry t s d"
  obtain i where i: "i < length (bt_table t)" "bt_index t (be_hash ?e) = Inr i" "i = unat (be_hash ?e mod ucast (bt_size t))"
    using lookup_chain [OF t refl, of s] by auto
  define t1 where "t1 = t\<lparr>bt_table := (bt_table t)[i := ?e # bt_table t ! i], bt_count := bt_count t + 1, bt_next := bt_next t + 1\<rparr>"
  have "keys_ok (bt_next t + 1) (?e # bt_entries t)"
    using t new(1) bt_abs_None [OF t] by (auto simp: bt_ok_def keys_ok_def)
  note t1 = bt_ok_push [OF t i(1,3) _ this t1_def, unfolded hashed_def, OF new_entry_hash]
  from bfd_hash_grow_ok [of t1 mem, OF t1(1) mem] obtain t' where
    "bfd_hash_grow mem t1 = Inr t'" "bt_ok t'" "mset (bt_entries t') = mset (?e # bt_entries t)" "bt_next t' = bt_next t + 1"
    by (auto simp: t1(2)) (simp add: t1_def)
  moreover have "bfd_hash_insert mem newfunc t s (fst (bfd_hash_hash s)) = rbind (bfd_hash_grow mem t1) (\<lambda>t. Inr (Some ?e, t))"
    using i new(2) by (simp add: bfd_hash_insert_def Let_def t1_def new_entry_def)
  ultimately show ?thesis by simp
qed

lemma bfd_hash_find_ok: "bt_ok t \<Longrightarrow> bfd_hash_lookup mem newfunc t s False cp = Inr (bt_abs t s, t)"
  using lookup_chain [of t _ s] by (auto simp: bfd_hash_lookup_def split: prod.splits option.splits)

text \<open>The entry that a lookup with \<open>create\<close> returns, and what the allocations allow.\<close>

definition created :: "(64 word \<Rightarrow> bool) \<Rightarrow> (string \<Rightarrow> 'a option) \<Rightarrow> 'a bfd_hash_table \<Rightarrow> string \<Rightarrow> bool \<Rightarrow> 'a bfd_hash_entry option" where
  "created mem newfunc t s cp =
     (case bt_abs t s of
        Some p \<Rightarrow> Some p
      | None \<Rightarrow> if cp \<and> \<not> mem (ucast (snd (bfd_hash_hash s) + 1)) then None else map_option (new_entry t s) (newfunc s))"

lemma bfd_hash_create_old: "bt_ok t \<Longrightarrow> bt_abs t s = Some p \<Longrightarrow> bfd_hash_lookup mem newfunc t s True cp = Inr (Some p, t)"
  using lookup_chain [of t _ s] by (auto simp: bfd_hash_lookup_def split: prod.splits option.splits)

lemma bfd_hash_create_full:
  assumes "bt_ok t" "bt_abs t s = None" "cp \<and> \<not> mem (ucast (snd (bfd_hash_hash s) + 1)) \<or> newfunc s = None"
  shows "bfd_hash_lookup mem newfunc t s True cp = Inr (None, t)"
  using lookup_chain [OF assms(1) refl, of s] assms(2,3)
  by (auto simp: bfd_hash_lookup_def bfd_hash_insert_def split: prod.splits)

lemma bfd_hash_create_new:
  assumes t: "bt_ok t" and new: "bt_abs t s = None" "\<not> (cp \<and> \<not> mem (ucast (snd (bfd_hash_hash s) + 1)))" "newfunc s = Some d"
    and mem: "\<not> mem 34359738328"
  shows "\<exists>t'. bfd_hash_lookup mem newfunc t s True cp = Inr (Some (new_entry t s d), t') \<and> bt_ok t' \<and>
    bt_abs t' = (bt_abs t)(s \<mapsto> new_entry t s d) \<and> bt_next t' = bt_next t + 1"
proof -
  from bfd_hash_insert_ok [where mem = mem and newfunc = newfunc, OF t new(1,3) mem] obtain t' where
    t': "bfd_hash_insert mem newfunc t s (fst (bfd_hash_hash s)) = Inr (Some (new_entry t s d), t')" "bt_ok t'"
      "mset (bt_entries t') = mset (new_entry t s d # bt_entries t)" "bt_next t' = bt_next t + 1" by blast
  have "bt_abs t' = (bt_abs t)(s \<mapsto> new_entry t s d)"
    using bt_abs_eq [OF t'(2,3)] by (simp add: entry_map_Cons bt_abs_def)
  moreover have "bfd_hash_lookup mem newfunc t s True cp = Inr (Some (new_entry t s d), t')"
    using lookup_chain [OF t refl, of s] new(1,2) t'(1) by (auto simp: bfd_hash_lookup_def split: prod.splits)
  ultimately show ?thesis using t'(2,4) by blast
qed

lemma bfd_hash_create_ok:
  assumes t: "bt_ok t" and mem: "\<not> mem 34359738328"
  shows "\<exists>t'. bfd_hash_lookup mem newfunc t s True cp = Inr (created mem newfunc t s cp, t') \<and> bt_ok t' \<and>
    bt_abs t' = (case created mem newfunc t s cp of None \<Rightarrow> bt_abs t | Some e \<Rightarrow> (bt_abs t)(s \<mapsto> e))"
proof -
  let ?full = "cp \<and> \<not> mem (ucast (snd (bfd_hash_hash s) + 1))"
  consider (old) p where "bt_abs t s = Some p" | (full) "bt_abs t s = None" "?full \<or> newfunc s = None"
    | (fresh) d where "bt_abs t s = None" "\<not> ?full" "newfunc s = Some d"
    by (cases "bt_abs t s"; cases "newfunc s") auto
  then show ?thesis
  proof cases
    case old
    with t bfd_hash_create_old [OF t old] show ?thesis by (simp add: created_def fun_upd_idem)
  next
    case full
    with t bfd_hash_create_full [where mem = mem and newfunc = newfunc, OF t full] show ?thesis by (auto simp: created_def)
  next
    case fresh
    with bfd_hash_create_new [where mem = mem and newfunc = newfunc, OF t fresh mem] show ?thesis by (auto simp: created_def)
  qed
qed

text \<open>Taking an entry out of its chain.\<close>

lemma unlink_remove1:
  "p \<in> set ch \<Longrightarrow> distinct (map be_id ch) \<Longrightarrow>
   takeWhile (\<lambda>q. be_id q \<noteq> be_id p) ch @ tl (dropWhile (\<lambda>q. be_id q \<noteq> be_id p) ch) = remove1 p ch"
proof (induction ch)
  case (Cons q ch)
  then show ?case by (cases "q = p") (auto simp: image_iff)
qed simp

lemma mset_unlink:
  assumes "p \<in> set ch" "distinct (map be_id ch)"
  shows "add_mset p (mset (takeWhile (\<lambda>q. be_id q \<noteq> be_id p) ch @ tl (dropWhile (\<lambda>q. be_id q \<noteq> be_id p) ch))) = mset ch"
  using assms by (simp add: unlink_remove1)

lemma distinct_chain:
  "distinct (map be_id (concat L)) \<Longrightarrow> i < length L \<Longrightarrow> distinct (map be_id (L ! i))"
proof (induction L arbitrary: i)
  case (Cons xs L)
  then show ?case by (cases i) auto
qed simp

lemma entry_chain:
  assumes "bt_ok t" "p \<in> set (bt_entries t)"
  shows "\<exists>i < length (bt_table t). bt_index t (be_hash p) = Inr i \<and> i = unat (be_hash p mod ucast (bt_size t)) \<and>
    p \<in> set (bt_table t ! i) \<and> distinct (map be_id (bt_table t ! i)) \<and> (\<exists>q \<in> set (bt_table t ! i). be_id q = be_id p)"
proof -
  obtain i where i: "i < length (bt_table t)" "bt_index t (be_hash p) = Inr i" "i = unat (be_hash p mod ucast (bt_size t))"
    using bt_index_ok [of t "be_hash p"] assms(1) by (auto simp: bt_ok_def)
  moreover have "p \<in> set (bt_table t ! i)"
    using in_slots_nth [of "ucast (bt_size t)" "bt_table t" p] assms i(3) by (simp add: bt_ok_def bt_entries_def)
  moreover have "distinct (map be_id (bt_table t ! i))"
    by (rule distinct_chain [OF _ i(1)]) (use assms(1) in \<open>simp add: bt_ok_def keys_ok_def bt_entries_def\<close>)
  ultimately show ?thesis by blast
qed

lemma bfd_hash_replace_ok:
  assumes t: "bt_ok t" and p: "p \<in> set (bt_entries t)" and nw: "be_string nw = be_string p" "be_hash nw = be_hash p"
      "be_id nw < bt_next t" "\<forall>q \<in> set (bt_entries t). be_id q = be_id nw \<longrightarrow> q = p"
  shows "\<exists>t'. bfd_hash_replace t p nw (chain_behind t p) = Inr t' \<and> bt_ok t' \<and> bt_abs t' = (bt_abs t)(be_string p \<mapsto> nw)"
proof -
  obtain i where i: "i < length (bt_table t)" "bt_index t (be_hash p) = Inr i" "i = unat (be_hash p mod ucast (bt_size t))"
    "p \<in> set (bt_table t ! i)" "distinct (map be_id (bt_table t ! i))" "\<exists>q \<in> set (bt_table t ! i). be_id q = be_id p"
    using entry_chain [OF t p] by blast
  define a where "a = takeWhile (\<lambda>q. be_id q \<noteq> be_id p) (bt_table t ! i)"
  define b where "b = tl (dropWhile (\<lambda>q. be_id q \<noteq> be_id p) (bt_table t ! i))"
  have ab: "add_mset p (mset (a @ b)) = mset (bt_table t ! i)" using mset_unlink [OF i(4,5)] by (simp add: a_def b_def)
  then have sub: "set (a @ b) \<subseteq> set (bt_table t ! i)" by (metis set_mset_mset set_mset_add_mset_insert subset_insertI)
  have slot: "\<forall>q \<in> set (bt_table t ! i). in_slot (ucast (bt_size t)) i q" using t i(1) by (simp add: bt_ok_def in_slots_def)
  then have "in_slot (ucast (bt_size t)) i nw" using i(4) nw(1,2) by (auto simp: in_slot_def hashed_def)
  with slot sub have slot': "\<forall>q \<in> set (a @ nw # b). in_slot (ucast (bt_size t)) i q" by auto
  define es where "es = remove1 p (bt_entries t)"
  have es: "mset (p # es) = mset (bt_entries t)" using p by (simp add: es_def)
  from es t have k: "keys_ok (bt_next t) (p # es)" using keys_ok_mset by (metis bt_ok_def)
  have "set es \<subseteq> set (bt_entries t)" unfolding es_def by (rule set_remove1_subset)
  moreover have "p \<notin> set es" using k by (auto simp: keys_ok_def)
  ultimately have keys: "keys_ok (bt_next t) (nw # es)" using k nw by (auto simp: keys_ok_def image_iff)
  define t' where "t' = t\<lparr>bt_table := (bt_table t)[i := a @ nw # b], bt_count := bt_count t, bt_next := bt_next t\<rparr>"
  have m: "mset (a @ nw # b) + mset (bt_entries t) = mset (nw # es) + mset (bt_table t ! i)"
    unfolding es [symmetric] ab [symmetric] by simp
  note t'_ok = bt_ok_update [OF t i(1) slot' m keys t'_def]
  have "mset (map be_id (a @ p # b)) = mset (map be_id (bt_table t ! i))"
    using arg_cong [where f = "image_mset be_id", OF ab] by simp
  then have "distinct (map be_id (a @ p # b))" using i(5) mset_eq_imp_distinct_iff by blast
  then have disj: "be_id ` set a \<inter> be_id ` set (p # b) = {}" by (simp only: map_append distinct_append set_map)
  then have apart: "be_id x \<noteq> be_id y" if "x \<in> set a" "y \<in> set (p # b)" for x y using that by blast
  have nwa: "be_id x \<noteq> be_id nw" if "x \<in> set a" for x
  proof
    assume "be_id x = be_id nw"
    moreover have "x \<in> set (bt_table t ! i)" using sub that by auto
    then have "x \<in> set (bt_entries t)" using i(1) unfolding bt_entries_def by (auto intro: nth_mem)
    ultimately have "x = p" using nw(4) by blast
    then show False using apart [OF that, of p] by simp
  qed
  have sep: "\<not> (\<exists>x \<in> set a. \<exists>y \<in> set (nw # b). be_id x = be_id y)"
  proof (intro notI, elim bexE)
    fix x y assume "x \<in> set a" "y \<in> set (nw # b)" "be_id x = be_id y"
    then show False using apart [of x y] nwa [of x] by (cases "y = nw") simp_all
  qed
  have someid: "\<not> (\<forall>q \<in> set (bt_table t ! i). be_id q \<noteq> be_id p)" using i(6) by blast
  have behind: "chain_behind t p = b" by (simp add: chain_behind_def b_def i(3) [symmetric])
  have "bfd_hash_replace t p nw (chain_behind t p) = Inr t'"
    using i(1,2) sep someid by (simp add: behind bfd_hash_replace_def Let_def a_def [symmetric] t'_def)
  moreover have "bt_abs t' = (bt_abs t)(be_string p \<mapsto> nw)"
    using bt_abs_eq [OF t'_ok] bt_abs_eq [OF t es [symmetric]] nw(1) by (simp add: entry_map_Cons)
  ultimately show ?thesis using t'_ok(1) by blast
qed


lemma bt_ok_unlink:
  assumes t: "bt_ok t" and p: "p \<in> set (bt_entries t)"
  shows "\<exists>i < length (bt_table t). bt_index t (be_hash p) = Inr i \<and> (\<exists>q \<in> set (bt_table t ! i). be_id q = be_id p) \<and>
    (let t' = t\<lparr>bt_table := (bt_table t)[i := takeWhile (\<lambda>q. be_id q \<noteq> be_id p) (bt_table t ! i) @
         tl (dropWhile (\<lambda>q. be_id q \<noteq> be_id p) (bt_table t ! i))]\<rparr>
     in bt_ok t' \<and> mset (bt_entries t') = mset (remove1 p (bt_entries t)))"
proof -
  obtain i where i: "i < length (bt_table t)" "bt_index t (be_hash p) = Inr i"
    "p \<in> set (bt_table t ! i)" "distinct (map be_id (bt_table t ! i))" "\<exists>q \<in> set (bt_table t ! i). be_id q = be_id p"
    using entry_chain [OF t p] by blast
  let ?es = "remove1 p (bt_entries t)"
  note un = unlink_remove1 [OF i(3,4)]
  have slot: "\<forall>q \<in> set (remove1 p (bt_table t ! i)). in_slot (ucast (bt_size t)) i q"
    using t i(1) set_remove1_subset [of p "bt_table t ! i"] by (auto simp: bt_ok_def in_slots_def)
  have keys: "keys_ok (bt_next t) ?es"
    using t set_remove1_subset [of p "bt_entries t"] by (auto simp: bt_ok_def keys_ok_def distinct_map inj_on_def)
  have m: "mset (remove1 p (bt_table t ! i)) + mset (bt_entries t) = mset ?es + mset (bt_table t ! i)"
    using p i(3) by (metis add.commute add_mset_remove_trivial_eq mset_remove1 set_mset_mset union_mset_add_mset_left union_mset_add_mset_right)
  have "bt_ok (t\<lparr>bt_table := (bt_table t)[i := remove1 p (bt_table t ! i)]\<rparr>) \<and>
      mset (bt_entries (t\<lparr>bt_table := (bt_table t)[i := remove1 p (bt_table t ! i)]\<rparr>)) = mset ?es"
    using bt_ok_update [OF t i(1) slot m keys, of _ "bt_count t", OF refl] by simp
  with i un show ?thesis by (auto simp: Let_def)
qed

lemma bfd_hash_rename_ok:
  assumes t: "bt_ok t" and p: "p \<in> set (bt_entries t)" and s: "bt_abs t s = None \<or> bt_abs t s = Some p"
  shows "\<exists>t'. bfd_hash_rename t s p = Inr t' \<and> bt_ok t' \<and>
    bt_abs t' = ((bt_abs t)(be_string p := None))(s \<mapsto> p\<lparr>be_string := s, be_hash := fst (bfd_hash_hash s)\<rparr>)"
proof -
  let ?e = "p\<lparr>be_string := s, be_hash := fst (bfd_hash_hash s)\<rparr>"
  let ?es = "remove1 p (bt_entries t)"
  obtain i L where i: "i < length (bt_table t)" "bt_index t (be_hash p) = Inr i" "\<exists>q \<in> set (bt_table t ! i). be_id q = be_id p"
    and L: "L = (bt_table t)[i := takeWhile (\<lambda>q. be_id q \<noteq> be_id p) (bt_table t ! i) @
         tl (dropWhile (\<lambda>q. be_id q \<noteq> be_id p) (bt_table t ! i))]"
      "bt_ok (t\<lparr>bt_table := L\<rparr>)" "mset (bt_entries (t\<lparr>bt_table := L\<rparr>)) = mset ?es"
    using bt_ok_unlink [OF t p] by (metis (no_types, lifting))
  define t1 where "t1 = t\<lparr>bt_table := L\<rparr>"
  note t1 = L(2,3) [folded t1_def]
  have es: "mset (p # ?es) = mset (bt_entries t)" using p by simp
  with t have k: "keys_ok (bt_next t) (p # ?es)" using keys_ok_mset by (metis bt_ok_def)
  have "\<forall>q \<in> set ?es. be_string q \<noteq> s"
    using s k bt_abs_None [OF t, of s] bt_abs_Some [OF t, of s p] set_remove1_subset [of p "bt_entries t"]
    by (auto simp: keys_ok_def)
  with k have "keys_ok (bt_next t) (?e # ?es)" by (auto simp: keys_ok_def)
  then have keys: "keys_ok (bt_next t) (?e # bt_entries t1)"
    using keys_ok_mset [of "?e # ?es" "?e # bt_entries t1"] t1(2) by simp
  obtain j where j: "j < length (bt_table t1)" "bt_index t1 (be_hash ?e) = Inr j" "j = unat (be_hash ?e mod ucast (bt_size t1))"
    using bt_index_ok [of t1] t1(1) by (metis bt_ok_def)
  define t' where "t' = t1\<lparr>bt_table := (bt_table t1)[j := ?e # bt_table t1 ! j], bt_count := bt_count t, bt_next := bt_next t\<rparr>"
  have "hashed ?e" by (simp add: hashed_def)
  note t' = bt_ok_push [OF t1(1) j(1,3) this keys t'_def]
  have "mset (bt_entries t') = mset (?e # ?es)" using t'(2) t1(2) by simp
  from bt_abs_eq [OF t'(1) this] have "bt_abs t' = (entry_map ?es)(s \<mapsto> ?e)" by (simp add: entry_map_Cons)
  moreover have "bt_abs t = (entry_map ?es)(be_string p \<mapsto> p)" using bt_abs_eq [OF t es [symmetric]] by (simp add: entry_map_Cons)
  moreover have "entry_map ?es (be_string p) = None"
    using k by (auto simp: keys_ok_def entry_map_def map_of_eq_None_iff image_image)
  ultimately have "bt_abs t' = ((bt_abs t)(be_string p := None))(s \<mapsto> ?e)" by (auto simp: fun_eq_iff)
  moreover have "bfd_hash_rename t s p = Inr t'"
    using i j by (auto simp: bfd_hash_rename_def L(1) [symmetric] Let_def t'_def t1_def bt_index_def)
  ultimately show ?thesis using t'(1) by blast
qed


text \<open>A table is made empty, and a traversal that is not stopped visits every entry once.\<close>

lemma bfd_hash_table_init_ok:
  assumes "bfd_hash_table_init_n mem sz = Some t" "sz \<noteq> 0" "sz < 4294967291"
  shows "bt_ok t" "bt_abs t = Map.empty"
proof -
  have t: "t = \<lparr>bt_table = replicate (unat sz) [], bt_size = sz, bt_count = 0, bt_frozen = False, bt_next = 0\<rparr>"
    using assms(1) by (auto simp: bfd_hash_table_init_n_def Let_def split: if_splits)
  show "bt_ok t" using assms(2,3) by (simp add: t bt_ok_def in_slots_def keys_ok_def bt_entries_def)
  show "bt_abs t = Map.empty" by (simp add: t bt_abs_def bt_entries_def entry_map_def)
qed

lemma bfd_hash_set_default_size_ok:
  "bfd_hash_set_default_size n \<in> {31, 61, 127, 251, 509, 1021, 2039, 4091, 8191, 16381, 32749, 65537}"
  by (auto simp: bfd_hash_set_default_size_def split: option.splits)

lemma bfd_hash_traverse_all:
  "bt_ok t \<Longrightarrow> (\<forall>p \<in> set (bt_entries t). func p) \<Longrightarrow> bfd_hash_traverse t func = Inr (bt_entries t, t\<lparr>bt_frozen := False\<rparr>)"
  by (auto simp: bfd_hash_traverse_def bt_ok_def bt_entries_def ld_def takeWhile_eq_all_conv [THEN iffD2] dropWhile_eq_Nil_conv [THEN iffD2])

section \<open>The table is a map\<close>

text \<open>
  C11: the hash table of BFD refines a finite map from strings to entries. In a well-formed
  table, with less than 32 GiB for one vector of chains: a lookup without \<open>create\<close> returns what the map holds and
  changes nothing; a lookup with \<open>create\<close> returns the entry of the string, makes one where there is
  none and changes the map at this string only, also when the insertion moves the whole table to a
  larger one. Renaming an entry to a string that no other entry has moves it to this string. Replacing
  an entry by a copy of it in a new object, with the same string, hash code and \<open>next\<close> pointer, exchanges
  it. Both are without a fault, and each operation leaves a well-formed table.
\<close>

theorem bfd_hash_refines_map:
  assumes "bt_ok t" "\<not> mem 34359738328"
  shows "bfd_hash_lookup mem newfunc t s False cp = Inr (bt_abs t s, t) \<and>
    (\<exists>t'. bfd_hash_lookup mem newfunc t s True cp = Inr (created mem newfunc t s cp, t') \<and> bt_ok t' \<and>
       bt_abs t' = (case created mem newfunc t s cp of None \<Rightarrow> bt_abs t | Some e \<Rightarrow> (bt_abs t)(s \<mapsto> e))) \<and>
    (\<forall>k p. bt_abs t k = Some p \<and> bt_abs t s \<in> {None, Some p} \<longrightarrow>
       (\<exists>t'. bfd_hash_rename t s p = Inr t' \<and> bt_ok t' \<and>
          bt_abs t' = ((bt_abs t)(k := None))(s \<mapsto> p\<lparr>be_string := s, be_hash := fst (bfd_hash_hash s)\<rparr>))) \<and>
    (\<forall>k p nw. bt_abs t k = Some p \<and> be_string nw = k \<and> be_hash nw = be_hash p \<and> be_id nw < bt_next t \<and>
         (\<forall>q \<in> ran (bt_abs t). be_id q = be_id nw \<longrightarrow> q = p) \<longrightarrow>
       (\<exists>t'. bfd_hash_replace t p nw (chain_behind t p) = Inr t' \<and> bt_ok t' \<and> bt_abs t' = (bt_abs t)(k \<mapsto> nw)))"
proof -
  have ran: "ran (bt_abs t) = set (bt_entries t)" using bt_abs_Some [OF assms(1)] by (auto simp: ran_def)
  have mem: "p \<in> set (bt_entries t)" "be_string p = k" if "bt_abs t k = Some p" for k p
    using that bt_abs_Some [OF assms(1)] by blast+
  have "\<exists>t'. bfd_hash_rename t s p = Inr t' \<and> bt_ok t' \<and>
      bt_abs t' = ((bt_abs t)(k := None))(s \<mapsto> p\<lparr>be_string := s, be_hash := fst (bfd_hash_hash s)\<rparr>)"
    if "bt_abs t k = Some p" "bt_abs t s \<in> {None, Some p}" for k p
    using bfd_hash_rename_ok [OF assms(1) mem(1) [OF that(1)], of s] that mem(2) by auto
  moreover have "\<exists>t'. bfd_hash_replace t p nw (chain_behind t p) = Inr t' \<and> bt_ok t' \<and> bt_abs t' = (bt_abs t)(k \<mapsto> nw)"
    if "bt_abs t k = Some p" "be_string nw = k" "be_hash nw = be_hash p" "be_id nw < bt_next t"
      "\<forall>q \<in> ran (bt_abs t). be_id q = be_id nw \<longrightarrow> q = p" for k p nw
    using bfd_hash_replace_ok [OF assms(1) mem(1) [OF that(1)] _ that(3,4)] that mem(2) [OF that(1)] by (simp add: ran)
  ultimately show ?thesis
    using bfd_hash_find_ok [OF assms(1)] bfd_hash_create_ok [where mem = mem, OF assms] by blast
qed

definition small_table :: "nat bfd_hash_table" where
  "small_table = \<lparr>bt_table = [[\<lparr>be_id = 0, be_string = ''a'', be_hash = fst (bfd_hash_hash ''a''), be_data = 5\<rparr>]],
     bt_size = 1, bt_count = 1, bt_frozen = False, bt_next = 1\<rparr>"

theorem bfd_hash_refines_map_witness:
  "bt_ok small_table \<and>
   (\<exists>t'. bfd_hash_lookup (\<lambda>n. n < 4096) (\<lambda>_. Some 7) small_table ''b'' True True =
        Inr (Some (new_entry small_table ''b'' 7), t') \<and> bt_ok t' \<and> bt_size t' = 31 \<and> 
      map_option be_data (bt_abs t' ''a'') = Some 5 \<and> map_option be_data (bt_abs t' ''b'') = Some 7)"
proof -
  have ok: "bt_ok small_table" by code_simp
  have c: "created (\<lambda>n. n < 4096) (\<lambda>_. Some 7) small_table ''b'' True = Some (new_entry small_table ''b'' 7)" by code_simp
  have a: "bt_abs small_table ''a'' = Some \<lparr>be_id = 0, be_string = ''a'', be_hash = fst (bfd_hash_hash ''a''), be_data = 5\<rparr>"
    by (simp add: bt_abs_def entry_map_def bt_entries_def small_table_def)
  have z: "case bfd_hash_lookup (\<lambda>n. n < 4096) (\<lambda>_. Some 7) small_table ''b'' True True of
      Inr (e, t) \<Rightarrow> bt_size t = 31 | Inl e \<Rightarrow> False" by code_simp
  show ?thesis
    using bfd_hash_refines_map [OF ok, of "\<lambda>n. n < 4096" "\<lambda>_. Some 7" "''b''" True] ok a z by (auto simp: c)
qed

end
