(* ===== verification/Elf_Strtab.thy ===== *)
theory Elf_Strtab
  imports Bfd_Hash
begin

text \<open>
  The string tables of an ELF file, \<^verbatim>\<open>bfd/elf-strtab.c\<close>: names of symbols and of sections. Strings are
  collected with reference counts; \<open>_bfd_elf_strtab_finalize\<close> merges a string that ends another one
  into it and gives offsets, \<open>_bfd_elf_strtab_emit\<close> writes the section.

  An entry lives in the hash table and is shared by pointer; \<open>es_heap\<close> holds the
  entries by the address \<open>be_id\<close> that the hash table gives them. \<open>es_array\<close> has \<open>es_alloced\<close> pointers, with \<open>None\<close> for the
  first one and for those not written yet. \<open>es_asserts\<close> counts the messages of
  \<open>BFD_ASSERT\<close>, which go on. The parameters are \<open>mem\<close>, whether the allocator has so many bytes, \<open>addr\<close>,
  the address of an entry as a number, \<open>qsort\<close> of the C library, and \<open>bwrite\<close>, whether all of the bytes are written.
\<close>

subsection \<open>Entries and tables\<close>

datatype strtab_u = U_index bfd_vma | U_suffix nat

record elf_strtab_hash_entry =
  ee_string :: string
  ee_len :: c_uint
  ee_refcount :: c_uint
  ee_u :: strtab_u

record elf_strtab_hash =
  es_table :: "unit bfd_hash_table"
  es_heap :: "elf_strtab_hash_entry list"
  es_size :: "64 word"
  es_alloced :: "64 word"
  es_sec_size :: bfd_vma
  es_array :: "nat option list"
  es_asserts :: nat

definition BFD_ASSERT :: "bool \<Rightarrow> elf_strtab_hash \<Rightarrow> elf_strtab_hash" where
  "BFD_ASSERT x tab = (if x then tab else tab\<lparr>es_asserts := es_asserts tab + 1\<rparr>)"

text \<open>Reading the member \<open>index\<close> of the union where it holds a pointer reads the pointer.\<close>

definition u_index :: "(nat \<Rightarrow> bfd_vma) \<Rightarrow> elf_strtab_hash_entry \<Rightarrow> bfd_vma" where
  "u_index addr e = (case ee_u e of U_index i \<Rightarrow> i | U_suffix p \<Rightarrow> addr p)"

definition u_suffix :: "elf_strtab_hash_entry \<Rightarrow> nat result" where
  "u_suffix e = (case ee_u e of U_index i \<Rightarrow> Inl Out_of_bounds | U_suffix p \<Rightarrow> Inr p)"

text \<open>The pointer \<open>tab->array[idx]\<close>, about to be followed.\<close>

definition es_ptr :: "elf_strtab_hash \<Rightarrow> nat \<Rightarrow> nat result" where
  "es_ptr tab idx =
     rbind (rd8 (es_array tab) idx) (\<lambda>p. case p of None \<Rightarrow> Inl Null_pointer | Some p \<Rightarrow> Inr p)"

definition es_entry :: "elf_strtab_hash \<Rightarrow> nat \<Rightarrow> elf_strtab_hash_entry result" where
  "es_entry tab idx = rbind (es_ptr tab idx) (rd8 (es_heap tab))"

definition es_update :: "elf_strtab_hash \<Rightarrow> nat \<Rightarrow> (elf_strtab_hash_entry \<Rightarrow> elf_strtab_hash_entry) \<Rightarrow> elf_strtab_hash result" where
  "es_update tab p f = rbind (rd8 (es_heap tab) p) (\<lambda>e. Inr (tab\<lparr>es_heap := (es_heap tab)[p := f e]\<rparr>))"

text \<open>A loop over the indices of a list.\<close>

fun rfold :: "('x \<Rightarrow> 's \<Rightarrow> 's result) \<Rightarrow> 'x list \<Rightarrow> 's \<Rightarrow> 's result" where
  "rfold f [] s = Inr s"
| "rfold f (x # xs) s = rbind (f x s) (rfold f xs)"

subsection \<open>Collecting strings\<close>

definition elf_strtab_hash_newfunc :: "(64 word \<Rightarrow> bool) \<Rightarrow> string \<Rightarrow> unit option" where
  "elf_strtab_hash_newfunc mem string = (if mem 40 then Some () else None)"

text \<open>The fields of an entry that was just made.\<close>

definition new_strtab_entry :: "string \<Rightarrow> elf_strtab_hash_entry" where
  "new_strtab_entry string = \<lparr>ee_string = string, ee_len = 0, ee_refcount = 0, ee_u = U_index (- 1)\<rparr>"

definition elf_strtab_init :: "64 word \<Rightarrow> (64 word \<Rightarrow> bool) \<Rightarrow> elf_strtab_hash option" where
  "elf_strtab_init bfd_default_hash_table_size mem =
     (if \<not> mem 72 then None
      else case bfd_hash_table_init bfd_default_hash_table_size mem of
        None \<Rightarrow> None
      | Some t \<Rightarrow>
          if \<not> mem (64 * 8) then None
          else Some \<lparr>es_table = t, es_heap = [], es_size = 1, es_alloced = 64, es_sec_size = 0,
                     es_array = replicate 64 None, es_asserts = 0\<rparr>)"

text \<open>The entry of a string, made where there is none.\<close>

definition strtab_lookup ::
  "(64 word \<Rightarrow> bool) \<Rightarrow> elf_strtab_hash \<Rightarrow> string \<Rightarrow> bool \<Rightarrow> (nat option \<times> elf_strtab_hash) result" where
  "strtab_lookup mem tab str copy =
     rbind (bfd_hash_lookup mem (elf_strtab_hash_newfunc mem) (es_table tab) str True copy) (\<lambda>(entry, t).
     Inr (map_option be_id entry,
       tab\<lparr>es_heap := es_heap tab @ replicate (bt_next t - bt_next (es_table tab)) (new_strtab_entry str), es_table := t\<rparr>))"

text \<open>An entry without a length gets the next index; the array is doubled when it is full.\<close>

definition strtab_new_index ::
  "(64 word \<Rightarrow> bool) \<Rightarrow> elf_strtab_hash \<Rightarrow> nat \<Rightarrow> string \<Rightarrow> (64 word \<times> elf_strtab_hash) result" where
  "strtab_new_index mem tab entry str =
     (let len = of_nat (length str + 1) in
      rbind (es_update tab entry (\<lambda>e. e\<lparr>ee_len := len\<rparr>)) (\<lambda>tab.
      let tab = BFD_ASSERT (0 <s len) tab;
          alloced = es_alloced tab * 2 in
      if es_size tab = es_alloced tab \<and> \<not> mem (alloced * 8) then
        Inr (- 1, tab\<lparr>es_alloced := alloced, es_array := []\<rparr>)
      else
        let tab = (if es_size tab = es_alloced tab then
                     tab\<lparr>es_alloced := alloced,
                         es_array := es_array tab @ replicate (unat alloced - length (es_array tab)) None\<rparr>
                   else tab);
            index = es_size tab in
        rbind (es_update tab entry (\<lambda>e. e\<lparr>ee_u := U_index index\<rparr>)) (\<lambda>tab.
        rbind (wr8 (es_array tab) (unat index) (Some entry)) (\<lambda>array.
        Inr (index, tab\<lparr>es_size := index + 1, es_array := array\<rparr>)))))"

definition elf_strtab_add ::
  "(64 word \<Rightarrow> bool) \<Rightarrow> (nat \<Rightarrow> bfd_vma) \<Rightarrow> elf_strtab_hash \<Rightarrow> string \<Rightarrow> bool \<Rightarrow> (64 word \<times> elf_strtab_hash) result" where
  "elf_strtab_add mem addr tab str copy =
     (if str = [] then Inr (0, tab)
      else
        rbind (strtab_lookup mem (BFD_ASSERT (es_sec_size tab = 0) tab) str copy) (\<lambda>(entry, tab).
        case entry of
          None \<Rightarrow> Inr (- 1, tab)
        | Some p \<Rightarrow>
            rbind (es_update tab p (\<lambda>e. e\<lparr>ee_refcount := ee_refcount e + 1\<rparr>)) (\<lambda>tab.
            rbind (rd8 (es_heap tab) p) (\<lambda>e.
            if ee_len e = 0 then strtab_new_index mem tab p str else Inr (u_index addr e, tab)))))"

definition elf_strtab_addref :: "elf_strtab_hash \<Rightarrow> 64 word \<Rightarrow> elf_strtab_hash result" where
  "elf_strtab_addref tab idx =
     (if idx = 0 \<or> idx = - 1 then Inr tab
      else
        let tab = BFD_ASSERT (idx < es_size tab) (BFD_ASSERT (es_sec_size tab = 0) tab) in
        rbind (es_ptr tab (unat idx)) (\<lambda>p. es_update tab p (\<lambda>e. e\<lparr>ee_refcount := ee_refcount e + 1\<rparr>)))"

definition elf_strtab_delref :: "elf_strtab_hash \<Rightarrow> 64 word \<Rightarrow> elf_strtab_hash result" where
  "elf_strtab_delref tab idx =
     (if idx = 0 \<or> idx = - 1 then Inr tab
      else
        let tab = BFD_ASSERT (idx < es_size tab) (BFD_ASSERT (es_sec_size tab = 0) tab) in
        rbind (es_ptr tab (unat idx)) (\<lambda>p.
        rbind (rd8 (es_heap tab) p) (\<lambda>e.
        es_update (BFD_ASSERT (ee_refcount e > 0) tab) p (\<lambda>e. e\<lparr>ee_refcount := ee_refcount e - 1\<rparr>))))"

definition elf_strtab_refcount :: "elf_strtab_hash \<Rightarrow> 64 word \<Rightarrow> c_uint result" where
  "elf_strtab_refcount tab idx = rbind (es_entry tab (unat idx)) (\<lambda>e. Inr (ee_refcount e))"

definition elf_strtab_clear_all_refs :: "elf_strtab_hash \<Rightarrow> elf_strtab_hash result" where
  "elf_strtab_clear_all_refs tab =
     rfold (\<lambda>idx tab. rbind (es_ptr tab idx) (\<lambda>p. es_update tab p (\<lambda>e. e\<lparr>ee_refcount := 0\<rparr>)))
       [1..<unat (es_size tab)] tab"

text \<open>The saved counts: \<open>None\<close> is the null pointer, and element 0 of the array is not used.\<close>

definition elf_strtab_save :: "(64 word \<Rightarrow> bool) \<Rightarrow> elf_strtab_hash \<Rightarrow> (64 word \<times> c_uint list) option result" where
  "elf_strtab_save mem tab =
     (if \<not> mem (16 + (es_size tab - 1) * 4) then Inr None
      else
        rbind (rfold (\<lambda>idx counts. rbind (es_entry tab idx) (\<lambda>e. Inr (counts @ [ee_refcount e])))
                 [1..<unat (es_size tab)] [0]) (\<lambda>counts.
        Inr (Some (es_size tab, counts))))"

definition elf_strtab_restore :: "elf_strtab_hash \<Rightarrow> 64 word \<times> c_uint list \<Rightarrow> elf_strtab_hash result" where
  "elf_strtab_restore tab save =
     (let (save_size, counts) = save; curr_size = es_size tab;
          tab = BFD_ASSERT (save_size \<le> curr_size) (BFD_ASSERT (es_sec_size tab = 0) tab) in
      rbind (rfold (\<lambda>idx tab.
               rbind (es_ptr tab idx) (\<lambda>p.
               rbind (rd8 counts idx) (\<lambda>c. es_update tab p (\<lambda>e. e\<lparr>ee_refcount := c\<rparr>))))
          [1..<unat save_size] (tab\<lparr>es_size := save_size\<rparr>)) (\<lambda>tab.
      rfold (\<lambda>idx tab. rbind (es_ptr tab idx) (\<lambda>p. es_update tab p (\<lambda>e. e\<lparr>ee_refcount := 0, ee_len := 0\<rparr>)))
        [max 1 (unat save_size)..<unat curr_size] tab))"

definition elf_strtab_size :: "elf_strtab_hash \<Rightarrow> bfd_vma" where
  "elf_strtab_size tab = (if es_sec_size tab \<noteq> 0 then es_sec_size tab else es_size tab)"

definition elf_strtab_offset :: "(nat \<Rightarrow> bfd_vma) \<Rightarrow> elf_strtab_hash \<Rightarrow> 64 word \<Rightarrow> (bfd_vma \<times> elf_strtab_hash) result" where
  "elf_strtab_offset addr tab idx =
     (if idx = 0 then Inr (0, tab)
      else
        let tab = BFD_ASSERT (es_sec_size tab \<noteq> 0) (BFD_ASSERT (idx < es_size tab) tab) in
        rbind (es_ptr tab (unat idx)) (\<lambda>p.
        rbind (rd8 (es_heap tab) p) (\<lambda>e.
        rbind (es_update (BFD_ASSERT (ee_refcount e > 0) tab) p (\<lambda>e. e\<lparr>ee_refcount := ee_refcount e - 1\<rparr>)) (\<lambda>tab.
        rbind (es_entry tab (unat idx)) (\<lambda>e.
        Inr (u_index addr e, tab))))))"

subsection \<open>Merging suffixes\<close>

text \<open>The comparison of two strings from their ends. The lengths do not count the zero here.\<close>

fun revcmp :: "string \<Rightarrow> string \<Rightarrow> int \<Rightarrow> int" where
  "revcmp (a # as) (b # bs) d = (if a \<noteq> b then int (of_char a) - int (of_char b) else revcmp as bs d)"
| "revcmp _ _ d = d"

definition strrevcmp :: "elf_strtab_hash_entry \<Rightarrow> elf_strtab_hash_entry \<Rightarrow> int" where
  "strrevcmp A B =
     revcmp (rev (take (unat (ee_len A)) (ee_string A))) (rev (take (unat (ee_len B)) (ee_string B)))
       (sint (ee_len A - ee_len B))"

text \<open>The bytes of a string in memory, with the zero behind it.\<close>

definition c_bytes :: "string \<Rightarrow> bytes" where
  "c_bytes s = map (\<lambda>c. of_nat (of_char c)) s @ [0]"

definition is_suffix :: "elf_strtab_hash_entry \<Rightarrow> elf_strtab_hash_entry \<Rightarrow> bool result" where
  "is_suffix A B =
     (if ee_len A \<le>s ee_len B then Inr False
      else
        rbind (ld (c_bytes (ee_string A)) (unat (ee_len A - ee_len B)) (unat (ee_len B - 1))) (\<lambda>a.
        rbind (ld (c_bytes (ee_string B)) 0 (unat (ee_len B - 1))) (\<lambda>b. Inr (a = b))))"

text \<open>The entries in use, with the zero taken off their lengths.\<close>

definition collect_step :: "nat \<Rightarrow> nat list \<times> elf_strtab_hash \<Rightarrow> (nat list \<times> elf_strtab_hash) result" where
  "collect_step i at =
     (let (array, tab) = at in
      rbind (es_ptr tab i) (\<lambda>p.
      rbind (rd8 (es_heap tab) p) (\<lambda>e.
      if ee_refcount e \<noteq> 0 then
        rbind (es_update tab p (\<lambda>e. e\<lparr>ee_len := ee_len e - 1\<rparr>)) (\<lambda>tab. Inr (array @ [p], tab))
      else rbind (es_update tab p (\<lambda>e. e\<lparr>ee_len := 0\<rparr>)) (\<lambda>tab. Inr (array, tab)))))"

text \<open>The sorted array from its end; \<open>e\<close> is the last string that was kept.\<close>

fun merge_loop :: "nat \<Rightarrow> nat list \<Rightarrow> elf_strtab_hash \<Rightarrow> elf_strtab_hash result" where
  "merge_loop e [] tab = Inr tab"
| "merge_loop e (cmp # rest) tab =
     rbind (es_update tab cmp (\<lambda>c. c\<lparr>ee_len := ee_len c + 1\<rparr>)) (\<lambda>tab.
     rbind (rd8 (es_heap tab) e) (\<lambda>A.
     rbind (rd8 (es_heap tab) cmp) (\<lambda>B.
     rbind (is_suffix A B) (\<lambda>suffix.
     if suffix then
       rbind (es_update tab cmp (\<lambda>c. c\<lparr>ee_u := U_suffix e, ee_len := - ee_len c\<rparr>)) (merge_loop e rest)
     else merge_loop cmp rest tab))))"

definition merge_suffixes :: "nat list \<Rightarrow> elf_strtab_hash \<Rightarrow> elf_strtab_hash result" where
  "merge_suffixes array tab =
     (case rev array of
        [] \<Rightarrow> Inr tab
      | e # rest \<Rightarrow> rbind (es_update tab e (\<lambda>e. e\<lparr>ee_len := ee_len e + 1\<rparr>)) (merge_loop e rest))"

definition assign_step :: "nat \<Rightarrow> bfd_vma \<times> elf_strtab_hash \<Rightarrow> (bfd_vma \<times> elf_strtab_hash) result" where
  "assign_step i sa =
     (let (sec_size, tab) = sa in
      rbind (es_ptr tab i) (\<lambda>p.
      rbind (rd8 (es_heap tab) p) (\<lambda>e.
      if ee_refcount e \<noteq> 0 \<and> 0 <s ee_len e then
        rbind (es_update tab p (\<lambda>e. e\<lparr>ee_u := U_index sec_size\<rparr>)) (\<lambda>tab. Inr (sec_size + scast (ee_len e), tab))
      else Inr (sec_size, tab))))"

definition adjust_step :: "(nat \<Rightarrow> bfd_vma) \<Rightarrow> nat \<Rightarrow> elf_strtab_hash \<Rightarrow> elf_strtab_hash result" where
  "adjust_step addr i tab =
     rbind (es_ptr tab i) (\<lambda>p.
     rbind (rd8 (es_heap tab) p) (\<lambda>e.
     if ee_refcount e \<noteq> 0 \<and> ee_len e <s 0 then
       rbind (u_suffix e) (\<lambda>q.
       rbind (rd8 (es_heap tab) q) (\<lambda>s.
       es_update tab p (\<lambda>e. e\<lparr>ee_u := U_index (u_index addr s + scast (ee_len s + ee_len e))\<rparr>)))
     else Inr tab))"

definition elf_strtab_finalize ::
  "(64 word \<Rightarrow> bool) \<Rightarrow> (nat \<Rightarrow> bfd_vma) \<Rightarrow> ((nat \<Rightarrow> nat \<Rightarrow> int) \<Rightarrow> nat list \<Rightarrow> nat list)
     \<Rightarrow> elf_strtab_hash \<Rightarrow> elf_strtab_hash result" where
  "elf_strtab_finalize mem addr qsort tab =
     (let idxs = [1..<unat (es_size tab)] in
      rbind (if \<not> mem (es_size tab * 8) then Inr tab
             else
               rbind (rfold collect_step idxs ([], tab)) (\<lambda>(array, tab).
               merge_suffixes (qsort (\<lambda>a b. strrevcmp (es_heap tab ! a) (es_heap tab ! b)) array) tab)) (\<lambda>tab.
      rbind (rfold assign_step idxs (1, tab)) (\<lambda>(sec_size, tab).
      rfold (adjust_step addr) idxs (tab\<lparr>es_sec_size := sec_size\<rparr>))))"

subsection \<open>Writing the section\<close>

text \<open>The bytes that are written, or \<open>None\<close> when a write fails.\<close>

definition emit_step ::
  "(bytes \<Rightarrow> bytes \<Rightarrow> bool) \<Rightarrow> nat \<Rightarrow> bytes option \<times> bfd_vma \<times> elf_strtab_hash \<Rightarrow> (bytes option \<times> bfd_vma \<times> elf_strtab_hash) result" where
  "emit_step bwrite i sa =
     (let (out, off, tab) = sa in
      case out of None \<Rightarrow> Inr sa
      | Some out \<Rightarrow>
          rbind (es_entry tab i) (\<lambda>e.
          let tab = BFD_ASSERT (ee_refcount e = 0) tab; len = ee_len e in
          if len <s 0 then Inr (Some out, off, tab)
          else
            rbind (ld (c_bytes (ee_string e)) 0 (unat len)) (\<lambda>str.
            if \<not> bwrite out str then Inr (None, off, tab)
            else Inr (Some (out @ str), off + ucast len, tab))))"

definition elf_strtab_emit ::
  "(bytes \<Rightarrow> bytes \<Rightarrow> bool) \<Rightarrow> elf_strtab_hash \<Rightarrow> (bytes option \<times> elf_strtab_hash) result" where
  "elf_strtab_emit bwrite tab =
     (if \<not> bwrite [] [0] then Inr (None, tab)
      else
        rbind (rfold (emit_step bwrite) [1..<unat (es_size tab)] (Some [0], 1, tab)) (\<lambda>(out, off, tab).
        Inr (out, if out = None then tab else BFD_ASSERT (off = es_sec_size tab) tab)))"


section \<open>Loops over the entries\<close>

lemma BFD_ASSERT_True [simp]: "BFD_ASSERT True tab = tab"
  by (simp add: BFD_ASSERT_def)

text \<open>The pointer at an index of the array, and that the index may be used.\<close>

definition es_at :: "elf_strtab_hash \<Rightarrow> nat \<Rightarrow> nat" where
  "es_at tab i = the (es_array tab ! i)"

definition slot_ptr :: "elf_strtab_hash \<Rightarrow> nat \<Rightarrow> bool" where
  "slot_ptr tab i \<longleftrightarrow> i < length (es_array tab) \<and> es_array tab ! i = Some (es_at tab i)"

lemma es_at_update [simp]:
  "es_at (tab\<lparr>es_heap := H\<rparr>) = es_at tab" "es_at (tab\<lparr>es_table := t\<rparr>) = es_at tab"
  "es_at (tab\<lparr>es_sec_size := x\<rparr>) = es_at tab" "es_at (tab\<lparr>es_asserts := c\<rparr>) = es_at tab"
  "slot_ptr (tab\<lparr>es_heap := H\<rparr>) = slot_ptr tab" "slot_ptr (tab\<lparr>es_table := t\<rparr>) = slot_ptr tab"
  "slot_ptr (tab\<lparr>es_sec_size := x\<rparr>) = slot_ptr tab" "slot_ptr (tab\<lparr>es_asserts := c\<rparr>) = slot_ptr tab"
  by (simp_all add: es_at_def slot_ptr_def fun_eq_iff)

lemma es_ptr_slot: "slot_ptr tab i \<Longrightarrow> es_ptr (tab\<lparr>es_heap := H\<rparr>) i = Inr (es_at tab i)"
  by (simp add: es_ptr_def slot_ptr_def)

lemma es_update_heap:
  "p < length H \<Longrightarrow> es_update (tab\<lparr>es_heap := H\<rparr>) p f = Inr (tab\<lparr>es_heap := H[p := f (H ! p)]\<rparr>)"
  by (simp add: es_update_def)

text \<open>What the loops leave alone: the strings and the counts.\<close>

definition same_names :: "elf_strtab_hash_entry list \<Rightarrow> elf_strtab_hash_entry list \<Rightarrow> bool" where
  "same_names H H' \<longleftrightarrow> length H' = length H \<and>
     (\<forall>q < length H. ee_string (H' ! q) = ee_string (H ! q) \<and> ee_refcount (H' ! q) = ee_refcount (H ! q))"

lemma same_names_refl [simp]: "same_names H H"
  by (simp add: same_names_def)

lemma same_names_trans: "same_names H H' \<Longrightarrow> same_names H' H'' \<Longrightarrow> same_names H H''"
  by (simp add: same_names_def)

lemma same_names_update:
  "same_names H H' \<Longrightarrow> ee_string e = ee_string (H' ! p) \<Longrightarrow> ee_refcount e = ee_refcount (H' ! p) \<Longrightarrow> same_names H (H'[p := e])"
  by (cases "p < length H'") (auto simp: same_names_def nth_list_update)

definition collected :: "elf_strtab_hash_entry \<Rightarrow> elf_strtab_hash_entry" where
  "collected e = e\<lparr>ee_len := if ee_refcount e \<noteq> 0 then ee_len e - 1 else 0\<rparr>"

lemma collected_simps [simp]:
  "ee_string (collected e) = ee_string e" "ee_refcount (collected e) = ee_refcount e" "ee_u (collected e) = ee_u e"
  by (simp_all add: collected_def)

lemma collect_loop:
  "distinct (map (es_at tab) is) \<Longrightarrow> (\<forall>i \<in> set is. slot_ptr tab i \<and> es_at tab i < length H) \<Longrightarrow>
   \<exists>H'. rfold collect_step is (acc, tab\<lparr>es_heap := H\<rparr>) =
      Inr (acc @ filter (\<lambda>p. ee_refcount (H ! p) \<noteq> 0) (map (es_at tab) is), tab\<lparr>es_heap := H'\<rparr>) \<and> length H' = length H \<and>
     (\<forall>q < length H. H' ! q = (if q \<in> es_at tab ` set is then collected (H ! q) else H ! q))"
proof (induction "is" arbitrary: acc H)
  case (Cons i "is")
  let ?p = "es_at tab i"
  let ?H = "H[?p := collected (H ! ?p)]"
  have p: "?p < length H" "slot_ptr tab i" using Cons.prems by auto
  have step: "collect_step i (acc, tab\<lparr>es_heap := H\<rparr>) =
      Inr (acc @ filter (\<lambda>p. ee_refcount (H ! p) \<noteq> 0) [?p], tab\<lparr>es_heap := ?H\<rparr>)"
    using p by (simp add: collect_step_def es_ptr_slot es_update_heap collected_def)
  have ne: "?p \<notin> es_at tab ` set is" using Cons.prems(1) by auto
  then have filt: "filter (\<lambda>p. ee_refcount (?H ! p) \<noteq> 0) (map (es_at tab) is) = filter (\<lambda>p. ee_refcount (H ! p) \<noteq> 0) (map (es_at tab) is)"
    by (intro filter_cong refl) (metis imageE imageI list.set_map nth_list_update_neq)
  from Cons.IH [of ?H "acc @ filter (\<lambda>p. ee_refcount (H ! p) \<noteq> 0) [?p]"] Cons.prems obtain H' where
    H': "rfold collect_step is (acc @ filter (\<lambda>p. ee_refcount (H ! p) \<noteq> 0) [?p], tab\<lparr>es_heap := ?H\<rparr>) =
        Inr ((acc @ filter (\<lambda>p. ee_refcount (H ! p) \<noteq> 0) [?p]) @ filter (\<lambda>p. ee_refcount (H ! p) \<noteq> 0) (map (es_at tab) is), tab\<lparr>es_heap := H'\<rparr>)"
      "length H' = length H" "\<forall>q < length H. H' ! q = (if q \<in> es_at tab ` set is then collected (?H ! q) else ?H ! q)"
    unfolding filt by auto
  have "H' ! q = (if q \<in> es_at tab ` set (i # is) then collected (H ! q) else H ! q)" if "q < length H" for q
    using H'(3) that ne by (cases "q = ?p") auto
  with H'(1,2) step show ?case by (intro exI [of _ H']) simp
qed auto

section \<open>Suffixes\<close>

lemma of_char_byte: "(of_nat (of_char c) :: 8 word) = of_nat (of_char d) \<longleftrightarrow> c = d"
proof
  assume "(of_nat (of_char c) :: 8 word) = of_nat (of_char d)"
  then have "(of_char c :: nat) mod 256 = of_char d mod 256"
    by (simp only: word_of_nat_eq_iff take_bit_eq_mod) simp
  moreover have "(of_char c :: nat) < 256" "(of_char d :: nat) < 256" by simp_all
  ultimately show "c = d" by simp
qed simp

lemma c_bytes_simps [simp]: "length (c_bytes s) = length s + 1" "c_bytes (s @ t) = map (\<lambda>c. of_nat (of_char c)) s @ c_bytes t"
  by (simp_all add: c_bytes_def)

lemma map_byte_inj: "map (\<lambda>c. of_nat (of_char c) :: 8 word) s = map (\<lambda>c. of_nat (of_char c)) t \<longleftrightarrow> s = t"
proof (induction s arbitrary: t)
  case (Cons c s)
  then show ?case by (cases t) (auto simp: of_char_byte simp del: of_nat_of_char)
qed auto

text \<open>The length field of an entry that is kept: it counts the zero, and stays below 2 GiB.\<close>

definition len_ok :: "elf_strtab_hash_entry \<Rightarrow> bool" where
  "len_ok e \<longleftrightarrow> ee_len e = of_nat (length (ee_string e) + 1) \<and> length (ee_string e) + 1 < 2 ^ 31"

lemma of_nat_int32:
  assumes "k < 2 ^ 31"
  shows "unat (of_nat k :: 32 word) = k" "sint (of_nat k :: 32 word) = int k"
  using assms by (simp_all add: unsigned_of_nat take_bit_nat_eq_self signed_of_nat signed_take_bit_int_eq_self)

lemma len_ok_unat: "len_ok e \<Longrightarrow> unat (ee_len e) = length (ee_string e) + 1"
  using of_nat_int32(1) unfolding len_ok_def by metis

lemma len_ok_nonzero: "len_ok e \<Longrightarrow> ee_len e \<noteq> 0"
  using len_ok_unat by fastforce

lemma len_ok_sint: "len_ok e \<Longrightarrow> sint (ee_len e) = int (length (ee_string e)) + 1"
  using of_nat_int32(2) [of "length (ee_string e) + 1"] unfolding len_ok_def by simp

lemma len_ok_update_u [simp]: "len_ok (e\<lparr>ee_u := u\<rparr>) = len_ok e"
  by (simp add: len_ok_def)

lemma is_suffix_ok:
  assumes "len_ok A" "len_ok B"
  shows "is_suffix A B = Inr (\<exists>pre. pre \<noteq> [] \<and> ee_string A = pre @ ee_string B)"
proof (cases "length (ee_string A) \<le> length (ee_string B)")
  case True
  then have "ee_len A \<le>s ee_len B" using assms by (simp add: word_sle_eq len_ok_sint)
  with True show ?thesis by (auto simp: is_suffix_def)
next
  case False
  then have le: "\<not> ee_len A \<le>s ee_len B" using assms by (simp add: word_sle_eq len_ok_sint)
  let ?k = "length (ee_string A) - length (ee_string B)"
  have "ee_len B \<le> ee_len A" "1 \<le> ee_len B" using False assms by (simp_all add: word_le_nat_alt len_ok_unat)
  then have n: "unat (ee_len A - ee_len B) = ?k" "unat (ee_len B - 1) = length (ee_string B)"
    using assms by (simp_all add: unat_sub len_ok_unat)
  have "is_suffix A B = Inr (take (length (ee_string B)) (drop ?k (c_bytes (ee_string A))) = take (length (ee_string B)) (c_bytes (ee_string B)))"
    using False le n by (simp add: is_suffix_def ld_def)
  also have "\<dots> = Inr (drop ?k (ee_string A) = ee_string B)"
    using False by (simp add: c_bytes_def drop_map map_byte_inj del: of_nat_of_char)
  also have "\<dots> = Inr (\<exists>pre. pre \<noteq> [] \<and> ee_string A = pre @ ee_string B)"
  proof -
    have "drop ?k (ee_string A) = ee_string B \<longleftrightarrow> (\<exists>pre. pre \<noteq> [] \<and> ee_string A = pre @ ee_string B)"
    proof
      assume "drop ?k (ee_string A) = ee_string B"
      then have "ee_string A = take ?k (ee_string A) @ ee_string B" by (metis append_take_drop_id)
      moreover have "take ?k (ee_string A) \<noteq> []" using False by auto
      ultimately show "\<exists>pre. pre \<noteq> [] \<and> ee_string A = pre @ ee_string B" by blast
    qed auto
    then show ?thesis by simp
  qed
  finally show ?thesis .
qed

text \<open>An entry that is a suffix of an entry that is kept.\<close>

definition merged_into :: "elf_strtab_hash_entry list \<Rightarrow> nat \<Rightarrow> nat \<Rightarrow> bool" where
  "merged_into H p q \<longleftrightarrow> len_ok ((H ! p)\<lparr>ee_len := - ee_len (H ! p)\<rparr>) \<and> ee_u (H ! p) = U_suffix q \<and> q < length H \<and>
     len_ok (H ! q) \<and> (\<exists>pre. pre \<noteq> [] \<and> ee_string (H ! q) = pre @ ee_string (H ! p))"

lemma merge_loop_ok:
  "distinct (e # ps) \<Longrightarrow> (\<forall>p \<in> set (e # ps). p < length H) \<Longrightarrow> len_ok (H ! e) \<Longrightarrow>
   (\<forall>p \<in> set ps. len_ok ((H ! p)\<lparr>ee_len := ee_len (H ! p) + 1\<rparr>)) \<Longrightarrow>
   \<exists>H'. merge_loop e ps (tab\<lparr>es_heap := H\<rparr>) = Inr (tab\<lparr>es_heap := H'\<rparr>) \<and> same_names H H' \<and>
     (\<forall>q. q \<notin> set ps \<longrightarrow> H' ! q = H ! q) \<and>
     (\<forall>p \<in> set ps. len_ok (H' ! p) \<and> ee_u (H' ! p) = ee_u (H ! p) \<or> (\<exists>q \<in> set (e # ps). merged_into H' p q))"
proof (induction ps arbitrary: e H)
  case (Cons c ps)
  define H1 where "H1 = H[c := (H ! c)\<lparr>ee_len := ee_len (H ! c) + 1\<rparr>]"
  have c: "c < length H" "e < length H" "c \<noteq> e" "c \<notin> set ps" "e \<notin> set ps" using Cons.prems(1,2) by auto
  then have H1: "len_ok (H1 ! c)" "H1 ! e = H ! e" "length H1 = length H" "same_names H H1" "\<forall>q. q \<noteq> c \<longrightarrow> H1 ! q = H ! q"
      "ee_u (H1 ! c) = ee_u (H ! c)"
    using Cons.prems(4) by (simp_all add: H1_def same_names_update)
  then have pend: "\<forall>p \<in> set ps. len_ok ((H1 ! p)\<lparr>ee_len := ee_len (H1 ! p) + 1\<rparr>)" using Cons.prems(4) c(4) by auto
  define b where "b = (\<exists>pre. pre \<noteq> [] \<and> ee_string (H1 ! e) = pre @ ee_string (H1 ! c))"
  define H2 where "H2 = H1[c := (H1 ! c)\<lparr>ee_u := U_suffix e, ee_len := - ee_len (H1 ! c)\<rparr>]"
  have run: "merge_loop e (c # ps) (tab\<lparr>es_heap := H\<rparr>) =
      (if b then merge_loop e ps (tab\<lparr>es_heap := H2\<rparr>) else merge_loop c ps (tab\<lparr>es_heap := H1\<rparr>))"
    using c H1(3) is_suffix_ok [of "H1 ! e" "H1 ! c", folded b_def] H1(1,2) Cons.prems(3)
    by (simp add: es_update_heap H1_def [symmetric] H2_def)
  show ?case
  proof (cases b)
    case True
    have H2: "same_names H H2" "length H2 = length H" "H2 ! e = H ! e" "\<forall>q. q \<noteq> c \<longrightarrow> H2 ! q = H ! q"
      using H1(2,3,5) c by (simp_all add: H2_def same_names_update [OF H1(4)])
    have pend2: "\<forall>p \<in> set ps. len_ok ((H2 ! p)\<lparr>ee_len := ee_len (H2 ! p) + 1\<rparr>)" using Cons.prems(4) c(4) H2(4) by auto
    have "distinct (e # ps)" "\<forall>p \<in> set (e # ps). p < length H2" "len_ok (H2 ! e)" using Cons.prems H2(2,3) by auto
    from Cons.IH [OF this pend2] obtain H' where
      H': "merge_loop e ps (tab\<lparr>es_heap := H2\<rparr>) = Inr (tab\<lparr>es_heap := H'\<rparr>)" "same_names H2 H'" "\<forall>q. q \<notin> set ps \<longrightarrow> H' ! q = H2 ! q"
        "\<forall>p \<in> set ps. len_ok (H' ! p) \<and> ee_u (H' ! p) = ee_u (H2 ! p) \<or> (\<exists>q \<in> set (e # ps). merged_into H' p q)" by blast
    have "H' ! c = (H1 ! c)\<lparr>ee_u := U_suffix e, ee_len := - ee_len (H1 ! c)\<rparr>" using H'(3) c(1,4) H1(3) by (simp add: H2_def)
    moreover have "H' ! e = H1 ! e" using H'(3) c(5) H2(3) H1(2) by simp
    moreover have "length H' = length H" using H'(2) H2(2) by (simp add: same_names_def)
    ultimately have "merged_into H' c e"
      using True c(2) H1(1,2) Cons.prems(3) by (auto simp: merged_into_def b_def)
    moreover have "\<forall>p \<in> set ps. ee_u (H2 ! p) = ee_u (H ! p)" using H2(4) c(4) by auto
    ultimately have ents: "\<forall>p \<in> set (c # ps). len_ok (H' ! p) \<and> ee_u (H' ! p) = ee_u (H ! p) \<or> (\<exists>q \<in> set (e # c # ps). merged_into H' p q)"
      using H'(4) by (auto simp: ball_simps simp del: bex_simps)
    have "\<forall>q. q \<notin> set (c # ps) \<longrightarrow> H' ! q = H ! q" using H'(3) H2(4) by simp
    with True run H'(1) same_names_trans [OF H2(1) H'(2)] ents show ?thesis by (intro exI [of _ H'] conjI) simp_all
  next
    case False
    have "distinct (c # ps)" "\<forall>p \<in> set (c # ps). p < length H1" using Cons.prems H1(3) by auto
    from Cons.IH [OF this H1(1) pend] obtain H' where
      H': "merge_loop c ps (tab\<lparr>es_heap := H1\<rparr>) = Inr (tab\<lparr>es_heap := H'\<rparr>)" "same_names H1 H'" "\<forall>q. q \<notin> set ps \<longrightarrow> H' ! q = H1 ! q"
        "\<forall>p \<in> set ps. len_ok (H' ! p) \<and> ee_u (H' ! p) = ee_u (H1 ! p) \<or> (\<exists>q \<in> set (c # ps). merged_into H' p q)" by blast
    have "len_ok (H' ! c) \<and> ee_u (H' ! c) = ee_u (H ! c)" using H'(3) c(4) H1(1,6) by simp
    moreover have "\<forall>p \<in> set ps. ee_u (H1 ! p) = ee_u (H ! p)" using H1(5) c(4) by auto
    ultimately have ents: "\<forall>p \<in> set (c # ps). len_ok (H' ! p) \<and> ee_u (H' ! p) = ee_u (H ! p) \<or> (\<exists>q \<in> set (e # c # ps). merged_into H' p q)"
      using H'(4) by (auto simp: ball_simps simp del: bex_simps)
    have "\<forall>q. q \<notin> set (c # ps) \<longrightarrow> H' ! q = H ! q" using H'(3) H1(5) by simp
    with False run H'(1) same_names_trans [OF H1(4) H'(2)] ents show ?thesis by (intro exI [of _ H'] conjI) simp_all
  qed
qed auto

lemma merge_suffixes_ok:
  assumes "distinct ps" "\<forall>p \<in> set ps. p < length H \<and> len_ok ((H ! p)\<lparr>ee_len := ee_len (H ! p) + 1\<rparr>)"
  shows "\<exists>H'. merge_suffixes ps (tab\<lparr>es_heap := H\<rparr>) = Inr (tab\<lparr>es_heap := H'\<rparr>) \<and> same_names H H' \<and>
     (\<forall>q. q \<notin> set ps \<longrightarrow> H' ! q = H ! q) \<and>
     (\<forall>p \<in> set ps. len_ok (H' ! p) \<and> ee_u (H' ! p) = ee_u (H ! p) \<or> (\<exists>q \<in> set ps. merged_into H' p q))"
proof (cases "rev ps")
  case Nil
  then show ?thesis by (auto simp: merge_suffixes_def)
next
  case (Cons e rs)
  then have set: "set ps = set (e # rs)" "distinct (e # rs)" using assms(1) by (metis set_rev, metis distinct_rev)
  define H1 where "H1 = H[e := (H ! e)\<lparr>ee_len := ee_len (H ! e) + 1\<rparr>]"
  have e: "e < length H" "e \<notin> set rs" using assms(2) set by auto
  have H1: "len_ok (H1 ! e)" "length H1 = length H" "same_names H H1" "\<forall>q. q \<noteq> e \<longrightarrow> H1 ! q = H ! q" "ee_u (H1 ! e) = ee_u (H ! e)"
    using assms(2) e set(1) by (simp_all add: H1_def same_names_update)
  have pend: "\<forall>p \<in> set rs. len_ok ((H1 ! p)\<lparr>ee_len := ee_len (H1 ! p) + 1\<rparr>)" "\<forall>p \<in> set (e # rs). p < length H1"
    using assms(2) set(1) H1(2,4) e(2) by (simp_all) metis
  from merge_loop_ok [OF set(2) pend(2) H1(1) pend(1), of tab] obtain H' where
    H': "merge_loop e rs (tab\<lparr>es_heap := H1\<rparr>) = Inr (tab\<lparr>es_heap := H'\<rparr>)" "same_names H1 H'" "\<forall>q. q \<notin> set rs \<longrightarrow> H' ! q = H1 ! q"
      "\<forall>p \<in> set rs. len_ok (H' ! p) \<and> ee_u (H' ! p) = ee_u (H1 ! p) \<or> (\<exists>q \<in> set (e # rs). merged_into H' p q)" by blast
  have "merge_suffixes ps (tab\<lparr>es_heap := H\<rparr>) = Inr (tab\<lparr>es_heap := H'\<rparr>)"
    using e(1) H'(1) by (simp add: merge_suffixes_def Cons es_update_heap H1_def [symmetric])
  moreover have "\<forall>p \<in> set ps. len_ok (H' ! p) \<and> ee_u (H' ! p) = ee_u (H ! p) \<or> (\<exists>q \<in> set ps. merged_into H' p q)"
  proof
    fix p assume "p \<in> set ps"
    then show "len_ok (H' ! p) \<and> ee_u (H' ! p) = ee_u (H ! p) \<or> (\<exists>q \<in> set ps. merged_into H' p q)"
      using H'(3,4) H1(1,4,5) e(2) set(1) by (cases "p = e") auto
  qed
  moreover have "\<forall>q. q \<notin> set ps \<longrightarrow> H' ! q = H ! q" using H'(3) H1(4) set(1) by simp
  ultimately show ?thesis using same_names_trans [OF H1(3) H'(2)] by blast
qed

section \<open>Offsets\<close>

text \<open>The bytes that an entry has in the section, and the section up to an index.\<close>

definition chunk :: "elf_strtab_hash_entry \<Rightarrow> bytes" where
  "chunk e = (if 0 <s ee_len e then c_bytes (ee_string e) else [])"

definition section_to :: "elf_strtab_hash \<Rightarrow> elf_strtab_hash_entry list \<Rightarrow> nat \<Rightarrow> bytes" where
  "section_to tab H k = [0] @ concat (map (\<lambda>i. chunk (H ! es_at tab i)) [1..<k])"

text \<open>The slots from 1 on point to different entries; one with a positive length is in use and has the right length.\<close>

definition slots_ok :: "elf_strtab_hash \<Rightarrow> elf_strtab_hash_entry list \<Rightarrow> nat \<Rightarrow> bool" where
  "slots_ok tab H n \<longleftrightarrow> inj_on (es_at tab) {1..<n} \<and>
     (\<forall>i \<in> {1..<n}. slot_ptr tab i \<and> es_at tab i < length H \<and> 
       (0 <s ee_len (H ! es_at tab i) \<longrightarrow> len_ok (H ! es_at tab i) \<and> ee_refcount (H ! es_at tab i) \<noteq> 0))"

definition same_shape :: "elf_strtab_hash_entry list \<Rightarrow> elf_strtab_hash_entry list \<Rightarrow> bool" where
  "same_shape H H' \<longleftrightarrow> same_names H H' \<and> (\<forall>q < length H. ee_len (H' ! q) = ee_len (H ! q))"

lemma same_shape_refl [simp]: "same_shape H H"
  by (simp add: same_shape_def)

lemma same_shape_u: "same_shape H H' \<Longrightarrow> same_shape H (H'[p := (H' ! p)\<lparr>ee_u := u\<rparr>])"
  by (cases "p < length H'") (auto simp: same_shape_def same_names_def nth_list_update)

lemma len_ok_pos: "len_ok e \<Longrightarrow> 0 <s ee_len e"
  by (simp add: word_sless_alt len_ok_sint)

lemma len_ok_scast: "len_ok e \<Longrightarrow> (scast (ee_len e) :: 64 word) = of_nat (length (ee_string e) + 1)"
  by (simp add: scast_eq len_ok_sint)

lemma chunk_len_ok: "len_ok e \<Longrightarrow> chunk e = c_bytes (ee_string e)"
  by (simp add: chunk_def len_ok_pos)

lemma upto_snoc: "1 \<le> k \<Longrightarrow> [1..<Suc k] = [1..<k] @ [k]"
  by simp

lemma rfold_append: "rfold f (xs @ ys) s = rbind (rfold f xs s) (rfold f ys)"
  by (induction xs arbitrary: s) (simp_all add: rbind_assoc cong: rbind_cong)

lemma section_to_Suc: "1 \<le> k \<Longrightarrow> section_to tab H (Suc k) = section_to tab H k @ chunk (H ! es_at tab k)"
  by (simp add: section_to_def)

lemma slots_okD:
  assumes "slots_ok tab H n" "1 \<le> k" "k < n"
  shows "slot_ptr tab k" "es_at tab k < length H" "0 <s ee_len (H ! es_at tab k) \<Longrightarrow> len_ok (H ! es_at tab k) \<and> ee_refcount (H ! es_at tab k) \<noteq> 0"
    "\<forall>i \<in> {1..<k}. es_at tab i \<noteq> es_at tab k"
proof -
  have k: "k \<in> {1..<n}" using assms(2,3) by simp
  with assms(1) show "slot_ptr tab k" "es_at tab k < length H" "0 <s ee_len (H ! es_at tab k) \<Longrightarrow> len_ok (H ! es_at tab k) \<and> ee_refcount (H ! es_at tab k) \<noteq> 0"
    unfolding slots_ok_def by blast+
  from assms(1) have inj: "inj_on (es_at tab) {1..<n}" by (simp add: slots_ok_def)
  show "\<forall>i \<in> {1..<k}. es_at tab i \<noteq> es_at tab k"
  proof
    fix i assume "i \<in> {1..<k}"
    with k inj_on_eq_iff [OF inj, of i k] show "es_at tab i \<noteq> es_at tab k" by auto
  qed
qed

lemma assign_loop:
  assumes "slots_ok tab H n"
  shows "1 \<le> k \<Longrightarrow> k \<le> n \<Longrightarrow> \<exists>H'. rfold assign_step [1..<k] (1, tab\<lparr>es_heap := H\<rparr>) =
      Inr (of_nat (length (section_to tab H k)), tab\<lparr>es_heap := H'\<rparr>) \<and> same_shape H H' \<and>
     (\<forall>i \<in> {1..<k}. chunk (H ! es_at tab i) \<noteq> [] \<longrightarrow> ee_u (H' ! es_at tab i) = U_index (of_nat (length (section_to tab H i)))) \<and>
     (\<forall>q. (\<forall>i \<in> {1..<k}. es_at tab i = q \<longrightarrow> chunk (H ! q) = []) \<longrightarrow> H' ! q = H ! q)"
proof (induction k rule: nat_induct_at_least [of 1])
  case base
  then show ?case by (auto simp: section_to_def)
next
  case (Suc k)
  then obtain H' where
    H': "rfold assign_step [1..<k] (1, tab\<lparr>es_heap := H\<rparr>) = Inr (of_nat (length (section_to tab H k)), tab\<lparr>es_heap := H'\<rparr>)"
      "same_shape H H'" "\<forall>i \<in> {1..<k}. chunk (H ! es_at tab i) \<noteq> [] \<longrightarrow> ee_u (H' ! es_at tab i) = U_index (of_nat (length (section_to tab H i)))"
      "\<forall>q. (\<forall>i \<in> {1..<k}. es_at tab i = q \<longrightarrow> chunk (H ! q) = []) \<longrightarrow> H' ! q = H ! q" by auto
  let ?p = "es_at tab k"
  let ?u = "U_index (of_nat (length (section_to tab H k)))"
  let ?H = "if chunk (H ! ?p) \<noteq> [] then H'[?p := (H' ! ?p)\<lparr>ee_u := ?u\<rparr>] else H'"
  note k = slots_okD [OF assms Suc.hyps Suc_le_lessD [OF Suc.prems]]
  have p: "H' ! ?p = H ! ?p" "length H' = length H" "?p < length H'" using H'(2,4) k(2,4) by (auto simp: same_shape_def same_names_def)
  have "chunk (H ! ?p) \<noteq> [] \<longleftrightarrow> ee_refcount (H ! ?p) \<noteq> 0 \<and> 0 <s ee_len (H ! ?p)" using k(3) by (auto simp: chunk_def c_bytes_def)
  moreover have "(of_nat (length (section_to tab H k)) :: 64 word) + scast (ee_len (H ! ?p)) =
      of_nat (length (section_to tab H (Suc k)))" if "chunk (H ! ?p) \<noteq> []"
    using that k(3) Suc.hyps by (auto simp: section_to_Suc chunk_def len_ok_scast split: if_splits)
  ultimately have step: "assign_step k (of_nat (length (section_to tab H k)), tab\<lparr>es_heap := H'\<rparr>) =
      Inr (of_nat (length (section_to tab H (Suc k))), tab\<lparr>es_heap := ?H\<rparr>)"
    using p k(1) Suc.hyps by (auto simp: assign_step_def es_ptr_slot es_update_heap section_to_Suc)
  have "same_shape H ?H" using H'(2) same_shape_u by auto
  moreover have "\<forall>i \<in> {1..<Suc k}. chunk (H ! es_at tab i) \<noteq> [] \<longrightarrow> ee_u (?H ! es_at tab i) = U_index (of_nat (length (section_to tab H i)))"
    using H'(3) p(3) k(4) by (auto simp: less_Suc_eq nth_list_update)
  moreover have "?H ! q = H ! q" if q: "\<forall>i \<in> {1..<Suc k}. es_at tab i = q \<longrightarrow> chunk (H ! q) = []" for q
  proof -
    have "H' ! q = H ! q" using H'(4) q by (metis atLeastLessThan_iff less_SucI)
    moreover have "chunk (H ! ?p) = []" if "?p = q" using q that Suc.hyps by auto
    ultimately show ?thesis by (cases "?p = q") auto
  qed
  ultimately show ?case using H'(1) step Suc.hyps by (intro exI [of _ ?H]) (simp add: rfold_append)
qed


text \<open>The offset of a suffix, in 32 bits and then in 64.\<close>

lemma suffix_distance:
  assumes "len_ok A" "len_ok (B\<lparr>ee_len := - ee_len B\<rparr>)" "ee_string A = pre @ ee_string B"
  shows "(scast (ee_len A + ee_len B) :: 64 word) = of_nat (length pre)"
proof -
  have "- ee_len B = of_nat (length (ee_string B) + 1)" using assms(2) by (simp add: len_ok_def)
  then have "ee_len B = - of_nat (length (ee_string B) + 1)" by (metis minus_minus)
  then have "ee_len A + ee_len B = of_nat (length pre)" using assms(1,3) by (simp add: len_ok_def)
  moreover have "length pre < 2 ^ 31" using assms(1,3) by (simp add: len_ok_def)
  ultimately show ?thesis by (simp add: scast_eq of_nat_int32(2))
qed

lemma neg_len:
  assumes "len_ok (e\<lparr>ee_len := - ee_len e\<rparr>)"
  shows "ee_len e <s 0"
proof -
  have "- ee_len e = of_nat (length (ee_string e) + 1)" and b: "length (ee_string e) + 1 < 2 ^ 31"
    using assms by (simp_all add: len_ok_def)
  then have "ee_len e = of_int (- int (length (ee_string e) + 1))" by (metis minus_minus of_int_minus of_int_of_nat_eq)
  then have "sint (ee_len e) = - int (length (ee_string e) + 1)"
    using b by (simp only: signed_of_int) (simp add: signed_take_bit_int_eq_self)
  then show ?thesis by (simp add: word_sless_alt)
qed

lemma not_both_signs: "len_ok e \<Longrightarrow> \<not> ee_len e <s 0"
  by (simp add: word_sless_alt len_ok_sint)


text \<open>What the last loop leaves for an entry that was merged: the offset inside of the longer string.\<close>

definition adjusted :: "(nat \<Rightarrow> bfd_vma) \<Rightarrow> elf_strtab_hash_entry list \<Rightarrow> elf_strtab_hash_entry list \<Rightarrow> nat \<Rightarrow> bool" where
  "adjusted addr H H' p \<longleftrightarrow> (\<forall>q pre. ee_refcount (H ! p) \<noteq> 0 \<and> merged_into H p q \<and> ee_string (H ! q) = pre @ ee_string (H ! p) \<longrightarrow>
     ee_u (H' ! p) = U_index (u_index addr (H ! q) + of_nat (length pre)))"

definition is_merged :: "elf_strtab_hash_entry \<Rightarrow> bool" where
  "is_merged e \<longleftrightarrow> ee_refcount e \<noteq> 0 \<and> ee_len e <s 0"

lemma adjusted_other: "\<not> is_merged (H ! p) \<Longrightarrow> adjusted addr H H' p"
  using neg_len by (auto simp: adjusted_def is_merged_def merged_into_def)

lemma adjusted_cong: "H'' ! p = H' ! p \<Longrightarrow> adjusted addr H H'' p = adjusted addr H H' p"
  by (simp add: adjusted_def)

text \<open>One step, on a heap that agrees with the first one at the entries that are not merged.\<close>

lemma adjust_step_ok:
  assumes p: "slot_ptr tab k" "p = es_at tab k" "p < length H'" "H' ! p = H ! p" "length H' = length H"
    and merged: "is_merged (H ! p) \<Longrightarrow> \<exists>q. merged_into H p q"
    and kept: "\<forall>q. \<not> is_merged (H ! q) \<longrightarrow> H' ! q = H ! q"
  shows "\<exists>u. adjust_step addr k (tab\<lparr>es_heap := H'\<rparr>) = Inr (tab\<lparr>es_heap := H'[p := (H ! p)\<lparr>ee_u := u\<rparr>]\<rparr>) \<and>
    adjusted addr H (H'[p := (H ! p)\<lparr>ee_u := u\<rparr>]) p \<and> (\<not> is_merged (H ! p) \<longrightarrow> u = ee_u (H ! p))"
proof (cases "is_merged (H ! p)")
  case False
  then have "adjust_step addr k (tab\<lparr>es_heap := H'\<rparr>) = Inr (tab\<lparr>es_heap := H'\<rparr>)"
    using p by (auto simp: adjust_step_def es_ptr_slot is_merged_def)
  moreover have "H'[p := (H ! p)\<lparr>ee_u := ee_u (H ! p)\<rparr>] = H'" using p(4) by (metis list_update_id elf_strtab_hash_entry.surjective elf_strtab_hash_entry.update_convs(4))
  ultimately show ?thesis using adjusted_other [OF False] by (intro exI [of _ "ee_u (H ! p)"]) simp
next
  case True
  then obtain q pre where q: "merged_into H p q" "ee_string (H ! q) = pre @ ee_string (H ! p)"
    using merged by (auto simp: merged_into_def)
  then have qk: "len_ok (H ! q)" "q < length H'" "ee_u (H ! p) = U_suffix q" "len_ok ((H ! p)\<lparr>ee_len := - ee_len (H ! p)\<rparr>)"
    using p(5) by (simp_all add: merged_into_def)
  have Hq: "H' ! q = H ! q" using kept not_both_signs [OF qk(1)] by (simp add: is_merged_def)
  let ?u = "U_index (u_index addr (H ! q) + of_nat (length pre))"
  have "adjust_step addr k (tab\<lparr>es_heap := H'\<rparr>) = Inr (tab\<lparr>es_heap := H'[p := (H ! p)\<lparr>ee_u := ?u\<rparr>]\<rparr>)"
    using p True qk Hq suffix_distance [OF qk(1,4) q(2)]
    by (simp add: adjust_step_def es_ptr_slot u_suffix_def es_update_heap is_merged_def)
  moreover have "adjusted addr H (H'[p := (H ! p)\<lparr>ee_u := ?u\<rparr>]) p"
    unfolding adjusted_def
  proof (intro allI impI)
    fix r pre' assume r: "ee_refcount (H ! p) \<noteq> 0 \<and> merged_into H p r \<and> ee_string (H ! r) = pre' @ ee_string (H ! p)"
    then have "r = q" using qk(3) by (simp add: merged_into_def)
    then have "pre' = pre" using r q(2) by simp
    with \<open>r = q\<close> p(3) show "ee_u (H'[p := (H ! p)\<lparr>ee_u := ?u\<rparr>] ! p) = U_index (u_index addr (H ! r) + of_nat (length pre'))" by simp
  qed
  ultimately show ?thesis using True by blast
qed

lemma adjust_loop:
  assumes slots: "slots_ok tab H n" and merged: "\<forall>i \<in> {1..<n}. is_merged (H ! es_at tab i) \<longrightarrow> (\<exists>q. merged_into H (es_at tab i) q)"
  shows "1 \<le> k \<Longrightarrow> k \<le> n \<Longrightarrow> \<exists>H'. rfold (adjust_step addr) [1..<k] (tab\<lparr>es_heap := H\<rparr>) = Inr (tab\<lparr>es_heap := H'\<rparr>) \<and>
     same_shape H H' \<and> (\<forall>q. \<not> is_merged (H ! q) \<longrightarrow> H' ! q = H ! q) \<and>
     (\<forall>q. q \<notin> es_at tab ` {1..<k} \<longrightarrow> H' ! q = H ! q) \<and> (\<forall>i \<in> {1..<k}. adjusted addr H H' (es_at tab i))"
proof (induction k rule: nat_induct_at_least [of 1])
  case base
  then show ?case by (intro exI [of _ H]) simp
next
  case (Suc k)
  from Suc.IH [OF Suc_leD [OF Suc.prems]] obtain H' where
    H': "rfold (adjust_step addr) [1..<k] (tab\<lparr>es_heap := H\<rparr>) = Inr (tab\<lparr>es_heap := H'\<rparr>)" "same_shape H H'"
      "\<forall>q. \<not> is_merged (H ! q) \<longrightarrow> H' ! q = H ! q" "\<forall>q. q \<notin> es_at tab ` {1..<k} \<longrightarrow> H' ! q = H ! q"
      "\<forall>i \<in> {1..<k}. adjusted addr H H' (es_at tab i)" by (elim exE conjE)
  define p where "p = es_at tab k"
  note k = slots_okD [OF slots Suc.hyps Suc_le_lessD [OF Suc.prems], folded p_def]
  have new: "p \<notin> es_at tab ` {1..<k}" using k(4) by auto
  then have p: "H' ! p = H ! p" "length H' = length H" "p < length H'"
    using H'(2,4) k(2) by (simp_all add: same_shape_def same_names_def)
  have "is_merged (H ! p) \<Longrightarrow> \<exists>q. merged_into H p q" using merged Suc.hyps Suc.prems by (simp add: p_def)
  from adjust_step_ok [OF k(1) p_def p(3,1,2) this H'(3)] obtain u where
    u: "adjust_step addr k (tab\<lparr>es_heap := H'\<rparr>) = Inr (tab\<lparr>es_heap := H'[p := (H ! p)\<lparr>ee_u := u\<rparr>]\<rparr>)"
      "adjusted addr H (H'[p := (H ! p)\<lparr>ee_u := u\<rparr>]) p" "\<not> is_merged (H ! p) \<longrightarrow> u = ee_u (H ! p)" by blast
  define H1 where "H1 = H'[p := (H ! p)\<lparr>ee_u := u\<rparr>]"
  have other: "\<forall>r. r \<noteq> p \<longrightarrow> H1 ! r = H' ! r" and at_p: "H1 ! p = (H ! p)\<lparr>ee_u := u\<rparr>" using p(3) by (simp_all add: H1_def)
  have ins: "es_at tab ` {1..<Suc k} = insert p (es_at tab ` {1..<k})" using Suc.hyps by (auto simp: p_def less_Suc_eq image_iff)
  have set: "{1..<Suc k} = insert k {1..<k}" using Suc.hyps by auto
  have "rfold (adjust_step addr) [1..<Suc k] (tab\<lparr>es_heap := H\<rparr>) = Inr (tab\<lparr>es_heap := H1\<rparr>)"
    using H'(1) u(1) Suc.hyps by (simp add: rfold_append H1_def)
  moreover have "same_shape H H1" unfolding H1_def using same_shape_u [OF H'(2), of p u] p(1) by simp
  moreover have "\<forall>r. \<not> is_merged (H ! r) \<longrightarrow> H1 ! r = H ! r"
  proof (intro allI impI)
    fix r assume "\<not> is_merged (H ! r)"
    then show "H1 ! r = H ! r" using H'(3) other at_p u(3) by (cases "r = p") simp_all
  qed
  moreover have "\<forall>r. r \<notin> es_at tab ` {1..<Suc k} \<longrightarrow> H1 ! r = H ! r" unfolding ins using H'(4) other by simp
  moreover have "\<forall>i \<in> {1..<Suc k}. adjusted addr H H1 (es_at tab i)"
  proof -
    have "adjusted addr H H1 (es_at tab i)" if "i \<in> {1..<k}" for i
      using H'(5) that other k(4) adjusted_cong [of H1 "es_at tab i" H'] by simp
    with u(2) show ?thesis unfolding set by (simp add: H1_def p_def)
  qed
  ultimately show ?case by (intro exI [of _ H1] conjI)
qed

section \<open>The bytes of the section\<close>

definition printable_len :: "elf_strtab_hash_entry \<Rightarrow> bool" where
  "printable_len e \<longleftrightarrow> len_ok e \<or> ee_len e = 0 \<or> ee_len e <s 0"

lemma chunk_cases:
  assumes "printable_len e"
  shows "(ee_len e <s 0 \<and> chunk e = []) \<or>
    (\<not> ee_len e <s 0 \<and> ld (c_bytes (ee_string e)) 0 (unat (ee_len e)) = Inr (chunk e) \<and> (ucast (ee_len e) :: 64 word) = of_nat (length (chunk e)))"
proof -
  consider (ok) "len_ok e" | (zero) "ee_len e = 0" | (neg) "ee_len e <s 0" using assms by (auto simp: printable_len_def)
  then show ?thesis
  proof cases
    case ok
    then have "(ucast (ee_len e) :: 64 word) = of_nat (length (ee_string e) + 1)"
      using len_ok_unat [OF ok] by (metis of_nat_unat)
    with ok show ?thesis by (simp add: not_both_signs len_ok_unat chunk_len_ok ld_def)
  next
    case zero
    then show ?thesis by (simp add: chunk_def ld_def)
  next
    case neg
    then show ?thesis by (simp add: chunk_def word_sless_alt)
  qed
qed

lemma emit_loop:
  assumes "\<forall>i \<in> {1..<n}. slot_ptr tab i \<and> es_at tab i < length H \<and> printable_len (H ! es_at tab i) \<and> ee_refcount (H ! es_at tab i) = 0"
    and bw: "\<forall>a b. bwrite a b"
  shows "1 \<le> k \<Longrightarrow> k \<le> n \<Longrightarrow> rfold (emit_step bwrite) [1..<k] (Some [0], 1, tab\<lparr>es_heap := H\<rparr>) =
    Inr (Some (section_to tab H k), of_nat (length (section_to tab H k)), tab\<lparr>es_heap := H\<rparr>)"
proof (induction k rule: nat_induct_at_least [of 1])
  case base
  then show ?case by (simp add: section_to_def)
next
  case (Suc k)
  let ?e = "H ! es_at tab k"
  have k: "slot_ptr tab k" "es_at tab k < length H" "printable_len ?e" "ee_refcount ?e = 0" using assms(1) Suc.hyps Suc.prems by auto
  have "emit_step bwrite k (Some (section_to tab H k), of_nat (length (section_to tab H k)), tab\<lparr>es_heap := H\<rparr>) =
      Inr (Some (section_to tab H (Suc k)), of_nat (length (section_to tab H (Suc k))), tab\<lparr>es_heap := H\<rparr>)"
    using k(1,2,4) chunk_cases [OF k(3)] bw Suc.hyps
    by (auto simp: emit_step_def es_entry_def es_ptr_slot BFD_ASSERT_def section_to_Suc Let_def)
  with Suc.IH Suc.hyps Suc.prems show ?case by (simp add: rfold_append)
qed

text \<open>What an offset into the section promises: the bytes of the string and its zero are there.\<close>

definition string_at :: "bytes \<Rightarrow> nat \<Rightarrow> string \<Rightarrow> bool" where
  "string_at out off s \<longleftrightarrow> take (length s + 1) (drop off out) = c_bytes s"

lemma string_at_suffix: "string_at out off (pre @ s) \<Longrightarrow> string_at out (off + length pre) s"
proof -
  assume "string_at out off (pre @ s)"
  then have "drop (length pre) (take (length pre + (length s + 1)) (drop off out)) = c_bytes s"
    by (simp add: string_at_def)
  then show ?thesis by (simp add: string_at_def drop_take add.commute)
qed

lemma section_to_split:
  assumes "1 \<le> i" "i < n"
  shows "\<exists>rest. section_to tab H n = section_to tab H i @ chunk (H ! es_at tab i) @ rest"
proof -
  have "[1..<n] = [1..<i] @ i # [Suc i..<n]" using assms by (metis upt_add_eq_append less_imp_le_nat le_add_diff_inverse upt_conv_Cons)
  then show ?thesis by (simp add: section_to_def)
qed

lemma string_at_section:
  assumes "1 \<le> i" "i < n" "len_ok (H ! es_at tab i)"
  shows "string_at (section_to tab H n) (length (section_to tab H i)) (ee_string (H ! es_at tab i))"
  using section_to_split [OF assms(1,2), of tab H] chunk_len_ok [OF assms(3)] by (auto simp: string_at_def)


section \<open>Giving offsets\<close>

text \<open>
  A table that may be finalised: the slots point to different entries, with the length of
  their string.
\<close>

definition strtab_slots :: "elf_strtab_hash \<Rightarrow> bool" where
  "strtab_slots tab \<longleftrightarrow> inj_on (es_at tab) {1..<unat (es_size tab)} \<and>
     (\<forall>i \<in> {1..<unat (es_size tab)}. slot_ptr tab i \<and> es_at tab i < length (es_heap tab) \<and> len_ok (es_heap tab ! es_at tab i))"

definition sorts :: "((nat \<Rightarrow> nat \<Rightarrow> int) \<Rightarrow> nat list \<Rightarrow> nat list) \<Rightarrow> bool" where
  "sorts qsort \<longleftrightarrow> (\<forall>cmp xs. mset (qsort cmp xs) = mset xs)"

text \<open>After the suffixes are merged: in use and kept, in use and merged, or not in use.\<close>

definition merged_ok :: "elf_strtab_hash \<Rightarrow> elf_strtab_hash_entry list \<Rightarrow> nat \<Rightarrow> bool" where
  "merged_ok tab H n \<longleftrightarrow> (\<forall>i \<in> {1..<n}. let e = H ! es_at tab i in
     (if ee_refcount e = 0 then ee_len e = 0
      else len_ok e \<or> (\<exists>j \<in> {1..<n}. merged_into H (es_at tab i) (es_at tab j))))"

lemma collect_merge_ok:
  assumes slots: "strtab_slots tab" and n: "n = unat (es_size tab)" and qs: "sorts qsort"
  shows "\<exists>H. rbind (rfold collect_step [1..<n] ([], tab)) (\<lambda>(array, tab).
        merge_suffixes (qsort (\<lambda>a b. strrevcmp (es_heap tab ! a) (es_heap tab ! b)) array) tab) = Inr (tab\<lparr>es_heap := H\<rparr>) \<and>
     same_names (es_heap tab) H \<and> merged_ok tab H n"
proof -
  let ?H0 = "es_heap tab" and ?at = "es_at tab"
  let ?used = "filter (\<lambda>p. ee_refcount (?H0 ! p) \<noteq> 0) (map ?at [1..<n])"
  have inj: "inj_on ?at {1..<n}" and each: "\<forall>i \<in> {1..<n}. slot_ptr tab i \<and> ?at i < length ?H0 \<and> len_ok (?H0 ! ?at i)"
    using slots by (simp_all add: strtab_slots_def n)
  have "distinct (map ?at [1..<n])" "\<forall>i \<in> set [1..<n]. slot_ptr tab i \<and> ?at i < length ?H0" using inj each by (simp_all add: distinct_map)
  from collect_loop [OF this, of "[]"] obtain H1 where
    H1: "rfold collect_step [1..<n] ([], tab) = Inr (?used, tab\<lparr>es_heap := H1\<rparr>)" "length H1 = length ?H0"
      "\<forall>q < length ?H0. H1 ! q = (if q \<in> ?at ` {1..<n} then collected (?H0 ! q) else ?H0 ! q)" by auto
  have H1_at: "H1 ! ?at i = collected (?H0 ! ?at i)" if "i \<in> {1..<n}" for i using H1(3) each that by auto
  have same1: "same_names ?H0 H1" using H1(2,3) by (simp add: same_names_def)
  define ps where "ps = qsort (\<lambda>a b. strrevcmp (H1 ! a) (H1 ! b)) ?used"
  have "mset ps = mset ?used" using qs by (simp add: ps_def sorts_def)
  then have ps: "set ps = set ?used" "distinct ps" using \<open>distinct (map ?at [1..<n])\<close>
    by (metis mset_eq_setD, metis distinct_filter mset_eq_imp_distinct_iff)
  have "\<forall>p \<in> set ps. p < length H1 \<and> len_ok ((H1 ! p)\<lparr>ee_len := ee_len (H1 ! p) + 1\<rparr>)"
  proof
    fix p assume "p \<in> set ps"
    then obtain i where i: "i \<in> {1..<n}" "p = ?at i" "ee_refcount (?H0 ! p) \<noteq> 0" by (auto simp: ps(1))
    then show "p < length H1 \<and> len_ok ((H1 ! p)\<lparr>ee_len := ee_len (H1 ! p) + 1\<rparr>)"
      using each H1(2) H1_at [OF i(1)] by (auto simp: collected_def len_ok_def)
  qed
  from merge_suffixes_ok [OF ps(2) this, of tab] obtain H where
    H: "merge_suffixes ps (tab\<lparr>es_heap := H1\<rparr>) = Inr (tab\<lparr>es_heap := H\<rparr>)" "same_names H1 H" "\<forall>q. q \<notin> set ps \<longrightarrow> H ! q = H1 ! q"
      "\<forall>p \<in> set ps. len_ok (H ! p) \<and> ee_u (H ! p) = ee_u (H1 ! p) \<or> (\<exists>q \<in> set ps. merged_into H p q)" by blast
  have "merged_ok tab H n" unfolding merged_ok_def Let_def
  proof
    fix i assume i: "i \<in> {1..<n}"
    have ref: "ee_refcount (H ! ?at i) = ee_refcount (?H0 ! ?at i)"
      using same_names_trans [OF same1 H(2)] each i by (auto simp: same_names_def)
    show "if ee_refcount (H ! ?at i) = 0 then ee_len (H ! ?at i) = 0
      else len_ok (H ! ?at i) \<or> (\<exists>j \<in> {1..<n}. merged_into H (?at i) (?at j))"
    proof (cases "ee_refcount (?H0 ! ?at i) = 0")
      case True
      then have "?at i \<notin> set ps" by (simp add: ps(1))
      with H(3) H1_at [OF i] True ref show ?thesis by (simp add: collected_def)
    next
      case False
      then have "?at i \<in> set ps" using i by (auto simp: ps(1))
      with H(4) have "len_ok (H ! ?at i) \<or> (\<exists>q \<in> set ps. merged_into H (?at i) q)" by blast
      with False ref show ?thesis by (auto simp: ps(1))
    qed
  qed
  with H1(1) H(1) same_names_trans [OF same1 H(2)] show ?thesis by (intro exI [of _ H]) (simp add: ps_def)
qed

lemma merged_ok_slots:
  assumes "strtab_slots tab" "n = unat (es_size tab)" "same_names (es_heap tab) H" "merged_ok tab H n"
  shows "slots_ok tab H n" "\<forall>i \<in> {1..<n}. printable_len (H ! es_at tab i)"
    "\<forall>i \<in> {1..<n}. is_merged (H ! es_at tab i) \<longrightarrow> (\<exists>j \<in> {1..<n}. merged_into H (es_at tab i) (es_at tab j))"
    "\<forall>i \<in> {1..<n}. ee_refcount (H ! es_at tab i) \<noteq> 0 \<and> \<not> is_merged (H ! es_at tab i) \<longrightarrow> len_ok (H ! es_at tab i)"
proof -
  have len: "length H = length (es_heap tab)" using assms(3) by (simp add: same_names_def)
  have neg: "ee_len (H ! p) <s 0" if "merged_into H p q" for p q using that neg_len by (auto simp: merged_into_def)
  have pos: "\<not> 0 <s ee_len e" if "ee_len e <s 0" for e using that by (simp add: word_sless_alt)
  have each: "(ee_refcount (H ! es_at tab i) = 0 \<and> ee_len (H ! es_at tab i) = 0) \<or>
      (ee_refcount (H ! es_at tab i) \<noteq> 0 \<and> (len_ok (H ! es_at tab i) \<or> (\<exists>j \<in> {1..<n}. merged_into H (es_at tab i) (es_at tab j))))"
    if "i \<in> {1..<n}" for i
    using assms(4) that unfolding merged_ok_def Let_def by (metis (no_types, lifting))
  have "0 <s ee_len (H ! es_at tab i) \<longrightarrow> len_ok (H ! es_at tab i) \<and> ee_refcount (H ! es_at tab i) \<noteq> 0" if "i \<in> {1..<n}" for i
    using each [OF that] neg pos by (metis signed.less_irrefl)
  then show "slots_ok tab H n" using assms(1,2) len by (simp add: strtab_slots_def slots_ok_def)
  show "\<forall>i \<in> {1..<n}. printable_len (H ! es_at tab i)" using each neg unfolding printable_len_def by metis
  show "\<forall>i \<in> {1..<n}. is_merged (H ! es_at tab i) \<longrightarrow> (\<exists>j \<in> {1..<n}. merged_into H (es_at tab i) (es_at tab j))"
    using each not_both_signs unfolding is_merged_def by metis
  show "\<forall>i \<in> {1..<n}. ee_refcount (H ! es_at tab i) \<noteq> 0 \<and> \<not> is_merged (H ! es_at tab i) \<longrightarrow> len_ok (H ! es_at tab i)"
    using each neg unfolding is_merged_def by metis
qed

lemma section_to_cong:
  assumes "same_shape H H'" "\<forall>i \<in> {1..<n}. es_at tab i < length H"
  shows "section_to tab H' n = section_to tab H n"
proof -
  have "chunk (H' ! es_at tab i) = chunk (H ! es_at tab i)" if "i \<in> {1..<n}" for i
    using assms that by (simp add: chunk_def same_shape_def same_names_def)
  then show ?thesis unfolding section_to_def by (metis (no_types, lifting) map_cong set_upt)
qed

lemma same_shape_trans: "same_shape H H' \<Longrightarrow> same_shape H' H'' \<Longrightarrow> same_shape H H''"
  by (simp add: same_shape_def same_names_def)

lemma same_shape_simps:
  "same_shape H H' \<Longrightarrow> q < length H \<Longrightarrow> len_ok (H' ! q) = len_ok (H ! q)"
  "same_shape H H' \<Longrightarrow> q < length H \<Longrightarrow> printable_len (H' ! q) = printable_len (H ! q)"
  "same_shape H H' \<Longrightarrow> q < length H \<Longrightarrow> is_merged (H' ! q) = is_merged (H ! q)"
  "same_shape H H' \<Longrightarrow> q < length H \<Longrightarrow> ee_string (H' ! q) = ee_string (H ! q)"
  "same_shape H H' \<Longrightarrow> q < length H \<Longrightarrow> ee_refcount (H' ! q) = ee_refcount (H ! q)"
  by (simp_all add: same_shape_def same_names_def len_ok_def printable_len_def is_merged_def)

lemma same_shape_slots: "same_shape H H' \<Longrightarrow> slots_ok tab H n \<Longrightarrow> slots_ok tab H' n"
  by (auto simp: slots_ok_def same_shape_def same_names_def len_ok_def)

lemma es_updates: "tab\<lparr>es_heap := H, es_sec_size := x\<rparr> = tab\<lparr>es_sec_size := x, es_heap := H\<rparr>"
  by simp

text \<open>The two loops that give offsets, after the suffixes are merged.\<close>

lemma assign_adjust_ok:
  assumes "strtab_slots tab" and n: "n = unat (es_size tab)" "1 \<le> n" and same: "same_names (es_heap tab) H" and "merged_ok tab H n"
  shows "\<exists>H'. rbind (rfold assign_step [1..<n] (1, tab\<lparr>es_heap := H\<rparr>)) (\<lambda>(sec_size, tab).
        rfold (adjust_step addr) [1..<n] (tab\<lparr>es_sec_size := sec_size\<rparr>)) =
      Inr (tab\<lparr>es_heap := H', es_sec_size := of_nat (length (section_to tab H' n))\<rparr>) \<and> same_shape H H' \<and>
     (\<forall>i \<in> {1..<n}. ee_refcount (H' ! es_at tab i) \<noteq> 0 \<longrightarrow>
        (\<exists>off. ee_u (H' ! es_at tab i) = U_index (of_nat off) \<and> string_at (section_to tab H' n) off (ee_string (H' ! es_at tab i))))"
proof -
  let ?at = "es_at tab"
  note m = merged_ok_slots [OF assms(1) n(1) same assms(5)]
  have at: "\<forall>i \<in> {1..<n}. ?at i < length H" using m(1) by (simp add: slots_ok_def)
  from assign_loop [OF m(1) n(2) order_refl] obtain H2 where
    H2: "rfold assign_step [1..<n] (1, tab\<lparr>es_heap := H\<rparr>) = Inr (of_nat (length (section_to tab H n)), tab\<lparr>es_heap := H2\<rparr>)" "same_shape H H2"
      "\<forall>i \<in> {1..<n}. chunk (H ! ?at i) \<noteq> [] \<longrightarrow> ee_u (H2 ! ?at i) = U_index (of_nat (length (section_to tab H i)))"
      "\<forall>q. (\<forall>i \<in> {1..<n}. ?at i = q \<longrightarrow> chunk (H ! q) = []) \<longrightarrow> H2 ! q = H ! q" by (elim exE conjE)
  have len2: "length H2 = length H" using H2(2) by (simp add: same_shape_def same_names_def)
  have keep: "H2 ! p = H ! p" if "is_merged (H ! p)" for p
  proof -
    have "chunk (H ! p) = []" using that by (simp add: chunk_def is_merged_def word_sless_alt)
    with H2(4) show ?thesis by simp
  qed
  have merged2: "merged_into H2 p q" if "merged_into H p q" "is_merged (H ! p)" for p q
    using that(1) keep [OF that(2)] same_shape_simps(1,4) [OF H2(2)] len2 by (simp add: merged_into_def)
  let ?tab = "tab\<lparr>es_sec_size := of_nat (length (section_to tab H n))\<rparr>"
  have tab: "es_at ?tab = ?at" "slot_ptr ?tab = slot_ptr tab" by (simp_all add: es_at_def slot_ptr_def fun_eq_iff)
  have slots2: "slots_ok ?tab H2 n" using same_shape_slots [OF H2(2) m(1)] by (simp add: slots_ok_def tab)
  have "\<forall>i \<in> {1..<n}. is_merged (H2 ! es_at ?tab i) \<longrightarrow> (\<exists>q. merged_into H2 (es_at ?tab i) q)"
    unfolding tab using m(3) merged2 at same_shape_simps(3) [OF H2(2)] by blast
  from adjust_loop [OF slots2 this n(2) order_refl, of addr] obtain H3 where
    H3: "rfold (adjust_step addr) [1..<n] (?tab\<lparr>es_heap := H2\<rparr>) = Inr (?tab\<lparr>es_heap := H3\<rparr>)" "same_shape H2 H3"
      "\<forall>q. \<not> is_merged (H2 ! q) \<longrightarrow> H3 ! q = H2 ! q" "\<forall>i \<in> {1..<n}. adjusted addr H2 H3 (?at i)" unfolding tab by (elim exE conjE)
  note same3 = same_shape_trans [OF H2(2) H3(2)]
  have S: "section_to tab H3 n = section_to tab H n" using section_to_cong [OF same3 at] .
  have off: "ee_u (H2 ! ?at j) = U_index (of_nat (length (section_to tab H j)))"
      "string_at (section_to tab H n) (length (section_to tab H j)) (ee_string (H ! ?at j))" if "j \<in> {1..<n}" "len_ok (H ! ?at j)" for j
    using H2(3) that string_at_section [of j n H tab] chunk_len_ok [OF that(2)] by (simp_all add: c_bytes_def)
  have "\<exists>off. ee_u (H3 ! ?at i) = U_index (of_nat off) \<and> string_at (section_to tab H3 n) off (ee_string (H3 ! ?at i))"
    if i: "i \<in> {1..<n}" and ref: "ee_refcount (H3 ! ?at i) \<noteq> 0" for i
  proof (cases "is_merged (H ! ?at i)")
    case True
    then obtain j where j: "j \<in> {1..<n}" "merged_into H (?at i) (?at j)" using m(3) i by blast
    then obtain pre where pre: "len_ok (H ! ?at j)" "ee_string (H ! ?at j) = pre @ ee_string (H ! ?at i)" by (auto simp: merged_into_def)
    have "ee_u (H3 ! ?at i) = U_index (u_index addr (H2 ! ?at j) + of_nat (length pre))"
      using H3(4) i merged2 [OF j(2) True] pre(2) at j(1) True same_shape_simps(4,5) [OF H2(2)]
      by (simp add: adjusted_def is_merged_def)
    then have "ee_u (H3 ! ?at i) = U_index (of_nat (length (section_to tab H j) + length pre))"
      using off(1) [OF j(1) pre(1)] by (simp add: u_index_def)
    moreover have "string_at (section_to tab H n) (length (section_to tab H j) + length pre) (ee_string (H ! ?at i))"
      using off(2) [OF j(1) pre(1)] pre(2) string_at_suffix by metis
    ultimately show ?thesis using S same_shape_simps(4) [OF same3] at i by (metis (no_types, lifting))
  next
    case False
    have ref': "ee_refcount (H ! ?at i) \<noteq> 0" using ref same_shape_simps(5) [OF same3] at i by simp
    then have "len_ok (H ! ?at i)" using False m(4) i by blast
    moreover have "H3 ! ?at i = H2 ! ?at i" using H3(3) False same_shape_simps(3) [OF H2(2)] at i by simp
    ultimately show ?thesis using off [OF i] S same_shape_simps(4) [OF same3] at i by (metis (no_types, lifting))
  qed
  moreover have "rbind (rfold assign_step [1..<n] (1, tab\<lparr>es_heap := H\<rparr>)) (\<lambda>(sec_size, tab).
        rfold (adjust_step addr) [1..<n] (tab\<lparr>es_sec_size := sec_size\<rparr>)) =
      Inr (tab\<lparr>es_heap := H3, es_sec_size := of_nat (length (section_to tab H3 n))\<rparr>)"
    using H2(1) H3(1) S by (simp add: es_updates)
  ultimately show ?thesis using same3 by blast
qed

lemma elf_strtab_finalize_ok:
  assumes "strtab_slots tab" "n = unat (es_size tab)" "1 \<le> n" "sorts qsort" "mem (es_size tab * 8)"
  shows "\<exists>H. elf_strtab_finalize mem addr qsort tab =
      Inr (tab\<lparr>es_heap := H, es_sec_size := of_nat (length (section_to tab H n))\<rparr>) \<and> same_names (es_heap tab) H \<and>
     (\<forall>i \<in> {1..<n}. printable_len (H ! es_at tab i)) \<and>
     (\<forall>i \<in> {1..<n}. ee_refcount (H ! es_at tab i) \<noteq> 0 \<longrightarrow>
        (\<exists>off. ee_u (H ! es_at tab i) = U_index (of_nat off) \<and> string_at (section_to tab H n) off (ee_string (H ! es_at tab i))))"
proof -
  obtain H1 where H1: "rbind (rfold collect_step [1..<n] ([], tab)) (\<lambda>(array, tab).
        merge_suffixes (qsort (\<lambda>a b. strrevcmp (es_heap tab ! a) (es_heap tab ! b)) array) tab) = Inr (tab\<lparr>es_heap := H1\<rparr>)"
      "same_names (es_heap tab) H1" "merged_ok tab H1 n"
    using collect_merge_ok [OF assms(1,2,4)] by blast
  from assign_adjust_ok [OF assms(1-3) H1(2,3), of addr] obtain H where
    H: "rbind (rfold assign_step [1..<n] (1, tab\<lparr>es_heap := H1\<rparr>)) (\<lambda>(sec_size, tab).
        rfold (adjust_step addr) [1..<n] (tab\<lparr>es_sec_size := sec_size\<rparr>)) =
      Inr (tab\<lparr>es_heap := H, es_sec_size := of_nat (length (section_to tab H n))\<rparr>)" "same_shape H1 H"
     "\<forall>i \<in> {1..<n}. ee_refcount (H ! es_at tab i) \<noteq> 0 \<longrightarrow>
        (\<exists>off. ee_u (H ! es_at tab i) = U_index (of_nat off) \<and> string_at (section_to tab H n) off (ee_string (H ! es_at tab i)))"
    by (elim exE conjE)
  have same: "same_names (es_heap tab) H" using same_names_trans [OF H1(2)] H(2) by (simp add: same_shape_def)
  have "elf_strtab_finalize mem addr qsort tab = Inr (tab\<lparr>es_heap := H, es_sec_size := of_nat (length (section_to tab H n))\<rparr>)"
    using H1(1) H(1) assms(2,5) by (simp add: elf_strtab_finalize_def)
  moreover have "\<forall>i \<in> {1..<n}. printable_len (H ! es_at tab i)"
    using merged_ok_slots(1,2) [OF assms(1,2) H1(2,3)] same_shape_simps(2) [OF H(2)] by (simp add: slots_ok_def)
  ultimately show ?thesis using same H(3) by blast
qed

end
