(* ===== verification/Strtab_Life.thy ===== *)
theory Strtab_Life
  imports Elf_Strtab
begin

text \<open>
  The life of an ELF string table: the invariant of a table that strings are added to, what it
  stands for, and the way from the strings through the offsets to the bytes of the section.
\<close>

section \<open>Adding strings\<close>

text \<open>
  The invariant of a table that strings are added to. Every entry is reached from the hash table under
  its string, and the entries with a length are those in the array, each at its index.
\<close>

definition entry_at :: "elf_strtab_hash \<Rightarrow> nat \<Rightarrow> bool" where
  "entry_at tab i \<longleftrightarrow> slot_ptr tab i \<and> es_at tab i < length (es_heap tab) \<and> len_ok (es_heap tab ! es_at tab i) \<and>
     ee_u (es_heap tab ! es_at tab i) = U_index (of_nat i)"

definition strtab_ok :: "elf_strtab_hash \<Rightarrow> bool" where
  "strtab_ok tab \<longleftrightarrow> bt_ok (es_table tab) \<and> bt_next (es_table tab) = length (es_heap tab) \<and> es_sec_size tab = 0 \<and>
     (\<forall>s p. bt_abs (es_table tab) s = Some p \<longrightarrow> ee_string (es_heap tab ! be_id p) = s) \<and>
     (\<forall>p < length (es_heap tab). \<exists>e. bt_abs (es_table tab) (ee_string (es_heap tab ! p)) = Some e \<and> be_id e = p) \<and>
     1 \<le> unat (es_size tab) \<and> unat (es_size tab) \<le> unat (es_alloced tab) \<and> length (es_array tab) = unat (es_alloced tab) \<and>
     unat (es_alloced tab) \<le> max 64 (2 * unat (es_size tab)) \<and>
     (\<forall>i \<in> {1..<unat (es_size tab)}. entry_at tab i) \<and>
     (\<forall>p < length (es_heap tab). (ee_len (es_heap tab ! p) = 0 \<and> ee_refcount (es_heap tab ! p) = 0) \<or>
        (\<exists>i \<in> {1..<unat (es_size tab)}. es_at tab i = p))"

lemma strtab_ok_slots:
  assumes "strtab_ok tab"
  shows "strtab_slots tab"
proof -
  have each: "\<forall>i \<in> {1..<unat (es_size tab)}. entry_at tab i" using assms by (simp add: strtab_ok_def)
  have "i = j" if "i \<in> {1..<unat (es_size tab)}" "j \<in> {1..<unat (es_size tab)}" "es_at tab i = es_at tab j" for i j
  proof -
    have "entry_at tab i" "entry_at tab j" using each that(1,2) by blast+
    then have "(of_nat i :: 64 word) = of_nat j" using that(3) by (simp add: entry_at_def)
    moreover have "i < 2 ^ 64" "j < 2 ^ 64" using that(1,2) unsigned_less [of "es_size tab", where ?'a = nat] by auto
    ultimately show ?thesis by (simp add: word_of_nat_eq_iff take_bit_nat_eq_self)
  qed
  with each show ?thesis by (simp add: strtab_slots_def entry_at_def inj_on_def)
qed

text \<open>What a table stands for: the index of a string and the number of its references.\<close>

definition strtab_abs :: "elf_strtab_hash \<Rightarrow> string \<rightharpoonup> nat \<times> c_uint" where
  "strtab_abs tab s =
     (case bt_abs (es_table tab) s of
        None \<Rightarrow> None
      | Some p \<Rightarrow>
          let e = es_heap tab ! be_id p in
          case ee_u e of U_index i \<Rightarrow> if ee_len e = 0 then None else Some (unat i, ee_refcount e) | U_suffix q \<Rightarrow> None)"

lemma strtab_abs_entry:
  assumes ok: "strtab_ok tab"
  shows "strtab_abs tab s = Some (i, r) \<longleftrightarrow> i \<in> {1..<unat (es_size tab)} \<and> ee_string (es_heap tab ! es_at tab i) = s \<and>
    ee_refcount (es_heap tab ! es_at tab i) = r" (is "?l \<longleftrightarrow> ?r")
proof
  have small: "j < 2 ^ 64" if "j \<in> {1..<unat (es_size tab)}" for j
    using that unsigned_less [of "es_size tab", where ?'a = nat] by auto
  {
    assume ?l
    then obtain p w where p: "bt_abs (es_table tab) s = Some p" "ee_u (es_heap tab ! be_id p) = U_index w" "i = unat w"
        "ee_len (es_heap tab ! be_id p) \<noteq> 0" "r = ee_refcount (es_heap tab ! be_id p)"
      by (auto simp: strtab_abs_def Let_def split: option.splits strtab_u.splits if_splits)
    have "be_id p < length (es_heap tab)" "ee_string (es_heap tab ! be_id p) = s"
      using ok p(1) bt_abs_Some [of "es_table tab" s p] by (auto simp: strtab_ok_def bt_ok_def keys_ok_def)
    moreover from this(1) obtain j where j: "j \<in> {1..<unat (es_size tab)}" "es_at tab j = be_id p"
      using ok p(4) unfolding strtab_ok_def by blast
    have "entry_at tab j" using ok j(1) by (auto simp: strtab_ok_def)
    then have "w = of_nat j" using j(2) p(2) by (simp add: entry_at_def)
    then have "i = j" using p(3) small [OF j(1)] by (simp add: unsigned_of_nat take_bit_nat_eq_self)
    ultimately show ?r using j p(5) by simp
  }
  {
    assume r: ?r
    then have e: "entry_at tab i" using ok by (auto simp: strtab_ok_def)
    then have "es_at tab i < length (es_heap tab)" by (simp add: entry_at_def)
    then obtain p where p: "bt_abs (es_table tab) s = Some p" "be_id p = es_at tab i"
      using ok r unfolding strtab_ok_def by blast
    have "ee_len (es_heap tab ! es_at tab i) \<noteq> 0" using e by (simp add: entry_at_def len_ok_nonzero)
    with p r e small [of i] show ?l by (simp add: strtab_abs_def entry_at_def unsigned_of_nat take_bit_nat_eq_self)
  }
qed

lemma strtab_okD:
  assumes "strtab_ok tab"
  shows "bt_ok (es_table tab)" "bt_next (es_table tab) = length (es_heap tab)" "es_sec_size tab = 0"
    "\<And>s p. bt_abs (es_table tab) s = Some p \<Longrightarrow> be_id p < length (es_heap tab) \<and> ee_string (es_heap tab ! be_id p) = s"
    "\<And>p. p < length (es_heap tab) \<Longrightarrow> \<exists>e. bt_abs (es_table tab) (ee_string (es_heap tab ! p)) = Some e \<and> be_id e = p"
    "1 \<le> unat (es_size tab)" "unat (es_size tab) \<le> unat (es_alloced tab)" "length (es_array tab) = unat (es_alloced tab)"
    "unat (es_alloced tab) \<le> max 64 (2 * unat (es_size tab))" "\<And>i. i \<in> {1..<unat (es_size tab)} \<Longrightarrow> entry_at tab i"
    "\<And>p. p < length (es_heap tab) \<Longrightarrow> (ee_len (es_heap tab ! p) = 0 \<and> ee_refcount (es_heap tab ! p) = 0) \<or>
        (\<exists>i \<in> {1..<unat (es_size tab)}. es_at tab i = p)"
proof -
  show t: "bt_ok (es_table tab)" "bt_next (es_table tab) = length (es_heap tab)" "es_sec_size tab = 0"
    using assms by (simp_all add: strtab_ok_def)
  show "be_id p < length (es_heap tab) \<and> ee_string (es_heap tab ! be_id p) = s" if "bt_abs (es_table tab) s = Some p" for s p
    using assms that bt_abs_Some [OF t(1), of s p] t(1,2) by (simp add: strtab_ok_def bt_ok_def keys_ok_def)
  show "\<exists>e. bt_abs (es_table tab) (ee_string (es_heap tab ! p)) = Some e \<and> be_id e = p" if "p < length (es_heap tab)" for p
    using assms that by (simp add: strtab_ok_def)
  show "1 \<le> unat (es_size tab)" "unat (es_size tab) \<le> unat (es_alloced tab)" "length (es_array tab) = unat (es_alloced tab)"
    "unat (es_alloced tab) \<le> max 64 (2 * unat (es_size tab))"
    using assms by (simp_all add: strtab_ok_def)
  show "entry_at tab i" if "i \<in> {1..<unat (es_size tab)}" for i using assms that by (simp add: strtab_ok_def)
  show "(ee_len (es_heap tab ! p) = 0 \<and> ee_refcount (es_heap tab ! p) = 0) \<or> (\<exists>i \<in> {1..<unat (es_size tab)}. es_at tab i = p)"
    if "p < length (es_heap tab)" for p using assms that by (simp add: strtab_ok_def)
qed

text \<open>Looking a string up makes its entry and changes nothing that the table stands for.\<close>

lemma strtab_append_ok:
  assumes ok: "strtab_ok tab" and t: "bt_ok t" "bt_abs t = (bt_abs (es_table tab))(str \<mapsto> e)" "bt_next t = length (es_heap tab) + 1"
      "be_id e = length (es_heap tab)" and new: "bt_abs (es_table tab) str = None"
    and tab': "tab' = tab\<lparr>es_heap := es_heap tab @ [new_strtab_entry str], es_table := t\<rparr>"
  shows "strtab_ok tab'" "strtab_abs tab' = strtab_abs tab"
proof -
  note D = strtab_okD [OF ok]
  let ?H = "es_heap tab @ [new_strtab_entry str]"
  have at: "es_at tab' = es_at tab" "slot_ptr tab' = slot_ptr tab" by (simp_all add: tab' es_at_def slot_ptr_def fun_eq_iff)
  have entry: "entry_at tab' i" if "i \<in> {1..<unat (es_size tab)}" for i
    using D(10) [OF that] by (simp add: entry_at_def at) (simp add: tab' nth_append)
  have old: "?H ! be_id p = es_heap tab ! be_id p" if "bt_abs (es_table tab) s = Some p" for s p
    using D(4) [OF that] by (simp add: nth_append)
  have "\<exists>x. bt_abs t (ee_string (?H ! p)) = Some x \<and> be_id x = p" if "p < length ?H" for p
  proof (cases "p = length (es_heap tab)")
    case True
    then show ?thesis using t(2,4) by (simp add: new_strtab_entry_def)
  next
    case False
    then have p: "p < length (es_heap tab)" using that by simp
    then obtain x where "bt_abs (es_table tab) (ee_string (es_heap tab ! p)) = Some x" "be_id x = p" using D(5) by blast
    with new p t(2) show ?thesis by (auto simp: nth_append)
  qed
  moreover have "(ee_len (?H ! p) = 0 \<and> ee_refcount (?H ! p) = 0) \<or> (\<exists>i \<in> {1..<unat (es_size tab)}. es_at tab i = p)" if "p < length ?H" for p
    using that D(11) [of p] by (cases "p = length (es_heap tab)") (auto simp: nth_append new_strtab_entry_def)
  moreover have "ee_string (?H ! be_id p) = s" if "bt_abs t s = Some p" for s p
    using that t(2,4) D(4) [of s p] old [of s p] by (auto simp: new_strtab_entry_def split: if_splits)
  ultimately show "strtab_ok tab'"
    using D(3,6-9) t(1,3) entry unfolding strtab_ok_def at by (simp add: tab')
  show "strtab_abs tab' = strtab_abs tab"
  proof
    fix s
    show "strtab_abs tab' s = strtab_abs tab s"
      using t(2,4) new old [of s] by (auto simp: strtab_abs_def tab' new_strtab_entry_def Let_def split: option.splits)
  qed
qed

lemma strtab_lookup_ok:
  assumes ok: "strtab_ok tab" and mem: "mem 40" "cp \<longrightarrow> mem (ucast (snd (bfd_hash_hash str) + 1))" "\<not> mem 34359738328"
  shows "\<exists>tab' p. strtab_lookup mem tab str cp = Inr (Some p, tab') \<and> strtab_ok tab' \<and> strtab_abs tab' = strtab_abs tab \<and>
    es_size tab' = es_size tab \<and> es_asserts tab' = es_asserts tab \<and> es_alloced tab' = es_alloced tab \<and>
    p < length (es_heap tab') \<and> ee_string (es_heap tab' ! p) = str"
proof (cases "bt_abs (es_table tab) str")
  case (Some e)
  have "strtab_lookup mem tab str cp = Inr (Some (be_id e), tab)"
    using bfd_hash_create_old [OF strtab_okD(1) [OF ok] Some] by (simp add: strtab_lookup_def)
  with ok strtab_okD(4) [OF ok Some] show ?thesis by blast
next
  case None
  have nf: "elf_strtab_hash_newfunc mem str = Some ()" using mem(1) by (simp add: elf_strtab_hash_newfunc_def)
  have cp: "\<not> (cp \<and> \<not> mem (ucast (snd (bfd_hash_hash str) + 1)))" using mem(2) by blast
  let ?e = "new_entry (es_table tab) str ()"
  obtain t where t: "bfd_hash_lookup mem (elf_strtab_hash_newfunc mem) (es_table tab) str True cp = Inr (Some ?e, t)" "bt_ok t"
      "bt_abs t = (bt_abs (es_table tab))(str \<mapsto> ?e)" "bt_next t = bt_next (es_table tab) + 1"
    using bfd_hash_create_new [where mem = mem and newfunc = "elf_strtab_hash_newfunc mem", OF strtab_okD(1) [OF ok] None cp nf mem(3)] by blast
  define tab' where "tab' = tab\<lparr>es_heap := es_heap tab @ [new_strtab_entry str], es_table := t\<rparr>"
  have next_id: "bt_next t = length (es_heap tab) + 1" "be_id ?e = length (es_heap tab)" using t(4) strtab_okD(2) [OF ok] by simp_all
  note A = strtab_append_ok [OF ok t(2,3) next_id None tab'_def]
  have "strtab_lookup mem tab str cp = Inr (Some (length (es_heap tab)), tab')"
    using t(1,4) next_id(2) by (simp add: strtab_lookup_def tab'_def)
  moreover have "length (es_heap tab) < length (es_heap tab')" "ee_string (es_heap tab' ! length (es_heap tab)) = str"
    by (simp_all add: tab'_def new_strtab_entry_def)
  ultimately show ?thesis using A by (intro exI [of _ tab'] exI [of _ "length (es_heap tab)"]) (simp add: tab'_def)
qed

text \<open>One entry changes: what the table stands for changes at its string.\<close>

lemma strtab_abs_update:
  assumes ok: "strtab_ok tab" and p: "p < length (es_heap tab)" "ee_string (es_heap tab ! p) = str"
    and tab': "es_table tab' = es_table tab" "es_heap tab' = (es_heap tab)[p := e]" and e: "ee_u e = U_index i" "ee_len e \<noteq> 0"
  shows "strtab_abs tab' = (strtab_abs tab)(str \<mapsto> (unat i, ee_refcount e))"
proof
  fix s
  obtain x where x: "bt_abs (es_table tab) str = Some x" "be_id x = p" using strtab_okD(5) [OF ok p(1)] p(2) by blast
  show "strtab_abs tab' s = ((strtab_abs tab)(str \<mapsto> (unat i, ee_refcount e))) s"
  proof (cases "s = str")
    case True
    then show ?thesis using x p(1) e tab' by (simp add: strtab_abs_def)
  next
    case False
    have "be_id y \<noteq> p" if "bt_abs (es_table tab) s = Some y" for y using strtab_okD(4) [OF ok that] p(2) False by auto
    with False tab' show ?thesis by (auto simp: strtab_abs_def split: option.splits)
  qed
qed

text \<open>Counting one more reference of an entry in the array.\<close>

lemma strtab_count_ok:
  assumes ok: "strtab_ok tab" and p: "p < length (es_heap tab)" "ee_len (es_heap tab ! p) \<noteq> 0"
    and tab': "tab' = tab\<lparr>es_heap := (es_heap tab)[p := (es_heap tab ! p)\<lparr>ee_refcount := r\<rparr>]\<rparr>"
  shows "strtab_ok tab'"
proof -
  note D = strtab_okD [OF ok]
  let ?H = "(es_heap tab)[p := (es_heap tab ! p)\<lparr>ee_refcount := r\<rparr>]"
  have at: "es_at tab' = es_at tab" "slot_ptr tab' = slot_ptr tab" by (simp_all add: tab' es_at_def slot_ptr_def fun_eq_iff)
  have same: "ee_string (?H ! q) = ee_string (es_heap tab ! q)" "ee_len (?H ! q) = ee_len (es_heap tab ! q)" "ee_u (?H ! q) = ee_u (es_heap tab ! q)"
    for q using p(1) by (cases "q = p"; simp)+
  have len: "len_ok (?H ! q) = len_ok (es_heap tab ! q)" for q using same by (simp add: len_ok_def)
  have entry: "entry_at tab' i" if "i \<in> {1..<unat (es_size tab)}" for i
    using D(10) [OF that] by (simp add: entry_at_def at tab' same len)
  have "(ee_len (?H ! q) = 0 \<and> ee_refcount (?H ! q) = 0) \<or> (\<exists>i \<in> {1..<unat (es_size tab)}. es_at tab i = q)" if "q < length ?H" for q
    using D(11) [of q] that p(2) by (cases "q = p") simp_all
  then show ?thesis using D(1-9) entry unfolding strtab_ok_def at by (simp add: tab' same)
qed

text \<open>A string that gets an index.\<close>

lemma strtab_enter_ok:
  assumes ok: "strtab_ok tab" and p: "p < length (es_heap tab)" "ee_len (es_heap tab ! p) = 0"
    and e: "ee_string e = ee_string (es_heap tab ! p)" "len_ok e" "ee_u e = U_index (es_size tab)"
    and arr: "length arr = unat al" "unat (es_size tab) < length arr" "\<forall>i < unat (es_size tab). arr ! i = es_array tab ! i"
      "unat al \<le> max 64 (2 * (unat (es_size tab) + 1))"
    and size: "unat (es_size tab + 1) = unat (es_size tab) + 1"
    and tab': "tab' = tab\<lparr>es_heap := (es_heap tab)[p := e], es_size := es_size tab + 1, es_alloced := al,
      es_array := arr[unat (es_size tab) := Some p]\<rparr>"
  shows "strtab_ok tab'"
proof -
  note D = strtab_okD [OF ok]
  let ?n = "unat (es_size tab)" and ?H = "(es_heap tab)[p := e]"
  have str: "ee_string (?H ! q) = ee_string (es_heap tab ! q)" for q using e(1) p(1) by (cases "q = p") simp_all
  have at: "es_at tab' i = es_at tab i" "slot_ptr tab i \<Longrightarrow> slot_ptr tab' i" if "i < ?n" for i
    using that arr(2,3) by (simp_all add: tab' es_at_def slot_ptr_def)
  have at_n: "es_at tab' ?n = p" "slot_ptr tab' ?n" using arr(2) by (simp_all add: tab' es_at_def slot_ptr_def)
  have range: "{1..<unat (es_size tab + 1)} = insert ?n {1..<?n}" using D(6) size by auto
  then have range': "{1..<unat (es_size tab')} = insert ?n {1..<?n}" by (simp add: tab')
  have "entry_at tab' i" if "i \<in> {1..<?n}" for i
  proof -
    have "es_at tab i \<noteq> p" using D(10) [OF that] p(2) len_ok_nonzero by (auto simp: entry_at_def)
    with D(10) [OF that] at [of i] that show ?thesis by (simp add: entry_at_def) (simp add: tab')
  qed
  moreover have "entry_at tab' ?n" using at_n p(1) e(2,3) by (simp add: entry_at_def) (simp add: tab')
  ultimately have entry: "\<forall>i \<in> {1..<unat (es_size tab')}. entry_at tab' i" unfolding range' by blast
  have "(ee_len (?H ! q) = 0 \<and> ee_refcount (?H ! q) = 0) \<or> (\<exists>i \<in> insert ?n {1..<?n}. es_at tab' i = q)" if "q < length ?H" for q
  proof (cases "q = p")
    case True
    then show ?thesis using at_n(1) by blast
  next
    case False
    then show ?thesis using D(11) [of q] that at(1) by auto
  qed
  then have rest: "\<forall>q < length (es_heap tab). (ee_len (es_heap tab' ! q) = 0 \<and> ee_refcount (es_heap tab' ! q) = 0) \<or>
      (\<exists>i \<in> {1..<unat (es_size tab')}. es_at tab' i = q)" unfolding range' by (simp add: tab')
  have T: "es_table tab' = es_table tab" "length (es_heap tab') = length (es_heap tab)" "es_sec_size tab' = es_sec_size tab"
    "\<And>q. ee_string (es_heap tab' ! q) = ee_string (es_heap tab ! q)" by (simp_all add: tab' str)
  have S: "1 \<le> unat (es_size tab')" "unat (es_size tab') \<le> unat (es_alloced tab')" "length (es_array tab') = unat (es_alloced tab')"
    "unat (es_alloced tab') \<le> max 64 (2 * unat (es_size tab'))" using arr size by (simp_all add: tab')
  have "\<forall>s p. bt_abs (es_table tab) s = Some p \<longrightarrow> ee_string (es_heap tab ! be_id p) = s" using D(4) by blast
  moreover have "\<forall>p < length (es_heap tab). \<exists>e. bt_abs (es_table tab) (ee_string (es_heap tab ! p)) = Some e \<and> be_id e = p" using D(5) by blast
  ultimately show ?thesis unfolding strtab_ok_def T using D(1-3) S entry rest by (intro conjI)
qed

lemma double_alloced:
  assumes "(a :: 64 word) = s" "unat s < 2 ^ 60"
  shows "unat (a * 2) = 2 * unat s" "unat (s + 1) = unat s + 1"
  using assms by (simp_all add: unat_word_ariths)

lemma strtab_new_index_ok:
  assumes ok: "strtab_ok tab" and p: "p < length (es_heap tab)" "ee_len (es_heap tab ! p) = 0" "ee_string (es_heap tab ! p) = str"
    and small: "length str + 1 < 2 ^ 31" "unat (es_size tab) < 2 ^ 60" and mem: "mem (es_alloced tab * 2 * 8)"
  shows "\<exists>tab'. strtab_new_index mem (tab\<lparr>es_heap := (es_heap tab)[p := (es_heap tab ! p)\<lparr>ee_refcount := 1\<rparr>]\<rparr>) p str =
      Inr (es_size tab, tab') \<and> strtab_ok tab' \<and> strtab_abs tab' = (strtab_abs tab)(str \<mapsto> (unat (es_size tab), 1)) \<and>
    es_size tab' = es_size tab + 1 \<and> es_asserts tab' = es_asserts tab"
proof -
  note D = strtab_okD [OF ok]
  define e where "e = (es_heap tab ! p)\<lparr>ee_refcount := 1, ee_len := of_nat (length str + 1), ee_u := U_index (es_size tab)\<rparr>"
  define full where "full = (es_size tab = es_alloced tab)"
  define al where "al = (if full then es_alloced tab * 2 else es_alloced tab)"
  define arr where "arr = (if full then es_array tab @ replicate (unat al - length (es_array tab)) None else es_array tab)"
  define tab' where "tab' = tab\<lparr>es_heap := (es_heap tab)[p := e], es_size := es_size tab + 1, es_alloced := al,
      es_array := arr[unat (es_size tab) := Some p]\<rparr>"
  note dbl = double_alloced [OF _ small(2), of "es_alloced tab"]
  have eok: "len_ok e" "ee_string e = ee_string (es_heap tab ! p)" "ee_u e = U_index (es_size tab)" "ee_refcount e = 1" "ee_len e \<noteq> 0"
    using small(1) p(3) by (simp_all add: e_def len_ok_def) (use of_nat_int32(1) [OF small(1)] in fastforce)
  have size: "unat (es_size tab + 1) = unat (es_size tab) + 1" by (rule double_alloced(2) [OF refl small(2)])
  have lt: "unat (es_size tab) < unat (es_alloced tab)" if "\<not> full"
    using D(7) that by (simp add: full_def word_unat_eq_iff)
  have arr: "length arr = unat al" "unat (es_size tab) < length arr" "\<forall>i < unat (es_size tab). arr ! i = es_array tab ! i"
      "unat al \<le> max 64 (2 * (unat (es_size tab) + 1))"
    using D(6-9) dbl lt by (auto simp: arr_def al_def full_def nth_append)
  have ok': "strtab_ok tab'" by (rule strtab_enter_ok [OF ok p(1,2) eok(2,1,3) arr size tab'_def])
  have "strtab_abs tab' = (strtab_abs tab)(str \<mapsto> (unat (es_size tab), ee_refcount e))"
    by (rule strtab_abs_update [OF ok p(1,3) _ _ eok(3,5)]) (simp_all add: tab'_def)
  moreover have "strtab_new_index mem (tab\<lparr>es_heap := (es_heap tab)[p := (es_heap tab ! p)\<lparr>ee_refcount := 1\<rparr>]\<rparr>) p str = Inr (es_size tab, tab')"
  proof -
    have pos: "0 <s (of_nat (length str + 1) :: 32 word)" using of_nat_int32(2) [OF small(1)] by (simp only: word_sless_alt) simp
    show ?thesis
      using p(1) mem arr(2) pos
      by (auto simp: strtab_new_index_def es_update_def Let_def BFD_ASSERT_def tab'_def e_def arr_def al_def full_def wr8_def nth_append)
  qed
  ultimately show ?thesis using ok' eok(4) by (intro exI [of _ tab']) (simp add: tab'_def)
qed

text \<open>The abstract effect of adding a string: the first time it gets the next index, later one more reference.\<close>

definition strtab_entry :: "elf_strtab_hash \<Rightarrow> string \<Rightarrow> nat \<times> c_uint" where
  "strtab_entry tab s = (case strtab_abs tab s of None \<Rightarrow> (unat (es_size tab), 1) | Some (i, r) \<Rightarrow> (i, r + 1))"

lemma elf_strtab_add_ok:
  assumes ok: "strtab_ok tab" and str: "str \<noteq> []" "length str + 1 < 2 ^ 31" "unat (es_size tab) < 2 ^ 60"
    and mem: "mem 40" "cp \<longrightarrow> mem (ucast (snd (bfd_hash_hash str) + 1))" "\<not> mem 34359738328" "mem (es_alloced tab * 2 * 8)"
  shows "\<exists>tab'. elf_strtab_add mem addr tab str cp = Inr (of_nat (fst (strtab_entry tab str)), tab') \<and> strtab_ok tab' \<and>
    strtab_abs tab' = (strtab_abs tab)(str \<mapsto> strtab_entry tab str) \<and>
    unat (es_size tab') \<le> unat (es_size tab) + 1 \<and> es_asserts tab' = es_asserts tab"
proof -
  obtain tab1 p where l: "strtab_lookup mem tab str cp = Inr (Some p, tab1)" "strtab_ok tab1" "strtab_abs tab1 = strtab_abs tab"
      "es_size tab1 = es_size tab" "es_asserts tab1 = es_asserts tab" "es_alloced tab1 = es_alloced tab"
      "p < length (es_heap tab1)" "ee_string (es_heap tab1 ! p) = str"
    using strtab_lookup_ok [where mem = mem and cp = cp and str = str, OF ok mem(1-3)] by blast
  let ?e = "es_heap tab1 ! p"
  define e where "e = ?e\<lparr>ee_refcount := ee_refcount ?e + 1\<rparr>"
  define tab2 where "tab2 = tab1\<lparr>es_heap := (es_heap tab1)[p := e]\<rparr>"
  have run: "elf_strtab_add mem addr tab str cp = (if ee_len ?e = 0 then strtab_new_index mem tab2 p str else Inr (u_index addr ?e, tab2))"
    using l(1,7) str(1) strtab_okD(3) [OF ok] by (simp add: elf_strtab_add_def BFD_ASSERT_def es_update_def tab2_def e_def u_index_def)
  show ?thesis
  proof (cases "ee_len ?e = 0")
    case True
    have "strtab_abs tab1 str = None"
      using strtab_okD(5) [OF l(2,7)] l(8) True by (auto simp: strtab_abs_def Let_def split: strtab_u.splits)
    then have none: "strtab_abs tab str = None" using l(3) by simp
    have "ee_refcount ?e = 0"
      using strtab_okD(11) [OF l(2,7)] strtab_okD(10) [OF l(2)] True len_ok_nonzero by (auto simp: entry_at_def)
    then have tab2: "tab2 = tab1\<lparr>es_heap := (es_heap tab1)[p := ?e\<lparr>ee_refcount := 1\<rparr>]\<rparr>" by (simp add: tab2_def e_def)
    have small: "unat (es_size tab1) < 2 ^ 60" and m: "mem (es_alloced tab1 * 2 * 8)" using str(3) mem(4) l(4,6) by simp_all
    obtain tab' where tab': "strtab_new_index mem tab2 p str = Inr (es_size tab1, tab')" "strtab_ok tab'"
        "strtab_abs tab' = (strtab_abs tab1)(str \<mapsto> (unat (es_size tab1), 1))" "es_size tab' = es_size tab1 + 1" "es_asserts tab' = es_asserts tab1"
      using strtab_new_index_ok [where mem = mem, OF l(2,7) True l(8) str(2) small m] unfolding tab2 by blast
    have "strtab_entry tab str = (unat (es_size tab), 1)" using none by (simp add: strtab_entry_def)
    then show ?thesis using run True tab' l(3-5) double_alloced(2) [OF refl small] by simp
  next
    case False
    obtain i where i: "i \<in> {1..<unat (es_size tab1)}" "es_at tab1 i = p" using strtab_okD(11) [OF l(2,7)] False by blast
    have old: "strtab_abs tab str = Some (i, ee_refcount ?e)"
      using strtab_abs_entry [OF l(2), of str i "ee_refcount ?e"] i l(3,8) by simp
    have u: "ee_u ?e = U_index (of_nat i)" using strtab_okD(10) [OF l(2) i(1)] i(2) by (simp add: entry_at_def)
    have "unat (of_nat i :: 64 word) = i" using i(1) unsigned_less [of "es_size tab1", where ?'a = nat]
      by (simp add: unsigned_of_nat take_bit_nat_eq_self)
    then have "strtab_abs tab2 = (strtab_abs tab1)(str \<mapsto> (i, ee_refcount e))"
      using strtab_abs_update [OF l(2,7,8), of tab2 e "of_nat i"] u False by (simp add: tab2_def e_def)
    moreover have "strtab_ok tab2"
      by (rule strtab_count_ok [OF l(2,7) False]) (simp add: tab2_def e_def)
    ultimately show ?thesis using run False old u l(3-5) by (simp add: strtab_entry_def u_index_def tab2_def e_def)
  qed
qed

section \<open>The life of a string table\<close>

text \<open>
  The callers of the table, such as \<open>swap_out_syms\<close>: strings are added, the table is finalised, each
  reference is turned into its offset, and the section is written.
\<close>

fun strtab_adds ::
  "(64 word \<Rightarrow> bool) \<Rightarrow> (nat \<Rightarrow> bfd_vma) \<Rightarrow> bool \<Rightarrow> string list \<Rightarrow> elf_strtab_hash \<Rightarrow> (64 word list \<times> elf_strtab_hash) result" where
  "strtab_adds mem addr copy [] tab = Inr ([], tab)"
| "strtab_adds mem addr copy (str # strs) tab =
     rbind (elf_strtab_add mem addr tab str copy) (\<lambda>(idx, tab).
     rbind (strtab_adds mem addr copy strs tab) (\<lambda>(idxs, tab). Inr (idx # idxs, tab)))"

fun strtab_offsets :: "(nat \<Rightarrow> bfd_vma) \<Rightarrow> 64 word list \<Rightarrow> elf_strtab_hash \<Rightarrow> (bfd_vma list \<times> elf_strtab_hash) result" where
  "strtab_offsets addr [] tab = Inr ([], tab)"
| "strtab_offsets addr (idx # idxs) tab =
     rbind (elf_strtab_offset addr tab idx) (\<lambda>(off, tab).
     rbind (strtab_offsets addr idxs tab) (\<lambda>(offs, tab). Inr (off # offs, tab)))"

definition strtab_section ::
  "(64 word \<Rightarrow> bool) \<Rightarrow> (nat \<Rightarrow> bfd_vma) \<Rightarrow> ((nat \<Rightarrow> nat \<Rightarrow> int) \<Rightarrow> nat list \<Rightarrow> nat list) \<Rightarrow> (bytes \<Rightarrow> bytes \<Rightarrow> bool)
     \<Rightarrow> bool \<Rightarrow> string list \<Rightarrow> elf_strtab_hash \<Rightarrow> (bfd_vma list \<times> bytes option \<times> elf_strtab_hash) result" where
  "strtab_section mem addr qsort bwrite copy strs tab =
     rbind (strtab_adds mem addr copy strs tab) (\<lambda>(idxs, tab).
     rbind (elf_strtab_finalize mem addr qsort tab) (\<lambda>tab.
     rbind (strtab_offsets addr idxs tab) (\<lambda>(offs, tab).
     rbind (elf_strtab_emit bwrite tab) (\<lambda>(out, tab).
     Inr (offs, out, tab)))))"

text \<open>The memory there is: every request of up to 8 GiB is met, one of 32 GiB is not.\<close>

definition enough_memory :: "(64 word \<Rightarrow> bool) \<Rightarrow> bool" where
  "enough_memory mem \<longleftrightarrow> (\<forall>n. unat n \<le> 2 ^ 33 \<longrightarrow> mem n) \<and> \<not> mem 34359738328"

text \<open>The number of references of a string, and the index under which it was added.\<close>

definition refs :: "elf_strtab_hash \<Rightarrow> string \<Rightarrow> c_uint" where
  "refs tab s = (case strtab_abs tab s of None \<Rightarrow> 0 | Some (i, r) \<Rightarrow> r)"

definition index_of :: "elf_strtab_hash \<Rightarrow> string \<Rightarrow> 64 word \<Rightarrow> bool" where
  "index_of tab s idx \<longleftrightarrow> (if s = [] then idx = 0 else \<exists>i r. strtab_abs tab s = Some (i, r) \<and> idx = of_nat i)"

lemma enough_memory_add:
  assumes "enough_memory mem" "strtab_ok tab" "unat (es_size tab) < 2 ^ 28"
  shows "mem 40" "mem (ucast (n :: 32 word))" "\<not> mem 34359738328" "mem (es_alloced tab * 2 * 8)" "mem (es_size tab * 8)"
proof -
  have "unat (ucast n :: 64 word) < 2 ^ 32" using unsigned_less [of n, where ?'a = nat] by (simp add: unat_ucast_up)
  then show "mem 40" "mem (ucast n)" "\<not> mem 34359738328" using assms(1) by (simp_all add: enough_memory_def)
  have "unat (es_alloced tab) < 2 ^ 29" using strtab_okD(9) [OF assms(2)] assms(3) by (auto simp: max_def split: if_splits)
  then have "unat (es_alloced tab * 2 * 8) = unat (es_alloced tab) * 16" by (simp add: unat_word_ariths)
  then show "mem (es_alloced tab * 2 * 8)" using assms(1) \<open>unat (es_alloced tab) < 2 ^ 29\<close> by (simp add: enough_memory_def)
  have "unat (es_size tab * 8) = unat (es_size tab) * 8" using assms(3) by (simp add: unat_word_ariths)
  then show "mem (es_size tab * 8)" using assms(1,3) by (simp add: enough_memory_def)
qed

definition added :: "elf_strtab_hash \<Rightarrow> string list \<Rightarrow> elf_strtab_hash \<Rightarrow> bool" where
  "added tab strs tab' \<longleftrightarrow> strtab_ok tab' \<and> es_asserts tab' = es_asserts tab \<and> unat (es_size tab') \<le> unat (es_size tab) + length strs \<and>
     (\<forall>s idx. index_of tab s idx \<longrightarrow> index_of tab' s idx) \<and>
     (\<forall>s. s \<noteq> [] \<longrightarrow> refs tab' s = refs tab s + of_nat (count_list strs s)) \<and>
     dom (strtab_abs tab') \<subseteq> dom (strtab_abs tab) \<union> (set strs - {[]})"

lemma added_Nil: "strtab_ok tab \<Longrightarrow> added tab [] tab"
  by (simp add: added_def)

lemma added_empty: "strtab_ok tab \<Longrightarrow> added tab [[]] tab"
  by (simp add: added_def)

lemma added_trans:
  assumes "added tab xs tab1" "added tab1 ys tab2"
  shows "added tab (xs @ ys) tab2"
proof -
  have "refs tab2 s = refs tab s + of_nat (count_list (xs @ ys) s)" if "s \<noteq> []" for s
    using assms that by (simp add: added_def)
  moreover have "dom (strtab_abs tab2) \<subseteq> dom (strtab_abs tab) \<union> (set (xs @ ys) - {[]})"
  proof -
    have "dom (strtab_abs tab1) \<subseteq> dom (strtab_abs tab) \<union> (set xs - {[]})" "dom (strtab_abs tab2) \<subseteq> dom (strtab_abs tab1) \<union> (set ys - {[]})"
      using assms by (simp_all add: added_def)
    moreover have "set (xs @ ys) - {[]} = (set xs - {[]}) \<union> (set ys - {[]})" by auto
    ultimately show ?thesis by blast
  qed
  moreover have "index_of tab2 s idx" if "index_of tab s idx" for s idx using assms that unfolding added_def by blast
  ultimately show ?thesis using assms by (simp add: added_def)
qed

lemma added_one:
  assumes "strtab_ok tab'" "strtab_abs tab' = (strtab_abs tab)(str \<mapsto> strtab_entry tab str)" "unat (es_size tab') \<le> unat (es_size tab) + 1"
    "es_asserts tab' = es_asserts tab" "str \<noteq> []"
  shows "added tab [str] tab'" "index_of tab' str (of_nat (fst (strtab_entry tab str)))"
proof -
  have "index_of tab' s idx" if i: "index_of tab s idx" for s idx
  proof (cases "s = str")
    case True
    then show ?thesis using i assms(2,5) by (auto simp: index_of_def strtab_entry_def)
  next
    case False
    then show ?thesis using i assms(2) by (auto simp: index_of_def split: if_splits)
  qed
  moreover have "refs tab' s = refs tab s + of_nat (count_list [str] s)" for s
    using assms(2) by (simp add: refs_def strtab_entry_def split: option.splits)
  moreover have "dom (strtab_abs tab') \<subseteq> dom (strtab_abs tab) \<union> (set [str] - {[]})" using assms(2,5) by auto
  ultimately show "added tab [str] tab'" using assms by (simp add: added_def)
  show "index_of tab' str (of_nat (fst (strtab_entry tab str)))"
    using assms(2,5) by (cases "strtab_entry tab str") (simp add: index_of_def)
qed

lemma strtab_adds_ok:
  "strtab_ok tab \<Longrightarrow> \<forall>s \<in> set strs. length s + 1 < 2 ^ 31 \<Longrightarrow> unat (es_size tab) + length strs \<le> 2 ^ 28 \<Longrightarrow> enough_memory mem \<Longrightarrow>
   \<exists>idxs tab'. strtab_adds mem addr cp strs tab = Inr (idxs, tab') \<and> added tab strs tab' \<and> list_all2 (index_of tab') strs idxs"
proof (induction strs arbitrary: tab)
  case Nil
  then show ?case by (simp add: added_Nil)
next
  case (Cons str strs)
  have "unat (es_size tab) < 2 ^ 28" using Cons.prems(3) by simp
  note mem = enough_memory_add [OF Cons.prems(4,1) this]
  have "\<exists>idx tab1. elf_strtab_add mem addr tab str cp = Inr (idx, tab1) \<and> added tab [str] tab1 \<and> index_of tab1 str idx"
  proof (cases "str = []")
    case True
    then show ?thesis using added_empty [OF Cons.prems(1)] by (simp add: elf_strtab_add_def index_of_def)
  next
    case False
    have "length str + 1 < 2 ^ 31" "unat (es_size tab) < 2 ^ 60" using Cons.prems(2,3) by simp_all
    from elf_strtab_add_ok [where mem = mem and addr = addr and cp = cp, OF Cons.prems(1) False this mem(1) _ mem(3,4)] mem(2)
    obtain tab1 where tab1: "elf_strtab_add mem addr tab str cp = Inr (of_nat (fst (strtab_entry tab str)), tab1)" "strtab_ok tab1"
        "strtab_abs tab1 = (strtab_abs tab)(str \<mapsto> strtab_entry tab str)" "unat (es_size tab1) \<le> unat (es_size tab) + 1" "es_asserts tab1 = es_asserts tab"
      by blast
    from added_one [OF tab1(2-5) False] tab1(1) show ?thesis by blast
  qed
  then obtain idx tab1 where A: "elf_strtab_add mem addr tab str cp = Inr (idx, tab1)" "added tab [str] tab1" "index_of tab1 str idx" by blast
  have ok1: "strtab_ok tab1" "unat (es_size tab1) \<le> unat (es_size tab) + 1" using A(2) by (simp_all add: added_def)
  have "\<forall>s \<in> set strs. length s + 1 < 2 ^ 31" "unat (es_size tab1) + length strs \<le> 2 ^ 28" using Cons.prems(2,3) ok1(2) by simp_all
  from Cons.IH [OF ok1(1) this Cons.prems(4)] obtain idxs tab' where
    B: "strtab_adds mem addr cp strs tab1 = Inr (idxs, tab')" "added tab1 strs tab'" "list_all2 (index_of tab') strs idxs" by blast
  have "strtab_adds mem addr cp (str # strs) tab = Inr (idx # idxs, tab')" using A(1) B(1) by simp
  moreover have "index_of tab' str idx" using A(3) B(2) unfolding added_def by blast
  ultimately show ?case using added_trans [OF A(2) B(2)] B(3) by (intro exI [of _ "idx # idxs"] exI [of _ tab']) simp
qed

text \<open>Taking the offset of every reference counts them down to zero.\<close>

definition same_offsets :: "elf_strtab_hash_entry list \<Rightarrow> elf_strtab_hash_entry list \<Rightarrow> bool" where
  "same_offsets H K \<longleftrightarrow> length K = length H \<and>
     (\<forall>q < length H. ee_string (K ! q) = ee_string (H ! q) \<and> ee_len (K ! q) = ee_len (H ! q) \<and> ee_u (K ! q) = ee_u (H ! q))"

lemma same_offsets_count:
  "same_offsets H K \<Longrightarrow> same_offsets H (K[p := (K ! p)\<lparr>ee_refcount := r\<rparr>])"
  by (cases "p < length K") (auto simp: same_offsets_def nth_list_update)

definition slot_of :: "elf_strtab_hash \<Rightarrow> elf_strtab_hash_entry list \<Rightarrow> string \<Rightarrow> 64 word \<Rightarrow> bool" where
  "slot_of tab H s idx \<longleftrightarrow> (if s = [] then idx = 0
     else \<exists>i \<in> {1..<unat (es_size tab)}. ee_string (H ! es_at tab i) = s \<and> idx = of_nat i)"

lemma strtab_offset_ok:
  assumes i: "i \<in> {1..<unat (es_size tab)}" "slot_ptr tab i" "es_at tab i < length K" and sec: "es_sec_size tab \<noteq> 0"
    and r: "ee_refcount (K ! es_at tab i) > 0" and u: "ee_u (K ! es_at tab i) = U_index off"
  shows "elf_strtab_offset addr (tab\<lparr>es_heap := K\<rparr>) (of_nat i) = Inr (off, tab\<lparr>es_heap := K[es_at tab i :=
      (K ! es_at tab i)\<lparr>ee_refcount := ee_refcount (K ! es_at tab i) - 1\<rparr>]\<rparr>)"
proof -
  have small: "i < 2 ^ 64" using i(1) unsigned_less [of "es_size tab", where ?'a = nat] by auto
  then have n: "unat (of_nat i :: 64 word) = i" by (simp add: unsigned_of_nat take_bit_nat_eq_self)
  then have "(of_nat i :: 64 word) \<noteq> 0" "(of_nat i :: 64 word) < es_size tab"
    using i(1) by (auto simp: word_less_nat_alt simp flip: unat_eq_0)
  then show ?thesis
    using i(2,3) sec r u n
    by (simp add: elf_strtab_offset_def BFD_ASSERT_def es_ptr_slot es_entry_def es_update_def u_index_def Let_def)
qed

lemma strtab_offsets_ok:
  assumes slots: "\<forall>i \<in> {1..<unat (es_size tab)}. slot_ptr tab i \<and> es_at tab i < length H \<and> ee_string (H ! es_at tab i) \<noteq> [] \<and>
      (\<exists>off. ee_u (H ! es_at tab i) = U_index (of_nat off) \<and> off < 2 ^ 64 \<and> string_at S off (ee_string (H ! es_at tab i)))"
    and inj: "\<forall>i \<in> {1..<unat (es_size tab)}. \<forall>j \<in> {1..<unat (es_size tab)}.
      ee_string (H ! es_at tab i) = ee_string (H ! es_at tab j) \<longrightarrow> i = j"
    and sec: "es_sec_size tab \<noteq> 0" and zero: "string_at S 0 []"
  shows "list_all2 (slot_of tab H) strs idxs \<Longrightarrow> length strs < 2 ^ 32 \<Longrightarrow> same_offsets H K \<Longrightarrow>
   \<forall>i \<in> {1..<unat (es_size tab)}. ee_refcount (K ! es_at tab i) = of_nat (count_list strs (ee_string (H ! es_at tab i))) \<Longrightarrow>
   \<exists>offs K'. strtab_offsets addr idxs (tab\<lparr>es_heap := K\<rparr>) = Inr (offs, tab\<lparr>es_heap := K'\<rparr>) \<and> same_offsets H K' \<and>
     (\<forall>i \<in> {1..<unat (es_size tab)}. ee_refcount (K' ! es_at tab i) = 0) \<and> list_all2 (\<lambda>s off. string_at S (unat off) s) strs offs"
proof (induction strs arbitrary: idxs K)
  case Nil
  then show ?case by (intro exI [of _ "[]"] exI [of _ K]) simp
next
  case (Cons s strs)
  let ?at = "es_at tab" and ?R = "{1..<unat (es_size tab)}"
  from Cons.prems(1) obtain idx idxs' where idxs: "idxs = idx # idxs'" "slot_of tab H s idx" "list_all2 (slot_of tab H) strs idxs'"
    by (auto simp: list_all2_Cons1)
  have "\<exists>off K1. elf_strtab_offset addr (tab\<lparr>es_heap := K\<rparr>) idx = Inr (off, tab\<lparr>es_heap := K1\<rparr>) \<and> same_offsets H K1 \<and>
      (\<forall>i \<in> ?R. ee_refcount (K1 ! ?at i) = of_nat (count_list strs (ee_string (H ! ?at i)))) \<and> string_at S (unat off) s"
  proof (cases "s = []")
    case True
    have "\<forall>i \<in> ?R. ee_refcount (K ! ?at i) = of_nat (count_list strs (ee_string (H ! ?at i)))"
      using Cons.prems(4) slots True by (metis count_list.simps(2))
    moreover have "elf_strtab_offset addr (tab\<lparr>es_heap := K\<rparr>) idx = Inr (0, tab\<lparr>es_heap := K\<rparr>)"
      using idxs(2) True by (simp add: slot_of_def elf_strtab_offset_def)
    ultimately show ?thesis using Cons.prems(3) zero True by (intro exI [of _ 0] exI [of _ K]) simp
  next
    case False
    then obtain i where i: "i \<in> ?R" "ee_string (H ! ?at i) = s" "idx = of_nat i" using idxs(2) by (auto simp: slot_of_def)
    obtain off where off: "slot_ptr tab i" "?at i < length H" "ee_u (H ! ?at i) = U_index (of_nat off)" "off < 2 ^ 64" "string_at S off s"
      using slots i(1,2) by blast
    let ?e = "K ! ?at i"
    let ?K = "K[?at i := ?e\<lparr>ee_refcount := ee_refcount ?e - 1\<rparr>]"
    have K: "?at i < length K" "ee_u ?e = U_index (of_nat off)" using Cons.prems(3) off(2,3) by (simp_all add: same_offsets_def)
    have ref: "ee_refcount ?e = of_nat (Suc (count_list strs s))" using Cons.prems(4) i(1,2) by simp
    have small: "Suc (count_list strs s) < 2 ^ 32" using Cons.prems(2) count_le_length [of strs s] by simp
    then have "unat (of_nat (Suc (count_list strs s)) :: 32 word) = Suc (count_list strs s)"
      by (simp only: unsigned_of_nat) (simp add: take_bit_nat_eq_self)
    then have "ee_refcount ?e > 0" unfolding ref by (simp only: word_less_nat_alt) simp
    then have run: "elf_strtab_offset addr (tab\<lparr>es_heap := K\<rparr>) idx = Inr (of_nat off, tab\<lparr>es_heap := ?K\<rparr>)"
      using strtab_offset_ok [OF i(1) off(1) K(1) sec _ K(2)] i(3) by simp
    have "ee_refcount (?K ! ?at j) = of_nat (count_list strs (ee_string (H ! ?at j)))" if j: "j \<in> ?R" for j
    proof (cases "j = i")
      case True
      then show ?thesis using K(1) ref i(2) by simp
    next
      case ne: False
      then have "ee_string (H ! ?at j) \<noteq> s" using inj i(1,2) j by metis
      moreover then have "?at j \<noteq> ?at i" using i(2) by metis
      ultimately show ?thesis using Cons.prems(4) j by simp
    qed
    moreover have "unat (of_nat off :: 64 word) = off" using off(4) by (simp add: unsigned_of_nat take_bit_nat_eq_self)
    ultimately show ?thesis using run same_offsets_count [OF Cons.prems(3)] off(5) by (intro exI [of _ "of_nat off"] exI [of _ ?K]) simp
  qed
  then obtain off K1 where A: "elf_strtab_offset addr (tab\<lparr>es_heap := K\<rparr>) idx = Inr (off, tab\<lparr>es_heap := K1\<rparr>)" "same_offsets H K1"
      "\<forall>i \<in> ?R. ee_refcount (K1 ! ?at i) = of_nat (count_list strs (ee_string (H ! ?at i)))" "string_at S (unat off) s" by blast
  have "length strs < 2 ^ 32" using Cons.prems(2) by simp
  from Cons.IH [OF idxs(3) this A(2,3)] obtain offs K' where
    B: "strtab_offsets addr idxs' (tab\<lparr>es_heap := K1\<rparr>) = Inr (offs, tab\<lparr>es_heap := K'\<rparr>)" "same_offsets H K'"
      "\<forall>i \<in> ?R. ee_refcount (K' ! ?at i) = 0" "list_all2 (\<lambda>s off. string_at S (unat off) s) strs offs" by blast
  have "strtab_offsets addr idxs (tab\<lparr>es_heap := K\<rparr>) = Inr (off # offs, tab\<lparr>es_heap := K'\<rparr>)" using A(1) B(1) idxs(1) by simp
  moreover have "list_all2 (\<lambda>s off. string_at S (unat off) s) (s # strs) (off # offs)" using A(4) B(4) by simp
  ultimately show ?case using B(2,3) by blast
qed

lemma section_length:
  assumes "\<forall>i \<in> {1..<n}. printable_len (H ! es_at tab i)"
  shows "1 \<le> k \<Longrightarrow> k \<le> n \<Longrightarrow> length (section_to tab H k) \<le> 1 + k * 2 ^ 31"
proof (induction k rule: nat_induct_at_least [of 1])
  case base
  then show ?case by (simp add: section_to_def)
next
  case (Suc k)
  have "printable_len (H ! es_at tab k)" using assms Suc.hyps Suc.prems by simp
  then have "length (chunk (H ! es_at tab k)) \<le> 2 ^ 31"
    by (auto simp: chunk_def printable_len_def len_ok_def word_sless_alt)
  with Suc show ?case by (simp add: section_to_Suc)
qed

lemma string_at_less: "string_at out off s \<Longrightarrow> off < length out"
  by (rule ccontr) (simp add: string_at_def c_bytes_def)

lemma elf_strtab_init_ok:
  assumes "elf_strtab_init dsize mem = Some tab" "dsize \<noteq> 0" "dsize < 4294967291"
  shows "strtab_ok tab" "strtab_abs tab = Map.empty" "es_asserts tab = 0" "es_size tab = 1"
proof -
  have "unat dsize < 2 ^ 32" using assms(3) by (simp add: word_less_nat_alt)
  then have c: "unat (ucast dsize :: 32 word) = unat dsize" by (simp add: unsigned_ucast_eq take_bit_nat_eq_self)
  have c32: "(ucast dsize :: 32 word) \<noteq> 0" "(ucast dsize :: 32 word) < 4294967291"
    using assms(2,3) c by (simp_all add: word_less_nat_alt flip: unat_eq_0)
  obtain t where t: "bfd_hash_table_init dsize mem = Some t"
    "tab = \<lparr>es_table = t, es_heap = [], es_size = 1, es_alloced = 64, es_sec_size = 0, es_array = replicate 64 None, es_asserts = 0\<rparr>"
    using assms(1) by (auto simp: elf_strtab_init_def split: if_splits option.splits)
  note T = bfd_hash_table_init_ok [OF t(1) [unfolded bfd_hash_table_init_def] c32]
  have "bt_next t = 0" using t(1) by (auto simp: bfd_hash_table_init_def bfd_hash_table_init_n_def Let_def split: if_splits)
  then show "strtab_ok tab" using T by (simp add: strtab_ok_def t(2))
  show "strtab_abs tab = Map.empty" using T by (simp add: strtab_abs_def t(2) fun_eq_iff)
  show "es_asserts tab = 0" "es_size tab = 1" by (simp_all add: t(2))
qed

text \<open>The slots after all strings are added: each has a string of the list, counted as often as it occurs.\<close>

lemma added_slots:
  assumes a: "added tab strs tab'" and e: "strtab_abs tab = Map.empty" and len: "length strs < 2 ^ 32" and i: "i \<in> {1..<unat (es_size tab')}"
  defines "s \<equiv> ee_string (es_heap tab' ! es_at tab' i)"
  shows "s \<noteq> []" "s \<in> set strs" "ee_refcount (es_heap tab' ! es_at tab' i) = of_nat (count_list strs s)"
    "ee_refcount (es_heap tab' ! es_at tab' i) \<noteq> 0"
proof -
  have ok: "strtab_ok tab'" using a by (simp add: added_def)
  have abs: "strtab_abs tab' s = Some (i, ee_refcount (es_heap tab' ! es_at tab' i))" using strtab_abs_entry [OF ok] i by (simp add: s_def)
  then have "s \<in> dom (strtab_abs tab')" by blast
  then have "s \<in> set strs - {[]}" using a e by (auto simp: added_def)
  then show s: "s \<noteq> []" "s \<in> set strs" by simp_all
  then show ref: "ee_refcount (es_heap tab' ! es_at tab' i) = of_nat (count_list strs s)"
    using a e abs by (auto simp: added_def refs_def)
  have "count_list strs s \<noteq> 0" "count_list strs s < 2 ^ 32" using s(2) len count_le_length [of strs s] by (simp_all add: count_list_0_iff)
  then show "ee_refcount (es_heap tab' ! es_at tab' i) \<noteq> 0"
    unfolding ref by (simp add: word_of_nat_eq_0_iff) (metis nat_dvd_not_less not_gr0)
qed

text \<open>The table is finalised, the offsets are taken and the section is written.\<close>

lemma strtab_finish:
  assumes a: "added tab0 strs tab" and e: "strtab_abs tab0 = Map.empty" and idxs: "list_all2 (index_of tab) strs idxs"
    and len: "length strs < 2 ^ 28" "unat (es_size tab0) = 1" and qs: "sorts qsort" and mem: "enough_memory mem" and bw: "\<forall>a b. bwrite a b"
  shows "\<exists>tab2 offs tab3 out tab4. elf_strtab_finalize mem addr qsort tab = Inr tab2 \<and>
     strtab_offsets addr idxs tab2 = Inr (offs, tab3) \<and> elf_strtab_emit bwrite tab3 = Inr (Some out, tab4) \<and>
     unat (elf_strtab_size tab4) = length out \<and> es_asserts tab4 = es_asserts tab \<and>
     list_all2 (\<lambda>s off. string_at out (unat off) s) strs offs"
proof -
  let ?n = "unat (es_size tab)" and ?at = "es_at tab" and ?R = "{1..<unat (es_size tab)}"
  have ok: "strtab_ok tab" and n: "?n \<le> 1 + length strs" using a len(2) by (simp_all add: added_def)
  have small: "length strs < 2 ^ 32" using len(1) by simp
  note slot = added_slots [OF a e small]
  have "?n \<le> 2 ^ 28" using n len(1) by simp
  have m8: "mem (es_size tab * 8)"
  proof -
    have "unat (es_size tab * 8) = ?n * 8" using \<open>?n \<le> 2 ^ 28\<close> by (simp add: unat_word_ariths)
    then show ?thesis using mem \<open>?n \<le> 2 ^ 28\<close> by (simp add: enough_memory_def)
  qed
  obtain H where H: "elf_strtab_finalize mem addr qsort tab = Inr (tab\<lparr>es_heap := H, es_sec_size := of_nat (length (section_to tab H ?n))\<rparr>)"
      "same_names (es_heap tab) H" "\<forall>i \<in> ?R. printable_len (H ! ?at i)"
      "\<forall>i \<in> ?R. ee_refcount (H ! ?at i) \<noteq> 0 \<longrightarrow>
        (\<exists>off. ee_u (H ! ?at i) = U_index (of_nat off) \<and> string_at (section_to tab H ?n) off (ee_string (H ! ?at i)))"
    using elf_strtab_finalize_ok [where mem = mem, OF strtab_ok_slots [OF ok] refl strtab_okD(6) [OF ok] qs m8] by blast
  define S where "S = section_to tab H ?n"
  have lenS: "1 \<le> length S" "length S < 2 ^ 64"
    using section_length [OF H(3) strtab_okD(6) [OF ok] order_refl] \<open>?n \<le> 2 ^ 28\<close> by (simp_all add: S_def) (simp add: section_to_def)
  define tab2 where "tab2 = tab\<lparr>es_sec_size := of_nat (length S)\<rparr>"
  have slots: "slot_ptr tab i" "?at i < length H" "ee_string (H ! ?at i) = ee_string (es_heap tab ! ?at i)"
      "ee_refcount (H ! ?at i) = ee_refcount (es_heap tab ! ?at i)" if "i \<in> ?R" for i
    using strtab_okD(10) [OF ok that] H(2) by (simp_all add: entry_at_def same_names_def)
  have off: "\<exists>off. ee_u (H ! ?at i) = U_index (of_nat off) \<and> off < 2 ^ 64 \<and> string_at S off (ee_string (H ! ?at i))" if i: "i \<in> ?R" for i
  proof -
    have "ee_refcount (H ! ?at i) \<noteq> 0" using slot(4) [OF i] slots(4) [OF i] by simp
    then obtain off where "ee_u (H ! ?at i) = U_index (of_nat off)" "string_at S off (ee_string (H ! ?at i))"
      using H(4) i unfolding S_def by blast
    with string_at_less lenS(2) show ?thesis by (metis less_trans)
  qed
  have P1: "\<forall>i \<in> {1..<unat (es_size tab2)}. slot_ptr tab2 i \<and> es_at tab2 i < length H \<and> ee_string (H ! es_at tab2 i) \<noteq> [] \<and>
      (\<exists>off. ee_u (H ! es_at tab2 i) = U_index (of_nat off) \<and> off < 2 ^ 64 \<and> string_at S off (ee_string (H ! es_at tab2 i)))"
    using slots off slot(1) by (simp add: tab2_def)
  have inj: "i = j" if "i \<in> ?R" "j \<in> ?R" "ee_string (H ! ?at i) = ee_string (H ! ?at j)" for i j
    using strtab_abs_entry [OF ok, of "ee_string (es_heap tab ! ?at i)"] that slots(3) by (metis option.inject prod.inject)
  then have P2: "\<forall>i \<in> {1..<unat (es_size tab2)}. \<forall>j \<in> {1..<unat (es_size tab2)}.
      ee_string (H ! es_at tab2 i) = ee_string (H ! es_at tab2 j) \<longrightarrow> i = j" by (simp add: tab2_def)
  have sz: "unat (of_nat (length S) :: 64 word) = length S" using lenS(2) by (simp add: unsigned_of_nat take_bit_nat_eq_self)
  then have "(of_nat (length S) :: 64 word) \<noteq> 0" using lenS(1) by (metis not_one_le_zero unsigned_0)
  then have P3: "es_sec_size tab2 \<noteq> 0" by (simp add: tab2_def)
  have P4: "string_at S 0 []" by (simp add: string_at_def S_def section_to_def c_bytes_def)
  have "slot_of tab2 H s idx" if "index_of tab s idx" for s idx
    using that strtab_abs_entry [OF ok, of s] slots(3) by (auto simp: index_of_def slot_of_def tab2_def split: if_splits)
  then have P5: "list_all2 (slot_of tab2 H) strs idxs" using idxs list_all2_mono by blast
  have P6: "same_offsets H H" by (simp add: same_offsets_def)
  have P7: "\<forall>i \<in> {1..<unat (es_size tab2)}. ee_refcount (H ! es_at tab2 i) = of_nat (count_list strs (ee_string (H ! es_at tab2 i)))"
    using slot(3) slots(3,4) by (simp add: tab2_def)
  obtain offs K where K: "strtab_offsets addr idxs (tab2\<lparr>es_heap := H\<rparr>) = Inr (offs, tab2\<lparr>es_heap := K\<rparr>)" "same_offsets H K"
      "\<forall>i \<in> ?R. ee_refcount (K ! ?at i) = 0" "list_all2 (\<lambda>s off. string_at S (unat off) s) strs offs"
    using strtab_offsets_ok [OF P1 P2 P3 P4 P5 small P6 P7, of addr] by (auto simp: tab2_def)
  have "chunk (K ! ?at i) = chunk (H ! ?at i)" "printable_len (K ! ?at i)" if "i \<in> ?R" for i
    using K(2) slots(2) [OF that] H(3) that by (auto simp: same_offsets_def chunk_def printable_len_def len_ok_def)
  then have SK: "section_to tab2 K ?n = S" and E: "\<forall>i \<in> {1..<?n}. slot_ptr tab2 i \<and> es_at tab2 i < length K \<and>
      printable_len (K ! es_at tab2 i) \<and> ee_refcount (K ! es_at tab2 i) = 0"
    using K(2,3) slots(1,2) by (auto simp: S_def section_to_def tab2_def same_offsets_def intro!: arg_cong [of _ _ concat])
  have "elf_strtab_emit bwrite (tab2\<lparr>es_heap := K\<rparr>) = Inr (Some S, tab2\<lparr>es_heap := K\<rparr>)"
    using emit_loop [where bwrite = bwrite, OF E bw strtab_okD(6) [OF ok] order_refl] bw
    by (simp add: elf_strtab_emit_def SK BFD_ASSERT_def) (simp add: tab2_def)
  moreover have "elf_strtab_finalize mem addr qsort tab = Inr (tab2\<lparr>es_heap := H\<rparr>)" using H(1) by (simp add: tab2_def S_def es_updates)
  moreover have "unat (elf_strtab_size (tab2\<lparr>es_heap := K\<rparr>)) = length S" "es_asserts (tab2\<lparr>es_heap := K\<rparr>) = es_asserts tab"
    using sz P3 by (simp_all add: elf_strtab_size_def tab2_def)
  ultimately show ?thesis using K(1,4) by blast
qed

text \<open>
  C9: a string table keeps its strings. Strings that are added to a new table, in any order and as
  often as one likes, get offsets after the table is finalised such that the section that is written has at the offset of each
  string this string and its zero, also where one string was merged into another as its suffix. No
  assertion of the code fails, the size of the table is the number of bytes written, and this holds for every way in which \<open>qsort\<close> may
  arrange its array, as long as it permutes it.
\<close>

theorem elf_strtab_roundtrip:
  assumes "elf_strtab_init dsize mem = Some tab" "dsize \<noteq> 0" "dsize < 4294967291" "enough_memory mem" "sorts qsort" "\<forall>a b. bwrite a b"
    and "\<forall>s \<in> set strs. length s + 1 < 2 ^ 31" "length strs < 2 ^ 28"
  shows "\<exists>offs out tab'. strtab_section mem addr qsort bwrite copy strs tab = Inr (offs, Some out, tab') \<and>
    unat (elf_strtab_size tab') = length out \<and> es_asserts tab' = 0 \<and>
    list_all2 (\<lambda>s off. take (length s + 1) (drop (unat off) out) = c_bytes s) strs offs"
proof -
  note I = elf_strtab_init_ok [OF assms(1-3)]
  have "unat (es_size tab) + length strs \<le> 2 ^ 28" using I(4) assms(8) by simp
  from strtab_adds_ok [OF I(1) assms(7) this assms(4), of addr copy] obtain idxs tab1 where
    A: "strtab_adds mem addr copy strs tab = Inr (idxs, tab1)" "added tab strs tab1" "list_all2 (index_of tab1) strs idxs" by blast
  have one: "unat (es_size tab) = 1" using I(4) by simp
  obtain tab2 offs tab3 out tab4 where B: "elf_strtab_finalize mem addr qsort tab1 = Inr tab2"
      "strtab_offsets addr idxs tab2 = Inr (offs, tab3)" "elf_strtab_emit bwrite tab3 = Inr (Some out, tab4)"
      "unat (elf_strtab_size tab4) = length out" "es_asserts tab4 = es_asserts tab1" "list_all2 (\<lambda>s off. string_at out (unat off) s) strs offs"
    using strtab_finish [where mem = mem and bwrite = bwrite and addr = addr, OF A(2) I(2) A(3) assms(8) one assms(5,4,6)] by blast
  have "es_asserts tab1 = 0" using A(2) I(3) by (simp add: added_def)
  with A(1) B show ?thesis by (simp add: strtab_section_def string_at_def)
qed

text \<open>A sort by insertion, to run the table.\<close>

fun insert_cmp :: "(nat \<Rightarrow> nat \<Rightarrow> int) \<Rightarrow> nat \<Rightarrow> nat list \<Rightarrow> nat list" where
  "insert_cmp cmp x [] = [x]"
| "insert_cmp cmp x (y # ys) = (if cmp x y \<le> 0 then x # y # ys else y # insert_cmp cmp x ys)"

definition insertion_qsort :: "(nat \<Rightarrow> nat \<Rightarrow> int) \<Rightarrow> nat list \<Rightarrow> nat list" where
  "insertion_qsort cmp xs = foldr (insert_cmp cmp) xs []"

lemma insertion_qsort_sorts: "sorts insertion_qsort"
proof -
  have "mset (insert_cmp cmp x ys) = add_mset x (mset ys)" for cmp x ys by (induction ys) auto
  then have "mset (foldr (insert_cmp cmp) xs []) = mset xs" for cmp xs by (induction xs) auto
  then show ?thesis by (simp add: sorts_def insertion_qsort_def)
qed

definition example_strings :: "string list" where
  "example_strings = [''ab'', ''b'', [], ''cb'', ''ab'']"

lemma example_memory: "enough_memory (\<lambda>n. n \<le> 0x200000000)"
  by (simp add: enough_memory_def word_le_nat_alt)

text \<open>The string \<open>b\<close> is the end of \<open>ab\<close> and shares its bytes.\<close>

theorem elf_strtab_roundtrip_witness:
  "\<exists>tab offs out tab'. elf_strtab_init 31 (\<lambda>n. n \<le> 0x200000000) = Some tab \<and>
     strtab_section (\<lambda>n. n \<le> 0x200000000) (\<lambda>p. 0) insertion_qsort (\<lambda>a b. True) False example_strings tab = Inr (offs, Some out, tab') \<and>
     offs = [1, 2, 0, 4, 1] \<and> out = [0, 0x61, 0x62, 0, 0x63, 0x62, 0] \<and>
     list_all2 (\<lambda>s off. take (length s + 1) (drop (unat off) out) = c_bytes s) example_strings offs"
proof -
  define tab where "tab = the (elf_strtab_init 31 (\<lambda>n. n \<le> 0x200000000))"
  have tab: "elf_strtab_init 31 (\<lambda>n. n \<le> 0x200000000) = Some tab"
    unfolding tab_def by (simp add: elf_strtab_init_def bfd_hash_table_init_def bfd_hash_table_init_n_def)
  have strs: "\<forall>s \<in> set example_strings. length s + 1 < 2 ^ 31" "length example_strings < 2 ^ 28" by (simp_all add: example_strings_def)
  obtain offs out tab' where R: "strtab_section (\<lambda>n. n \<le> 0x200000000) (\<lambda>p. 0) insertion_qsort (\<lambda>a b. True) False example_strings tab =
      Inr (offs, Some out, tab')" "list_all2 (\<lambda>s off. take (length s + 1) (drop (unat off) out) = c_bytes s) example_strings offs"
    using elf_strtab_roundtrip [OF tab _ _ example_memory insertion_qsort_sorts _ strs, of "\<lambda>a b. True" "\<lambda>p. 0" False] by auto
  have "case strtab_section (\<lambda>n. n \<le> 0x200000000) (\<lambda>p. 0) insertion_qsort (\<lambda>a b. True) False example_strings tab of
      Inr (offs, Some out, tab') \<Rightarrow> offs = [1, 2, 0, 4, 1] \<and> out = [0, 0x61, 0x62, 0, 0x63, 0x62, 0] | _ \<Rightarrow> False"
    unfolding tab_def by code_simp
  with tab R show ?thesis by auto
qed

text \<open>Without memory for the array of pointers nothing is merged, but the strings no longer in use are written all the same.\<close>

lemma unmerged_emits_unused:
  "\<exists>tab tab1 tab2 out tab3. elf_strtab_init 31 (\<lambda>n. n \<noteq> 24) = Some tab \<and>
     strtab_adds (\<lambda>n. n \<noteq> 24) (\<lambda>p. 0) False [''ab'', ''c''] tab = Inr ([1, 2], tab1) \<and>
     rbind (elf_strtab_delref tab1 1) (elf_strtab_finalize (\<lambda>n. n \<noteq> 24) (\<lambda>p. 0) insertion_qsort) = Inr tab2 \<and>
     elf_strtab_emit (\<lambda>a b. True) tab2 = Inr (Some out, tab3) \<and> 
     map_sum id fst (elf_strtab_offset (\<lambda>p. 0) tab2 2) = Inr 1 \<and> \<not> string_at out 1 ''c''"
proof -
  define tab where "tab = the (elf_strtab_init 31 (\<lambda>n. n \<noteq> 24))"
  define tab1 where "tab1 = snd (projr (strtab_adds (\<lambda>n. n \<noteq> 24) (\<lambda>p. 0) False [''ab'', ''c''] tab))"
  define tab2 where "tab2 = projr (rbind (elf_strtab_delref tab1 1) (elf_strtab_finalize (\<lambda>n. n \<noteq> 24) (\<lambda>p. 0) insertion_qsort))"
  show ?thesis
    by (rule exI [of _ tab], rule exI [of _ tab1], rule exI [of _ tab2], rule exI [of _ "the (fst (projr (elf_strtab_emit (\<lambda>a b. True) tab2)))"],
        rule exI [of _ "snd (projr (elf_strtab_emit (\<lambda>a b. True) tab2))"]) (unfold tab2_def tab1_def tab_def, code_simp)
qed

end
