(* ===== verification/Gas_Number.thy ===== *)
theory Gas_Number
  imports Gas_State
begin

text \<open>
  Numbers in expressions: \<open>integer_constant\<close> of \<^verbatim>\<open>gas/expr.c\<close>, as configured for the target: no MRI
  mode, no radix suffixes, 64-bit values, local labels written as digits with \<open>b\<close>, \<open>f\<close> or
  \<open>$\<close> behind them. The static array \<open>generic_bignum\<close> is passed and returned; \<open>local_label\<close>, a parameter, is
  what \<^verbatim>\<open>gas/symbols.c\<close> makes of such a label.
\<close>

subsection \<open>Digits\<close>

definition hex_bad :: nat where "hex_bad = 99"

definition hex_value :: "char \<Rightarrow> nat" where
  "hex_value c =
     (let n = of_char c :: nat in
      if 48 \<le> n \<and> n \<le> 57 then n - 48
      else if 65 \<le> n \<and> n \<le> 70 then n - 55
      else if 97 \<le> n \<and> n \<le> 102 then n - 87
      else hex_bad)"

type_synonym littlenum = "16 word"

definition SIZE_OF_LARGE_NUMBER :: nat where "SIZE_OF_LARGE_NUMBER = 20"

definition generic_bignum_to_int32 :: "littlenum list \<Rightarrow> 64 word result" where
  "generic_bignum_to_int32 generic_bignum =
     rbind (rd8 generic_bignum 1) (\<lambda>b1. rbind (rd8 generic_bignum 0) (\<lambda>b0.
     Inr ((push_bit 16 (ucast b1) OR ucast b0) AND 0xffffffff)))"

definition generic_bignum_to_int64 :: "littlenum list \<Rightarrow> 64 word result" where
  "generic_bignum_to_int64 generic_bignum =
     rbind (rd8 generic_bignum 3) (\<lambda>b3. rbind (rd8 generic_bignum 2) (\<lambda>b2.
     rbind (rd8 generic_bignum 1) (\<lambda>b1. rbind (rd8 generic_bignum 0) (\<lambda>b0.
     Inr (push_bit 16 (push_bit 16 (push_bit 16 (ucast b3) OR ucast b2) OR ucast b1) OR ucast b0)))))"

text \<open>The digits from the input on: their number in 64 bits, how many there are, and the character behind them.\<close>

fun digits_loop :: "nat \<Rightarrow> string \<Rightarrow> 64 word \<Rightarrow> nat \<Rightarrow> (64 word \<times> nat \<times> char) result" where
  "digits_loop radix [] number n = Inl Out_of_bounds"
| "digits_loop radix (c # cs) number n =
     (if hex_value c < radix then digits_loop radix cs (number * of_nat radix + of_nat (hex_value c)) (n + 1)
      else Inr (number, n, c))"

definition too_many_digits :: "nat \<Rightarrow> nat" where
  "too_many_digits radix =
     (if radix = 2 then 64 + 1 else if radix = 8 then (64 + 2) div 3 + 1 else if radix = 16 then (64 + 3) div 4 + 1 else (64 + 11) div 4)"

subsection \<open>Large numbers\<close>

text \<open>One digit is multiplied into the littlenums up to \<open>leader\<close>; the carry is what is left.\<close>

fun mul_loop :: "int \<Rightarrow> int \<Rightarrow> littlenum list \<Rightarrow> littlenum list \<times> int" where
  "mul_loop radix carry [] = ([], carry)"
| "mul_loop radix carry (w # ws) =
     (let work = carry + radix * uint w; (ws, carry) = mul_loop radix (drop_bit 16 work) ws in
      (word_of_int work # ws, carry))"

fun bignum_loop :: "nat \<Rightarrow> string \<Rightarrow> littlenum list \<Rightarrow> nat \<Rightarrow> (littlenum list \<times> nat \<times> char) result" where
  "bignum_loop radix [] bignum leader = Inl Out_of_bounds"
| "bignum_loop radix (c # cs) bignum leader =
     (if hex_value c < radix then
        let (ws, carry) = mul_loop (int radix) (int (hex_value c)) (take (leader + 1) bignum);
            bignum = ws @ drop (leader + 1) bignum in
        if carry \<noteq> 0 \<and> leader < SIZE_OF_LARGE_NUMBER - 1 then
          rbind (wr8 bignum (leader + 1) (word_of_int carry)) (\<lambda>bignum. bignum_loop radix cs bignum (leader + 1))
        else bignum_loop radix cs bignum leader
      else Inr (bignum, leader, c))"

text \<open>The first four littlenums are cleared before the digits are read.\<close>

definition clear_bignum :: "littlenum list \<Rightarrow> littlenum list" where
  "clear_bignum bignum = replicate 4 0 @ drop 4 bignum"

text \<open>
  Words separated by underscores, each of at most eight hexadecimal digits. The value is the
  number of littlenums, the array, the characters read and the character behind.
\<close>

definition shift_bignum :: "nat \<Rightarrow> littlenum list \<Rightarrow> littlenum list" where
  "shift_bignum num_little_digits bignum =
     map (\<lambda>i. if 2 \<le> i \<and> i \<le> min (num_little_digits + 1) (SIZE_OF_LARGE_NUMBER - 1) then bignum ! (i - 2) else bignum ! i)
       [0..<length bignum]"

function underscore_loop :: "nat \<Rightarrow> nat \<Rightarrow> littlenum list \<Rightarrow> (nat \<times> littlenum list \<times> nat \<times> char) gas" where
  "underscore_loop p num_little_digits bignum s =
     (if p \<ge> length (gs_buf s) then Inl Out_of_bounds
      else
        rbind (digits_loop 16 (drop p (gs_buf s)) 0 0) (\<lambda>(number, ndigit, c).
        let s = (if ndigit > 8 then
                   s\<lparr>gs_msgs := gs_msgs s @ [As_bad ''a bignum with underscores may not have more than 8 hex digits in any word'']\<rparr>
                 else s);
            bignum = (shift_bignum num_little_digits bignum)[0 := ucast (number AND 0xffffffff), 1 := ucast (drop_bit 16 number)];
            p = p + ndigit + 1 in
        if c = CHR ''_'' then underscore_loop p (num_little_digits + 2) bignum s
        else Inr ((num_little_digits + 2, bignum, p, c), s)))"
  by pat_completeness auto
termination
  by (relation "measure (\<lambda>(p, n, b, s). length (gs_buf s) - p)") auto

declare underscore_loop.simps [simp del]

fun trim_zeros :: "littlenum list \<Rightarrow> nat \<Rightarrow> nat" where
  "trim_zeros bignum 0 = 0"
| "trim_zeros bignum (Suc n) = (if bignum ! n = 0 \<and> Suc n > 1 then trim_zeros bignum n else Suc n)"

text \<open>A large number that fits after all is made small again: whether it is, and the number.\<close>

definition small_again :: "littlenum list \<Rightarrow> nat \<Rightarrow> (bool \<times> 64 word) result" where
  "small_again bignum n =
     (if n \<le> 2 then rbind (generic_bignum_to_int32 bignum) (\<lambda>v. Inr (True, v))
      else if n \<le> 4 then rbind (generic_bignum_to_int64 bignum) (\<lambda>v. Inr (True, v))
      else Inr (False, of_nat n))"

subsection \<open>Constants\<close>

text \<open>Letters behind a number that are skipped.\<close>

definition skip_suffix :: "nat \<Rightarrow> char \<Rightarrow> (nat \<times> char) gas" where
  "skip_suffix p c =
     gbind (if c = CHR ''U'' \<or> c = CHR ''u'' then gbind (peek p) (\<lambda>c. gret (p + 1, c)) else gret (p, c)) (\<lambda>(p, c).
     if c = CHR ''L'' \<or> c = CHR ''l'' then
       gbind (scan (\<lambda>c. c \<noteq> CHR ''L'' \<and> c \<noteq> CHR ''l'') p) (\<lambda>q. gbind (peek q) (\<lambda>c. gret (q + 1, c)))
     else gret (p, c))"

definition set_ilp :: "nat \<Rightarrow> unit gas" where
  "set_ilp p = (\<lambda>s. Inr ((), s\<lparr>gs_ilp := p\<rparr>))"

definition integer_constant ::
  "(char \<Rightarrow> 64 word \<Rightarrow> expressionS \<Rightarrow> expressionS gas) \<Rightarrow> nat \<Rightarrow> expressionS \<Rightarrow> littlenum list \<Rightarrow> (expressionS \<times> littlenum list) gas" where
  "integer_constant local_label radix ex bignum = (\<lambda>s.
     let start = gs_ilp s in
     gbind (peek start) (\<lambda>c.
     if is_end_of_line c then gret (ex\<lparr>X_op := O_absent\<rparr>, bignum)
     else
       gbind (glift (digits_loop radix (drop start (gs_buf s)) 0 0)) (\<lambda>(number, n, c).
       gbind
         (if radix = 16 \<and> c = CHR ''_'' then
            gbind (underscore_loop start 0 bignum) (\<lambda>(nl, bignum, p, c).
            let nl = min nl (SIZE_OF_LARGE_NUMBER - 1) in
            gbind (gas_assert (nl \<ge> 4)) (\<lambda>_.
            gbind (if nl \<noteq> 8 then as_bad ''a bignum with underscores must have exactly 4 words'' else gret ()) (\<lambda>_.
            gbind (glift (small_again bignum (trim_zeros bignum nl))) (\<lambda>(small, number). gret (small, number, bignum, p, c)))))
          else if \<not> n < too_many_digits radix then
            gbind (glift (bignum_loop radix (drop start (gs_buf s)) (clear_bignum bignum) 0)) (\<lambda>(bignum, leader, c).
            gbind (glift (small_again bignum (leader + 1))) (\<lambda>(small, number). gret (small, number, bignum, start + n + 1, c)))
          else gret (True, number, bignum, start + n + 1, c))
         (\<lambda>(small, number, bignum, p, c).
       gbind (skip_suffix p c) (\<lambda>(p, c).
       if small \<and> (c = CHR ''b'' \<or> c = CHR ''f'' \<or> c = CHR ''$'') then
         gbind (set_ilp p) (\<lambda>_. gbind (local_label c number ex) (\<lambda>ex. gret (ex, bignum)))
       else
         gbind (set_ilp (p - 1)) (\<lambda>_.
         gret (ex\<lparr>X_op := (if small then O_constant else O_big), X_add_number := number\<rparr>, bignum)))))) s)"

section \<open>The value of a number\<close>

definition numeral_value :: "nat \<Rightarrow> string \<Rightarrow> nat" where
  "numeral_value radix ds = foldl (\<lambda>v c. v * radix + hex_value c) 0 ds"

definition bignum_value :: "littlenum list \<Rightarrow> int" where
  "bignum_value ws = horner_sum uint 65536 ws"

lemma bignum_value_simps [simp]:
  "bignum_value [] = 0" "bignum_value (w # ws) = uint w + 65536 * bignum_value ws"
  by (simp_all add: bignum_value_def)

lemma bignum_value_append: "bignum_value (xs @ ys) = bignum_value xs + 65536 ^ length xs * bignum_value ys"
  by (induction xs) (simp_all add: algebra_simps)

lemma bignum_value_bounds: "0 \<le> bignum_value ws \<and> bignum_value ws < 65536 ^ length ws"
proof (induction ws)
  case (Cons w ws)
  have "uint w < 65536" using uint_bounded [of w] by simp
  with Cons show ?case by simp
qed simp

lemma bignum_value_zeros: "(\<forall>w \<in> set ws. w = 0) \<Longrightarrow> bignum_value ws = 0"
  by (induction ws) simp_all

lemma digits_loop_value:
  "\<forall>d \<in> set ds. hex_value d < radix \<Longrightarrow> \<not> hex_value c < radix \<Longrightarrow>
   digits_loop radix (ds @ c # rest) (of_nat v) n = Inr (of_nat (foldl (\<lambda>v c. v * radix + hex_value c) v ds), n + length ds, c)"
proof (induction ds arbitrary: v n)
  case (Cons d ds)
  have "(of_nat v :: 64 word) * of_nat radix + of_nat (hex_value d) = of_nat (v * radix + hex_value d)" by simp
  with Cons show ?case by (simp del: of_nat_add of_nat_mult)
qed simp

lemma foldl_digits_less:
  "\<forall>d \<in> set ds. hex_value d < radix \<Longrightarrow> foldl (\<lambda>v c. v * radix + hex_value c) v ds < (v + 1) * radix ^ length ds"
proof (induction ds arbitrary: v)
  case (Cons d ds)
  have "v * radix + hex_value d + 1 \<le> (v + 1) * radix" using Cons.prems by (simp add: Suc_le_eq)
  then have le: "(v * radix + hex_value d + 1) * radix ^ length ds \<le> (v + 1) * radix * radix ^ length ds" by (rule mult_right_mono) simp
  have "foldl (\<lambda>v c. v * radix + hex_value c) (v * radix + hex_value d) ds < (v * radix + hex_value d + 1) * radix ^ length ds"
    by (rule Cons.IH) (use Cons.prems in simp)
  from less_le_trans [OF this le] show ?case by (simp only: foldl.simps length_Cons power_Suc mult.assoc)
qed simp

lemma numeral_value_less: "\<forall>d \<in> set ds. hex_value d < radix \<Longrightarrow> numeral_value radix ds < radix ^ length ds"
  using foldl_digits_less [of ds radix 0] by (simp add: numeral_value_def)

lemma foldl_digits_mono: "1 \<le> radix \<Longrightarrow> v \<le> foldl (\<lambda>v c. v * radix + hex_value c) v ds"
proof (induction ds arbitrary: v)
  case (Cons d ds)
  have "v * 1 \<le> v * radix" using Cons.prems by (rule mult_le_mono2)
  then have "v \<le> v * radix + hex_value d" by (metis mult.right_neutral trans_le_add1)
  also have "\<dots> \<le> foldl (\<lambda>v c. v * radix + hex_value c) (v * radix + hex_value d) ds" by (rule Cons.IH [OF Cons.prems])
  finally show ?case by simp
qed simp

subsection \<open>Large numbers\<close>

lemma mul_loop_value:
  "0 \<le> carry \<Longrightarrow> carry < radix \<Longrightarrow> mul_loop radix carry ws = (ws', carry') \<Longrightarrow>
   length ws' = length ws \<and> bignum_value ws' + 65536 ^ length ws * carry' = carry + radix * bignum_value ws \<and> 0 \<le> carry' \<and> carry' < radix"
proof (induction ws arbitrary: carry ws' carry')
  case (Cons w ws)
  define work where "work = carry + radix * uint w"
  obtain us c where us: "mul_loop radix (drop_bit 16 work) ws = (us, c)" by force
  have eq: "ws' = word_of_int work # us" "carry' = c" using Cons.prems(3) us by (simp_all add: work_def Let_def)
  have w: "0 \<le> uint w" "uint w \<le> 65535" using uint_bounded [of w] by simp_all
  have b: "0 \<le> work" "work < radix * 65536"
  proof -
    show "0 \<le> work" using Cons.prems(1,2) w by (simp add: work_def)
    have "radix * uint w \<le> radix * 65535" using w(2) Cons.prems(1,2) by (intro mult_left_mono) simp_all
    then show "work < radix * 65536" using Cons.prems(2) by (simp add: work_def)
  qed
  have d: "drop_bit 16 work = work div 65536" by (simp add: drop_bit_eq_div)
  have hi: "0 \<le> drop_bit 16 work" "drop_bit 16 work < radix"
    using b pos_mod_sign [of 65536 work] div_mult_mod_eq [of work 65536] by (simp_all add: d pos_imp_zdiv_nonneg_iff)
  note IH = Cons.IH [OF hi us]
  have low: "uint (word_of_int work :: 16 word) = work mod 65536" by (simp add: uint_word_of_int)
  have "bignum_value ws' + 65536 ^ length (w # ws) * c = work mod 65536 + 65536 * (bignum_value us + 65536 ^ length ws * c)"
    by (simp add: eq(1) low algebra_simps)
  also have "\<dots> = work mod 65536 + 65536 * (work div 65536 + radix * bignum_value ws)" using IH by (simp add: d)
  also have "\<dots> = work + 65536 * radix * bignum_value ws" by (simp add: algebra_simps)
  also have "\<dots> = carry + radix * bignum_value (w # ws)" by (simp add: work_def algebra_simps)
  finally show ?case using IH eq by simp
qed simp

text \<open>The littlenums up to \<open>leader\<close> hold a number, and no fewer do; the first four are clear behind it.\<close>

definition holds :: "littlenum list \<Rightarrow> nat \<Rightarrow> nat \<Rightarrow> bool" where
  "holds bignum leader v \<longleftrightarrow> length bignum = 26 \<and> leader < SIZE_OF_LARGE_NUMBER \<and> bignum_value (take (leader + 1) bignum) = int v \<and>
     (leader = 0 \<or> 65536 ^ leader \<le> v) \<and> (\<forall>i. leader < i \<and> i < 4 \<longrightarrow> bignum ! i = 0)"

lemma bignum_step:
  assumes h: "holds bignum leader v" and d: "d < radix" "radix \<le> 16" and fits: "v * radix + d < 65536 ^ SIZE_OF_LARGE_NUMBER"
    and m: "mul_loop (int radix) (int d) (take (leader + 1) bignum) = (ws, carry)"
  shows "carry = 0 \<Longrightarrow> holds (ws @ drop (leader + 1) bignum) leader (v * radix + d)"
    "carry \<noteq> 0 \<Longrightarrow> leader < SIZE_OF_LARGE_NUMBER - 1 \<and>
       holds ((ws @ drop (leader + 1) bignum)[leader + 1 := word_of_int carry]) (leader + 1) (v * radix + d)"
proof -
  have len: "length bignum = 26" "leader < 20" using h by (simp_all add: holds_def SIZE_OF_LARGE_NUMBER_def)
  have M: "length ws = leader + 1" "bignum_value ws + 65536 ^ (leader + 1) * carry = int (v * radix + d)" "0 \<le> carry" "carry < int radix"
    using mul_loop_value [OF _ _ m] d(1) h len by (simp_all add: holds_def mult.commute)
  have mono: "v \<le> v * radix + d" using d(1) by (cases radix) simp_all
  have lead: "leader = 0 \<or> 65536 ^ leader \<le> v * radix + d" using h mono by (auto simp: holds_def)
  have clear: "(ws @ drop (leader + 1) bignum) ! i = 0" if "leader < i" "i < 4" for i
    using h that M(1) len by (simp add: holds_def nth_append)
  show "holds (ws @ drop (leader + 1) bignum) leader (v * radix + d)" if "carry = 0"
    using that M(1,2) len lead clear by (simp add: holds_def SIZE_OF_LARGE_NUMBER_def)
  assume c: "carry \<noteq> 0"
  have big: "65536 ^ (leader + 1) \<le> v * radix + d"
  proof -
    have "(65536 :: int) ^ (leader + 1) * 1 \<le> 65536 ^ (leader + 1) * carry" using c M(3) by (intro mult_left_mono) simp_all
    then have "(65536 :: int) ^ (leader + 1) \<le> int (v * radix + d)" using M(2) bignum_value_bounds [of ws] by linarith
    then show ?thesis by (metis of_nat_le_iff of_nat_numeral of_nat_power)
  qed
  have l: "leader < 19"
  proof (rule ccontr)
    assume "\<not> leader < 19"
    with len(2) have "leader + 1 = 20" by simp
    with big fits show False by (simp add: SIZE_OF_LARGE_NUMBER_def)
  qed
  have "uint (word_of_int carry :: 16 word) = carry" using M(3,4) d(2) by (simp add: uint_word_of_int)
  moreover have "take (leader + 2) ((ws @ drop (leader + 1) bignum)[leader + 1 := word_of_int carry]) = ws @ [word_of_int carry]"
  proof -
    let ?b = "(ws @ drop (leader + 1) bignum)[leader + 1 := word_of_int carry]"
    have "leader + 1 < length ?b" using M(1) len l by simp
    then have "take (Suc (leader + 1)) ?b = take (leader + 1) ?b @ [?b ! (leader + 1)]" by (rule take_Suc_conv_app_nth)
    moreover have "take (leader + 1) ?b = ws" using M(1) by (simp add: take_update_cancel)
    moreover have "?b ! (leader + 1) = word_of_int carry" using \<open>leader + 1 < length ?b\<close> by simp
    ultimately show ?thesis by simp
  qed
  ultimately have "bignum_value (take (leader + 2) ((ws @ drop (leader + 1) bignum)[leader + 1 := word_of_int carry])) = int (v * radix + d)"
    using M(1,2) by (simp add: bignum_value_append)
  moreover have "((ws @ drop (leader + 1) bignum)[leader + 1 := word_of_int carry]) ! i = 0" if "leader + 1 < i" "i < 4" for i
    using clear [of i] that by simp
  ultimately show "leader < SIZE_OF_LARGE_NUMBER - 1 \<and>
       holds ((ws @ drop (leader + 1) bignum)[leader + 1 := word_of_int carry]) (leader + 1) (v * radix + d)"
    using big l len M(1) by (simp add: holds_def SIZE_OF_LARGE_NUMBER_def)
qed

lemma bignum_loop_value:
  "\<forall>d \<in> set ds. hex_value d < radix \<Longrightarrow> \<not> hex_value c < radix \<Longrightarrow> 1 \<le> radix \<Longrightarrow> radix \<le> 16 \<Longrightarrow> holds bignum leader v \<Longrightarrow>
   foldl (\<lambda>v c. v * radix + hex_value c) v ds < 65536 ^ SIZE_OF_LARGE_NUMBER \<Longrightarrow>
   \<exists>bignum' leader'. bignum_loop radix (ds @ c # rest) bignum leader = Inr (bignum', leader', c) \<and>
     holds bignum' leader' (foldl (\<lambda>v c. v * radix + hex_value c) v ds)"
proof (induction ds arbitrary: bignum leader v)
  case Nil
  then show ?case by simp
next
  case (Cons d ds)
  obtain ws carry where m: "mul_loop (int radix) (int (hex_value d)) (take (leader + 1) bignum) = (ws, carry)" by force
  have d: "hex_value d < radix" and ds: "\<forall>d \<in> set ds. hex_value d < radix" using Cons.prems(1) by simp_all
  let ?v = "v * radix + hex_value d"
  have fits: "?v < 65536 ^ SIZE_OF_LARGE_NUMBER"
    using foldl_digits_mono [OF Cons.prems(3), of ?v ds] Cons.prems(6) by simp
  note step = bignum_step [OF Cons.prems(5) d Cons.prems(4) fits m]
  have last: "foldl (\<lambda>v c. v * radix + hex_value c) ?v ds < 65536 ^ SIZE_OF_LARGE_NUMBER" using Cons.prems(6) by simp
  let ?b = "ws @ drop (leader + 1) bignum"
  show ?case
  proof (cases "carry = 0")
    case True
    from Cons.IH [OF ds Cons.prems(2-4) step(1) [OF True] last] show ?thesis using d m True by simp
  next
    case False
    have "leader + 1 < length ?b" using step(2) [OF False] by (simp add: holds_def SIZE_OF_LARGE_NUMBER_def)
    moreover from step(2) [OF False] Cons.IH [OF ds Cons.prems(2-4) _ last] obtain bignum' leader' where
      "bignum_loop radix (ds @ c # rest) (?b[leader + 1 := word_of_int carry]) (leader + 1) = Inr (bignum', leader', c)"
      "holds bignum' leader' (foldl (\<lambda>v c. v * radix + hex_value c) ?v ds)" by blast
    ultimately show ?thesis using d m False step(2) [OF False] by (simp add: wr8_def)
  qed
qed

lemma push_or: "push_bit 16 (x :: 64 word) OR ucast (y :: 16 word) = x * 65536 + ucast y"
proof -
  have "push_bit 16 x + ucast y = push_bit 16 x OR (ucast y :: 64 word)"
    by (rule disjunctive_add) (auto simp: bit_simps dest: bit_imp_le_length)
  then show ?thesis by (simp add: push_bit_eq_mult)
qed

lemma bignum_to_int64_value:
  assumes "length bignum = 26"
  shows "generic_bignum_to_int64 bignum = Inr (of_int (bignum_value (take 4 bignum)))"
proof -
  have "take 4 bignum = [bignum ! 0, bignum ! 1, bignum ! 2, bignum ! 3]"
    using assms by (simp add: take_Suc_conv_app_nth eval_nat_numeral)
  then show ?thesis using assms by (simp add: generic_bignum_to_int64_def push_or algebra_simps)
qed

lemma holds_four:
  assumes "holds bignum leader v" "leader < 4"
  shows "bignum_value (take 4 bignum) = int v"
proof -
  have "take 4 bignum = take (leader + 1) bignum @ drop (leader + 1) (take 4 bignum)"
    using assms(2) by (metis append_take_drop_id min.absorb1 take_take Suc_eq_plus1 Suc_leI)
  then have "bignum_value (take 4 bignum) = bignum_value (take (leader + 1) bignum @ drop (leader + 1) (take 4 bignum))" by (rule arg_cong)
  moreover have "bignum_value (drop (leader + 1) (take 4 bignum)) = 0"
  proof (rule bignum_value_zeros, rule ballI)
    fix w assume "w \<in> set (drop (leader + 1) (take 4 bignum))"
    then obtain i where "i < 4 - (leader + 1)" "w = bignum ! (leader + 1 + i)"
      using assms(1) by (auto simp: in_set_conv_nth holds_def)
    with assms(1) show "w = 0" by (auto simp: holds_def)
  qed
  ultimately show ?thesis using assms(1) by (simp add: holds_def bignum_value_append)
qed

lemma bignum_to_int32_value:
  assumes "length bignum = 26" "bignum ! 2 = 0" "bignum ! 3 = 0"
  shows "generic_bignum_to_int32 bignum = generic_bignum_to_int64 bignum"
proof -
  have "(push_bit 16 (ucast b1) OR ucast b0) AND 0xffffffff = (push_bit 16 (ucast b1) OR ucast b0 :: 64 word)" for b1 b0 :: "16 word"
    by (simp add: word_bits)
  then show ?thesis using assms by (simp add: generic_bignum_to_int32_def generic_bignum_to_int64_def)
qed

lemma small_again_value:
  assumes "holds bignum leader v"
  shows "small_again bignum (leader + 1) = Inr (leader < 4, if leader < 4 then of_nat v else of_nat (leader + 1))"
proof (cases "leader < 4")
  case True
  have "length bignum = 26" using assms by (simp add: holds_def)
  then have "generic_bignum_to_int64 bignum = Inr (of_nat v)" by (simp add: bignum_to_int64_value holds_four [OF assms True])
  moreover have "generic_bignum_to_int32 bignum = generic_bignum_to_int64 bignum" if "leader < 2"
    using that assms by (intro bignum_to_int32_value) (simp_all add: holds_def)
  ultimately show ?thesis using True by (simp add: small_again_def)
qed (simp add: small_again_def)

lemma holds_leader: "holds bignum leader v \<Longrightarrow> leader < 4 \<longleftrightarrow> v < 2 ^ 64"
proof -
  assume h: "holds bignum leader v"
  show ?thesis
  proof
    assume "leader < 4"
    then have "int v < 65536 ^ 4" using holds_four [OF h] bignum_value_bounds [of "take 4 bignum"] h by (simp add: holds_def)
    then show "v < 2 ^ 64" by simp
  next
    assume v: "v < 2 ^ 64"
    show "leader < 4"
    proof (rule ccontr)
      assume "\<not> leader < 4"
      then have "65536 ^ leader \<le> v" using h by (auto simp: holds_def)
      moreover have "(65536 :: nat) ^ 4 \<le> 65536 ^ leader" using \<open>\<not> leader < 4\<close> by (intro power_increasing) simp_all
      ultimately show False using v by simp
    qed
  qed
qed

text \<open>
  Up to the limit on the digits a number fits into 64 bits, except that 22 octal digits are 66 bits.
\<close>

lemma few_digits:
  assumes "radix \<in> {2, 8, 10, 16}" "\<forall>d \<in> set ds. hex_value d < radix" "length ds < too_many_digits radix"
  shows "numeral_value radix ds < 2 ^ 64 \<or> radix = 8 \<and> length ds = 22"
proof (cases "radix = 8 \<and> length ds = 22")
  case False
  let ?k = "if radix = 2 then 64 else if radix = 8 then 21 else if radix = 16 then 16 else 17 :: nat"
  have "length ds \<le> ?k" using assms(1,3) False by (auto simp: too_many_digits_def)
  then have "radix ^ length ds \<le> radix ^ ?k" using assms(1) by (intro power_increasing) auto
  also have "\<dots> \<le> 2 ^ 64" using assms(1) by auto
  finally show ?thesis using numeral_value_less [OF assms(2)] by simp
qed simp

lemma many_digits: "radix \<in> {2, 8, 10, 16} \<Longrightarrow> \<not> length ds < too_many_digits radix \<Longrightarrow> \<not> (radix = 8 \<and> length ds = 22)"
  by (auto simp: too_many_digits_def)

section \<open>Constants\<close>

text \<open>A character behind a number that belongs neither to it nor to a label.\<close>

definition ends_number :: "nat \<Rightarrow> char \<Rightarrow> bool" where
  "ends_number radix c \<longleftrightarrow> \<not> hex_value c < radix \<and> c \<notin> set ''_UuLlbf$''"

lemma digit_not_eol: "hex_value c < radix \<Longrightarrow> radix \<le> 16 \<Longrightarrow> \<not> is_end_of_line c"
  by (auto simp: is_end_of_line_def NUL_def hex_value_def hex_bad_def)

lemma skip_suffix_none: "ends_number radix c \<Longrightarrow> skip_suffix p c s = Inr ((p, c), s)"
  by (simp add: skip_suffix_def ends_number_def gbind_def gret_def)

lemma peek_drop:
  assumes "drop p (gs_buf s) = d # xs"
  shows "peek p s = Inr (d, s)"
proof -
  have "p < length (gs_buf s)" using assms by (metis drop_eq_Nil2 linorder_not_less list.discI)
  then show ?thesis using nth_via_drop [OF assms] by (simp add: peek_def)
qed

lemma clear_holds:
  assumes "length bignum = 26"
  shows "holds (clear_bignum bignum) 0 0"
proof -
  have "clear_bignum bignum ! i = 0" if "i < 4" for i using that by (simp add: clear_bignum_def nth_append)
  then show ?thesis using assms by (simp add: holds_def clear_bignum_def SIZE_OF_LARGE_NUMBER_def)
qed

text \<open>
  C33: the number in an expression. Digits of radix 2, 8, 10 or 16 are read as the number they denote: a
  constant when it fits into 64 bits, otherwise, up to 320 bits, a large number in \<open>generic_bignum\<close> with as many littlenums as it
  needs; the input stands behind the last digit. The one exception is an octal number of 22 digits, which is
  never treated as large: it is taken modulo \<open>2 ^ 64\<close>.
\<close>

theorem integer_constant_value:
  assumes buf: "drop (gs_ilp s) (gs_buf s) = ds @ c # rest" and radix: "radix \<in> {2, 8, 10, 16}"
    and ds: "ds \<noteq> []" "\<forall>d \<in> set ds. hex_value d < radix" and c: "ends_number radix c"
    and len: "length bignum = 26" and fits: "numeral_value radix ds < 2 ^ 320"
  shows "\<exists>bignum' k. integer_constant local_label radix ex bignum s =
      Inr ((ex\<lparr>X_op := (if k = 0 then O_constant else O_big),
               X_add_number := (if k = 0 then of_nat (numeral_value radix ds) else of_nat k)\<rparr>, bignum'),
        s\<lparr>gs_ilp := gs_ilp s + length ds\<rparr>) \<and>
    (k = 0 \<longleftrightarrow> numeral_value radix ds < 2 ^ 64 \<or> radix = 8 \<and> length ds = 22) \<and>
    (0 < k \<longrightarrow> bignum_value (take k bignum') = int (numeral_value radix ds) \<and> 65536 ^ (k - 1) \<le> numeral_value radix ds)"
proof -
  let ?v = "numeral_value radix ds"
  have r: "1 \<le> radix" "radix \<le> 16" and nc: "\<not> hex_value c < radix" "c \<noteq> CHR ''_''" using radix c by (auto simp: ends_number_def)
  obtain d ds' where d: "ds = d # ds'" using ds(1) by (cases ds) auto
  have first: "peek (gs_ilp s) s = Inr (d, s)" "\<not> is_end_of_line d"
    using peek_drop [of "gs_ilp s" s d "ds' @ c # rest"] buf d ds(2) digit_not_eol [OF _ r(2)] by simp_all
  have digits: "digits_loop radix (drop (gs_ilp s) (gs_buf s)) 0 0 = Inr (of_nat ?v, length ds, c)"
    using digits_loop_value [OF ds(2) nc(1), of rest 0 0] by (simp add: buf numeral_value_def)
  note run = integer_constant_def gbind_def glift_def gret_def set_ilp_def first digits Let_def nc(2) skip_suffix_none [OF c]
  have nolabel: "c \<noteq> CHR ''b''" "c \<noteq> CHR ''f''" "c \<noteq> CHR ''$''" using c by (auto simp: ends_number_def)
  show ?thesis
  proof (cases "length ds < too_many_digits radix")
    case True
    have "integer_constant local_label radix ex bignum s = Inr ((ex\<lparr>X_op := O_constant, X_add_number := of_nat ?v\<rparr>, bignum), s\<lparr>gs_ilp := gs_ilp s + length ds\<rparr>)"
      using True nolabel by (simp add: run)
    with few_digits [OF radix ds(2) True] show ?thesis by (intro exI [of _ bignum] exI [of _ 0]) simp
  next
    case False
    have "foldl (\<lambda>v c. v * radix + hex_value c) 0 ds < 65536 ^ SIZE_OF_LARGE_NUMBER"
      using fits by (simp add: numeral_value_def SIZE_OF_LARGE_NUMBER_def)
    from bignum_loop_value [OF ds(2) nc(1) r clear_holds [OF len] this, of rest] obtain bignum' leader where
      B: "bignum_loop radix (ds @ c # rest) (clear_bignum bignum) 0 = Inr (bignum', leader, c)" "holds bignum' leader ?v"
      unfolding numeral_value_def by blast
    let ?k = "if leader < 4 then 0 else leader + 1"
    have "integer_constant local_label radix ex bignum s =
      Inr ((ex\<lparr>X_op := (if ?k = 0 then O_constant else O_big), X_add_number := (if ?k = 0 then of_nat ?v else of_nat ?k)\<rparr>, bignum'),
        s\<lparr>gs_ilp := gs_ilp s + length ds\<rparr>)"
      using False nolabel small_again_value [OF B(2)] B(1) [folded buf] by (simp add: run)
    moreover have "?k = 0 \<longleftrightarrow> ?v < 2 ^ 64 \<or> radix = 8 \<and> length ds = 22" using holds_leader [OF B(2)] many_digits [OF radix False] by auto
    moreover have "0 < ?k \<longrightarrow> bignum_value (take ?k bignum') = int ?v \<and> 65536 ^ (?k - 1) \<le> ?v" using B(2) by (auto simp: holds_def)
    ultimately show ?thesis by (intro exI [of _ bignum'] exI [of _ ?k] conjI)
  qed
qed

text \<open>The number \<open>2 ^ 64\<close> in hexadecimal digits is a large one.\<close>

theorem integer_constant_value_witness:
  "\<exists>bignum' k. 0 < k \<and> bignum_value (take k bignum') = 2 ^ 64 \<and>
    integer_constant (\<lambda>c n. gret) 16 no_expr (replicate 26 0) (start_state (''10000000000000000'' @ [NUL])) =
      Inr ((no_expr\<lparr>X_op := O_big, X_add_number := of_nat k\<rparr>, bignum'), (start_state (''10000000000000000'' @ [NUL]))\<lparr>gs_ilp := 17\<rparr>)"
proof -
  have v: "numeral_value 16 ''10000000000000000'' = 2 ^ 64" by (simp add: numeral_value_def hex_value_def)
  have ds: "\<forall>d \<in> set ''10000000000000000''. hex_value d < 16" "ends_number 16 NUL" by (simp_all add: hex_value_def hex_bad_def ends_number_def NUL_def)
  have b: "drop (gs_ilp (start_state (''10000000000000000'' @ [NUL]))) (gs_buf (start_state (''10000000000000000'' @ [NUL]))) =
      ''10000000000000000'' @ NUL # []" by (simp add: start_state_def)
  from integer_constant_value [OF b _ _ ds, of "replicate 26 0" "\<lambda>c n. gret" no_expr] obtain bignum' k where
    R: "integer_constant (\<lambda>c n. gret) 16 no_expr (replicate 26 0) (start_state (''10000000000000000'' @ [NUL])) =
      Inr ((no_expr\<lparr>X_op := (if k = 0 then O_constant else O_big),
               X_add_number := (if k = 0 then of_nat (2 ^ 64) else of_nat k)\<rparr>, bignum'),
        (start_state (''10000000000000000'' @ [NUL]))\<lparr>gs_ilp := gs_ilp (start_state (''10000000000000000'' @ [NUL])) + 17\<rparr>)"
      "k \<noteq> 0" "bignum_value (take k bignum') = 2 ^ 64" by (auto simp: v)
  then show ?thesis by (intro exI [of _ bignum'] exI [of _ k]) (simp add: start_state_def)
qed

end
