(* ===== verification/Spec2Isabelle.thy ===== *)
theory Spec2Isabelle
  imports Listing Tc_Macro Gas_Fixups Bfd_Arch Strtab_Life Gas_Number
begin

text \<open>
  Verification of the Fusion-Core port of the GNU binary utilities.

  The repository is a copy of the GNU binutils to which a target is added: the Fusion core, a 32-bit
  processor with big-endian words. Its paths below are under \<^verbatim>\<open>src/binutils\<close>. Three programs
  work together. The assembler (\<^verbatim>\<open>gas\<close>) reads a line, parses its operands, appends an instruction word
  to the current fragment and records a fixup for an operand whose value is not known yet; when the file is written it
  applies the fixups it can and turns the others into relocation entries. The linker goes through the
  BFD library (\<^verbatim>\<open>bfd\<close>) and applies the relocation entries to the contents of sections. The disassembler
  (\<^verbatim>\<open>opcodes\<close>) prints words as text. All three share the macros of the instruction set
  (\<^verbatim>\<open>include/opcode\<close>) and its tables.

  \<^bold>\<open>Conventions.\<close> C integers are words of their width on an LP64 host, so that all wrap-around is that of C. A
  routine that can fault returns \<open>c_fault + 'a\<close>: reading outside of an object, a null pointer, \<open>abort\<close>,
  \<open>as_fatal\<close>, an undefined shift, a division by zero, the use of an object that was freed and a loop that does not end are values. Objects in memory are lists with
  positions as pointers into them; objects that are shared by pointer are numbered. The routines of the
  assembler are state transformers over \<open>gas_state\<close>. Each definition is named after the routine, macro or
  table it translates; loops and parts of long routines have names of their own.

  \<^bold>\<open>Theories.\<close>
  \<^item> \<open>Prelude\<close>: C types, faults, \<open>rbind\<close>, loads and stores with bounds, \<open>splice\<close>, and the bitwise decision of
    word equations (\<open>word_bits\<close>). \<open>C_Printf\<close>: the conversions of \<open>printf\<close> that are used.
  \<^item> \<open>Bfd_Bytes\<close>: \<^verbatim>\<open>bfd/libbfd.c\<close> (get and put routines, \<open>bfd_get_bits\<close>, \<open>bfd_put_bits\<close>, \<open>bfd_log2\<close>, the LEB128
    readers) and the LEB128 writers of \<^verbatim>\<open>gas/read.c\<close>. The locale \<open>byte_access\<close> is the contract of a pair of accessors; it is
    interpreted for every width and byte order, here and for the accessors of a target in \<open>Bfd_Reloc\<close>.
  \<^item> \<open>Fusion_ISA\<close>: \<^verbatim>\<open>include/opcode/fusion.h\<close> and \<^verbatim>\<open>fusion-opc.h\<close>. The abstract syntax \<open>insn\<close> with \<open>encode\<close> and
    \<open>decode\<close> is stated over the macros; the locale \<open>bitfield\<close> is interpreted for each of the 18 fields.
    \<open>Opcode_Table\<close>: the tables of \<^verbatim>\<open>opcodes/fusion-opc.c\<close>. \<open>Fusion_Dis\<close>: \<^verbatim>\<open>opcodes/fusion-dis.c\<close>.
  \<^item> \<open>Bfd_Reloc\<close>: the overflow checks and the generic relocation routines of \<^verbatim>\<open>bfd/reloc.c\<close>. \<open>Elf_Fusion\<close>:
    \<^verbatim>\<open>bfd/elf32-fusion.c\<close>, with the howto table, the lookups and \<open>fusion_elf_relocate_section\<close> with all symbols it
    distinguishes. \<open>Bfd_Arch\<close>: \<^verbatim>\<open>bfd/cpu-fusion.c\<close> and \<^verbatim>\<open>bfd/archures.c\<close>.
  \<^item> \<open>Bfd_Hash\<close>: the hash tables of \<^verbatim>\<open>bfd/hash.c\<close>, growth included. \<open>Elf_Strtab\<close> and \<open>Strtab_Life\<close>: the string tables of
    \<^verbatim>\<open>bfd/elf-strtab.c\<close> with the merging of suffixes, and their use from the first string to the bytes of the section.
  \<^item> \<open>String_Map\<close>: the locale \<open>string_map\<close>, the contract of a table from strings to values; \<open>Gas_Hash\<close>: \<^verbatim>\<open>gas/hash.c\<close>, which is
    an interpretation of it.
  \<^item> \<open>Gas_State\<close>: the state of the assembler and the routines of its core that the port calls (\<^verbatim>\<open>gas/frags.c\<close>,
    \<^verbatim>\<open>write.c\<close>, \<^verbatim>\<open>expr.c\<close>, \<^verbatim>\<open>read.c\<close>, \<^verbatim>\<open>messages.c\<close>). \<open>Gas_Number\<close>: \<open>integer_constant\<close> of \<^verbatim>\<open>gas/expr.c\<close>, with large
    numbers. \<open>Tc_Parse\<close>, \<open>Tc_Assemble\<close>, \<open>Tc_Fix\<close>: \<^verbatim>\<open>gas/config/tc-fusion.c\<close>, the operand
    parsers, \<open>md_begin\<close>, \<open>md_assemble\<close>, macros and the choice of relocations, \<open>md_apply_fix\<close> and \<open>tc_gen_reloc\<close>. \<open>Gas_Write\<close>: the
    passes of \<^verbatim>\<open>gas/write.c\<close> over the fixups.
  \<^item> \<open>Tc_Line\<close>, \<open>Tc_Macro\<close>: what lines and macro instructions become. \<open>Tc_Invariant\<close>: the invariant of runs of the port, with the
    locales \<open>step_relation\<close> and \<open>line_relation\<close> for relations that every routine keeps, interpreted by \<open>extends\<close> here and by
    \<open>patched\<close> in \<open>Gas_Fixups\<close>. \<open>Listing\<close>: assembler and disassembler together. This theory: the
    properties that span the programs.

  \<^bold>\<open>What is shown.\<close>
  \<^item> Instruction set: encoding and decoding are inverse exactly on the representable instructions and on the words without ignored bits; the formats are
    disjoint; the tables of the assembler and of the disassembler agree, with the exceptions stated.
  \<^item> Disassembler: it prints the abstract text of the decoded word, and faults exactly for two system
    instructions with large register fields.
  \<^item> Assembler: numbers are read as what they denote, up to 320 bits; start-up always fills the tables; a line with well-formed operands appends exactly the bytes of
    its instruction and its fixup, while the operands of \<open>stspr\<close> and \<open>ldspr\<close> are dropped; register names and numbers are parsed as stated, their defects included; the macros expand
    as stated. Every state that a run reaches satisfies an invariant, on such states the pass over the fixups returns
    and settles every fixup, and constant and relative operands are merged as stated, with their bounds.
  \<^item> Linker: relocating a section leaves the specified word at each place and every other byte alone; what
    this means for branches, loads, jumps and stores; the overflow checks accept the stated ranges; an unsupported type leaves the section half done.
  \<^item> Tables: both kinds of hash tables refine finite maps, and which deletions from the tables of the assembler leave freed entries behind; a string table has every string at its offset.
  \<^item> Bytes: numbers and LEB128 codes are read back as they were written; the generic loops agree with the unrolled routines.
  \<^item> Across programs: what is assembled is listed again (\<open>listing_roundtrip\<close>), and a label of a section goes through adjusting, fixing
    up, writing and linking (\<open>local_label_linked\<close>).

  \<^bold>\<open>Bounds and fuel.\<close> Chains of indirect link symbols and of equated symbols are followed with as much fuel as there are
  entries; \<open>follow_links_enough\<close> shows that more fuel changes nothing, and a circle is the fault \<open>No_return\<close>, as the code would
  not return. The room of an obstack is the list \<open>gs_rooms\<close>, one number for each fragment to come; theorems that need room ask for it
  (\<open>roomy\<close>). A BFD hash table has less than 4294967291 chains, which holds as long as one vector of 32 GiB is refused:
  beyond this size \<open>higher_prime_number\<close> reads past its array (\<open>higher_prime_last\<close>). All other loops are total.

  \<^bold>\<open>Parameters.\<close> The expression reader \<open>expression\<close> of \<^verbatim>\<open>gas/expr.c\<close>, reading memory in the disassembler, the list of
  architectures and its check, the local labels written as numbers, the values of resolved symbols, the table of symbols and their BFD symbols, the
  allocator (\<open>mem\<close>), \<open>qsort\<close>, and the writing of bytes. What a theorem needs of them is a premise, with an instance in its witness.

  \<^bold>\<open>Not modelled.\<close> The expression reader apart from integer constants, the directives of the assembler, relaxation (the port has no
  relaxable fragments), debug line entries, listings, options, and the reading of source files: they are shared by all targets and work on
  input and output. In BFD the reading and writing of whole object files, the string tables of other formats, and freeing memory. The
  linker's scripts and driver, the programs around BFD such as \<^verbatim>\<open>objdump\<close> and \<^verbatim>\<open>readelf\<close>, \<^verbatim>\<open>libiberty\<close>, and the ports to other
  processors, which do not take part in the work of this one.
\<close>

section \<open>Properties that span components\<close>

text \<open>
  C8: assembling and listing. What a line with well-formed operands, in the sense of the
  refinement of the encoding, appends to the section is
  printed by the disassembler as the mnemonic of the line, followed by the same registers in the
  same order, and by the immediate of the instruction in the place of the expression; only a jump through
  register 0 is listed as the jump without a register.
\<close>

theorem listing_roundtrip:
  assumes "tables_ready s" "roomy 4 s" "\<not> pending_reloc s" "mo \<in> set operand_insns" "opc_name mo = Some n"
    and "drop p (gs_buf s) = n @ '' '' @ operand_text (opc_args mo) rd rsa rsb x @ NUL # rest"
    and "registers_ok (opc_args mo) rd rsa rsb" "immediate_ok expression mo rsa x rest ex"
  shows "\<exists>s'. md_assemble expression e0 p s = Inr ((), s') \<and>
    (\<forall>read_memory addr. addr \<le> 0x2000000 \<longrightarrow> read_memory addr = (0, drop (length (section_bytes s)) (section_bytes s')) \<longrightarrow>
      print_insn_fusion read_memory addr = Inr \<lparr>printed = listed_line mo n rd rsa rsb
        (listed_immediate (line_insn mo rd rsa rsb (X_add_number ex))), memory_error = None, returned = 4\<rparr>)"
proof -
  define i where "i = line_insn mo rd rsa rsb (X_add_number ex)"
  obtain s' where s': "md_assemble expression e0 p s = Inr ((), s')" "section_bytes s' = section_bytes s @ word_bytes (encode i)"
    unfolding i_def using assms(1-8) by (rule line_bytes)
  have "asm_text i = Inr (listed_line mo n rd rsa rsb (listed_immediate i))"
    using assms(4,5,7) i_def by (rule asm_text_line)
  moreover have "representable i" by (simp add: i_def line_insn_def Let_def)
  ultimately show ?thesis using s' by (auto simp: i_def [symmetric] intro!: print_word_bytes simp del: encode.simps)
qed

theorem listing_roundtrip_witness:
  "\<exists>s s'. md_begin True (start_state (''li sp,$'' @ [NUL])) = Inr ((), s) \<and>
    md_assemble (\<lambda>s. Inr (no_expr\<lparr>X_op := O_constant, X_add_number := 0x1234\<rparr>, s)) no_expr 0 s = Inr ((), s') \<and>
    print_insn_fusion (\<lambda>_. (0, section_bytes s')) 0 =
      Inr \<lparr>printed = ''li'' @ TAB @ ''sp'' @ COMMA @ ''0x1234'', memory_error = None, returned = 4\<rparr>"
proof -
  let ?ex = "no_expr\<lparr>X_op := O_constant, X_add_number := 0x1234\<rparr>"
  define mo where "mo = opc_info ''li'' 0x0 USE_RDI FRMT_LI CPID_MAIN MASK_IMM_LI OPC_LI"
  obtain s where s: "md_begin True (start_state (''li sp,$'' @ [NUL])) = Inr ((), s)" "tables_ready s"
    "gs_buf s = ''li sp,$'' @ [NUL]" "\<forall>n \<le> 64. roomy n s" "\<not> pending_reloc s" "section_bytes s = []"
    by (rule start_ready)
  have mo: "mo \<in> set operand_insns" "opc_name mo = Some ''li''" "opc_args mo = USE_RDI" "opc_opc mo = OPC_LI" "opc_index mo = 0"
    by (simp_all add: mo_def operand_insns_def named_insns_def fusion_insn_all_def opc_info_def opc_info_zero_def isa_defs)
  have dr: "drop 0 (gs_buf s) = ''li'' @ '' '' @ operand_text (opc_args mo) 1 0 0 ''$'' @ NUL # []"
    by (simp add: s(3) mo(3) operand_text_def fusion_gpreg_name_def isa_defs)
  have ro: "registers_ok (opc_args mo) 1 0 0" by (simp add: mo(3) registers_ok_def unused_zero_def isa_defs)
  have im: "immediate_ok (\<lambda>s. Inr (?ex, s)) mo 0 ''$'' [] ?ex"
    by (auto simp: immediate_ok_def starts_operand_def blank_def simple_expr_def reads_def NUL_def)
  have "roomy 4 s" using s(4) by simp
  moreover have "listed_line mo ''li'' 1 0 0 (listed_immediate (line_insn mo 1 0 0 0x1234)) = ''li'' @ TAB @ ''sp'' @ COMMA @ ''0x1234''"
    by (simp add: listed_line_def listed_operands_def line_insn_def mo isa_defs listed_immediate_def fusion_gpreg_name_def fmt_x_def pad0_def digits.simps)
  ultimately show ?thesis
    using listing_roundtrip [OF s(2) _ s(5) mo(1,2) dr ro im, of no_expr] s(1,6) by auto
qed

text \<open>
  C5: from the line to the linked instruction. A branch or load-immediate that refers to a
  label of its own section goes through the three passes of the assembler and through the
  linker: the label is replaced by the symbol of the section, the fixup is left with an entry at
  the place of the instruction, and relocating the section puts, for a load-immediate,
  exactly the low or high half of the address of the label into the instruction. The
  distance of a branch comes out too large by the address of the fragment that holds it, so that
  it is right exactly when that address is a multiple of 2 to the 14.
\<close>

theorem local_label_linked:
  assumes "n < length (gs_fixes s)" "fx = gs_fixes s ! n" "insn_place s fx (encode i)" "plain_fix fx y"
    and "frag_of fx s = Inr (fr, s)" "fx_where fx + fx_size fx \<le> fr_fix fr"
    and "local_label tab seg y" "section_symbol_ok tab seg" "gas_section abfd sec m"
    and "place = fr_address fr + of_nat (fx_where fx)" "unat place + 4 \<le> m"
    and "target = fx_offset fx + S_GET_VALUE tab y" "entry_in_range (fx_r_type fx) (fr_address fr) target"
    and "fusion_target (li_bfd li)" "sec_output_vma osec = Some vma" "base = vma + sec_output_offset osec"
    and "fx_r_type fx = BFD_RELOC_FUSION_14_PCREL \<and> i = B_insn rsa rsb m14 f \<and>
           j = B_insn rsa rsb (ucast (target - place + fr_address fr)) f \<or>
         fx_r_type fx = BFD_RELOC_16 \<and> i = LI_insn rd dsel m16 \<and> j = LI_insn rd dsel (ucast (base + target)) \<or>
         fx_r_type fx = BFD_RELOC_FUSION_HI16 \<and> i = LI_insn rd dsel m16 \<and> j = LI_insn rd dsel (ucast (drop_bit 16 (base + target)))"
  shows "\<exists>fx' s' e. adjust_fix tab seg fx = Inr fx' \<and>
    fixup_step tab a seg n (s\<lparr>gs_fixes := (gs_fixes s)[n := fx']\<rparr>) = Inr ((), s') \<and>
    write_reloc tab abfd sec mem (gs_fixes s' ! n) s' = Inr ([e], s') \<and> (\<exists>w. insn_place s' fx w) \<and>
    rel_address e = place \<and> rel_howto e = Some (fusion_howto (linked_reloc (fx_r_type fx))) \<and>
    (\<forall>rel p w. rela_of e rel \<longrightarrow> section_ok (li_bfd li) osec p \<longrightarrow> insn_at (li_bfd li) p (unat (r_offset rel)) = Inr w \<longrightarrow>
      insn_place s' fx w \<longrightarrow>
      (\<exists>q w'. relocate_switch li osec (fusion_howto (ELF32_R_TYPE (r_info rel))) rel base p = Inr (bfd_reloc_ok, q) \<and>
        insn_at (li_bfd li) q (unat (r_offset rel)) = Inr w' \<and> decode w' = Some j)) \<and>
    (fx_r_type fx = BFD_RELOC_FUSION_14_PCREL \<longrightarrow>
      (j = B_insn rsa rsb (ucast (target - place)) f \<longleftrightarrow> take_bit 14 (fr_address fr) = 0))"
proof -
  let ?r = "fx_r_type fx"
  define z where "z = section_symbol tab seg"
  define fx' where "fx' = fx\<lparr>fx_offset := target, fx_addsy := Some z\<rparr>"
  define s0 where "s0 = s\<lparr>gs_fixes := (gs_fixes s)[n := fx']\<rparr>"
  define t where "t = linked_reloc ?r"
  define e where "e = mem\<lparr>rel_sym := symbol_get_bfdsym tab z, rel_address := place,
    rel_addend := entry_addend ?r (fr_address fr) target, rel_howto := Some (fusion_howto t)\<rparr>"
  have adj: "adjust_fix tab seg fx = Inr fx'" using adjust_local [OF assms(7,4)] by (simp add: fx'_def z_def assms(12))
  have fx': "fx_r_type fx' = ?r" "fx_where fx' = fx_where fx" "fx_size fx' = fx_size fx" "plain_fix fx' z" "frag_of fx' = frag_of fx"
    "\<And>s w. insn_place s fx' w = insn_place s fx w"
    using assms(4) by (auto simp: fx'_def plain_fix_def frag_of_def insn_place_def)
  have z: "S_GET_SEGMENT tab z = seg" "S_GET_VALUE tab z = 0" "seg \<noteq> absolute_section"
    using assms(7,8) by (simp_all add: section_symbol_ok_def local_label_def SEG_NORMAL_def z_def Let_def)
  have add: "symbol_add tab fx' z = target" by (simp add: symbol_add_def z(2) fx'_def)
  have k: "map_of fusion_reloc_map ?r = Some t" "fixed_insn ?r 0 i \<noteq> None" "t \<in> {R_FUSION_BRANCH, R_FUSION_LI, R_FUSION_LUI}"
    using assms(17) by (auto simp: t_def linked_reloc_def fusion_reloc_map_def fixed_insn_def)
  have s0: "n < length (gs_fixes s0)" "fx' = gs_fixes s0 ! n" "insn_place s0 fx' (encode i)" "frag_of fx' s0 = Inr (fr, s0)"
    using assms(1,3,5) by (simp_all add: s0_def fx' del: encode.simps) (auto simp: frag_of_def rbind_Inr_iff split: option.splits)
  have "fixed_insn (fx_r_type fx') 0 i \<noteq> None" "S_GET_SEGMENT tab z \<noteq> absolute_section"
    "entry_in_range (fx_r_type fx') (fr_address fr) (symbol_add tab fx' z)" "map_of fusion_reloc_map (fx_r_type fx') = Some t"
    "e = mem\<lparr>rel_sym := symbol_get_bfdsym tab z, rel_address := fr_address fr + of_nat (fx_where fx'),
      rel_addend := entry_addend (fx_r_type fx') (fr_address fr) (symbol_add tab fx' z), rel_howto := Some (fusion_howto t)\<rparr>"
    using k(1,2) z assms(13) by (simp_all add: fx' add e_def assms(10))
  with s0 fx'(4) obtain s' j0 fr' where s': "fixup_step tab a seg n s0 = Inr ((), s')" "insn_place s' fx' (encode j0)"
    "j0 = i \<or> (\<exists>u. fixed_insn (fx_r_type fx') u i = Some j0)" "gs_fixes s' ! n = fx'\<lparr>fx_addnumber := symbol_add tab fx' z\<rparr>"
    "frag_of (gs_fixes s' ! n) s' = Inr (fr', s')" "fr_fix fr' = fr_fix fr"
    "tc_gen_reloc (symbol_get_bfdsym tab) mem (gs_fixes s' ! n) s' = Inr (Some e, s')"
    using symbol_entry [of n s0 fx' i z tab fr t e mem a seg] by metis
  have e: "rel_sym e = symbol_get_bfdsym tab (section_symbol tab seg)" "rel_howto e = Some (fusion_howto t)" "rel_address e = place"
    "rel_addend e = entry_addend ?r (fr_address fr) target" by (simp_all add: e_def z_def)
  have "write_reloc tab abfd sec mem (gs_fixes s' ! n) s' = Inr ([e], s')"
    using s'(5-7) assms(6) fx'(4) by (intro write_section_entry [where fr = fr', OF _ _ _ _ assms(8) e(1) assms(9) e(2) k(3)])
      (simp_all add: s'(4) fx' e(3) assms(11) plain_fix_def)
  moreover have "\<exists>w. insn_place s' fx w" using s'(2) unfolding fx' by blast
  moreover have "fx_r_type fx = BFD_RELOC_FUSION_14_PCREL \<longrightarrow>
      (j = B_insn rsa rsb (ucast (target - place)) f \<longleftrightarrow> take_bit 14 (fr_address fr) = 0)"
    using assms(17) by (auto simp: branch_offset_right)
  moreover have "\<exists>q w'. relocate_switch li osec (fusion_howto (ELF32_R_TYPE (r_info rel))) rel base p = Inr (bfd_reloc_ok, q) \<and>
        insn_at (li_bfd li) q (unat (r_offset rel)) = Inr w' \<and> decode w' = Some j"
    if rel: "rela_of e rel" "section_ok (li_bfd li) osec p" "insn_at (li_bfd li) p (unat (r_offset rel)) = Inr w" "insn_place s' fx w"
    for rel p w
  proof (rule entry_relocated [OF rel(1) e(2) k(3) assms(14) rel(2) assms(15,16) rel(3)])
    have "w = encode j0" using insn_place_unique [OF rel(4)] s'(2) by (simp add: fx' del: encode.simps)
    then show "decode (reloc_word t base (rel_addend e) (base + rel_address e) w) = Some j"
      using assms(17) s'(3) decode_encode [of j0]
      by (auto simp: fx' t_def linked_reloc_def decode_reloc_word fixed_insn_def e(3,4) entry_addend_def algebra_simps simp del: encode.simps)
  qed
  ultimately show ?thesis using adj s'(1) e(2,3) unfolding s0_def t_def by blast
qed

theorem local_label_linked_witness:
  "\<exists>s fx' s' e w q w'. s = (start_state [])\<lparr>gs_frags := [empty_frag\<lparr>fr_address := 4, fr_fix := 4,
        fr_literal := word_bytes (encode (B_insn 1 2 0 3))\<rparr>], gs_fixes := [symbol_fix 0 0 0 BFD_RELOC_FUSION_14_PCREL]\<rparr> \<and>
    adjust_fix (label_table 8) (normal_section 0) (gs_fixes s ! 0) = Inr fx' \<and>
    fixup_step (label_table 8) 2 (normal_section 0) 0 (s\<lparr>gs_fixes := [fx']\<rparr>) = Inr ((), s') \<and>
    write_reloc (label_table 8) example_bfd (label_section\<lparr>sec_size := 8\<rparr>) no_entry (gs_fixes s' ! 0) s' = Inr ([e], s') \<and>
    insn_place s' (gs_fixes s ! 0) w \<and>
    relocate_switch example_link example_section (fusion_howto R_FUSION_BRANCH)
      \<lparr>r_offset = rel_address e, r_info = 0x10B, r_addend = rel_addend e\<rparr> 0x1000 (example_contents (word_bytes w)) = Inr (bfd_reloc_ok, q) \<and>
    insn_at example_bfd q 4 = Inr w' \<and> decode w' = Some (B_insn 1 2 8 3)"
proof -
  define fx where "fx = symbol_fix 0 0 0 BFD_RELOC_FUSION_14_PCREL"
  define fr where "fr = empty_frag\<lparr>fr_address := 4, fr_fix := 4, fr_literal := word_bytes (encode (B_insn 1 2 0 3))\<rparr>"
  define s where "s = (start_state [])\<lparr>gs_frags := [fr], gs_fixes := [fx]\<rparr>"
  have s: "0 < length (gs_fixes s)" "fx = gs_fixes s ! 0" "insn_place s fx (encode (B_insn 1 2 0 3))" "plain_fix fx 0"
    "frag_of fx s = Inr (fr, s)" "fx_where fx + fx_size fx \<le> fr_fix fr"
    by (simp_all add: s_def fx_def fr_def insn_place_def frag_of_def symbol_fix_size del: encode.simps)
  have tab: "local_label (label_table 8) (normal_section 0) 0" "section_symbol_ok (label_table 8) (normal_section 0)"
    "gas_section example_bfd (label_section\<lparr>sec_size := 8\<rparr>) 8"
    by (simp_all add: local_label_def label_table_def SEG_NORMAL_def S_FORCE_RELOC_def section_symbol_ok_def gas_section_def
      fusion_target_def bfd_get_section_limit_octets_def label_section_def example_bfd_def Let_def)
  have ty: "ELF32_R_TYPE 0x10B = R_FUSION_BRANCH" "linked_reloc (fx_r_type fx) = R_FUSION_BRANCH" "howto_type (fusion_howto R_FUSION_BRANCH) = R_FUSION_BRANCH"
    by (simp_all add: ELF32_R_TYPE_def reloc_number_defs fx_def linked_reloc_def fusion_howto_simps)
  have c: "(4 :: bfd_vma) = fr_address fr + of_nat (fx_where fx)" "unat (4 :: bfd_vma) + 4 \<le> 8"
    "(8 :: bfd_vma) = fx_offset fx + S_GET_VALUE (label_table 8) 0"
    "entry_in_range (fx_r_type fx) (fr_address fr) 8" "fusion_target (li_bfd example_link)" "sec_output_vma example_section = Some 0x1000"
    "(0x1000 :: bfd_vma) = 0x1000 + sec_output_offset example_section"
    by (simp_all add: fr_def fx_def label_table_def entry_in_range_def signed_int_def example_ok example_section_def)
  have d: "fx_r_type fx = BFD_RELOC_FUSION_14_PCREL \<and> B_insn 1 2 0 3 = B_insn 1 2 0 3 \<and>
      B_insn 1 2 8 3 = B_insn 1 2 (ucast (8 - 4 + fr_address fr)) 3 \<or>
    fx_r_type fx = BFD_RELOC_16 \<and> B_insn 1 2 0 3 = LI_insn 0 0 0 \<and> B_insn 1 2 8 3 = LI_insn 0 0 (ucast (0x1000 + 8 :: bfd_vma)) \<or>
    fx_r_type fx = BFD_RELOC_FUSION_HI16 \<and> B_insn 1 2 0 3 = LI_insn 0 0 0 \<and>
      B_insn 1 2 8 3 = LI_insn 0 0 (ucast (drop_bit 16 (0x1000 + 8 :: bfd_vma)))"
    by (rule disjI1) (simp add: fr_def fx_def)
  from local_label_linked [OF s tab c d, of 2 no_entry]
  obtain fx' s' e w where e: "adjust_fix (label_table 8) (normal_section 0) fx = Inr fx'"
    "fixup_step (label_table 8) 2 (normal_section 0) 0 (s\<lparr>gs_fixes := (gs_fixes s)[0 := fx']\<rparr>) = Inr ((), s')"
    "write_reloc (label_table 8) example_bfd (label_section\<lparr>sec_size := 8\<rparr>) no_entry (gs_fixes s' ! 0) s' = Inr ([e], s')"
    "insn_place s' fx w" "rel_address e = 4" "rel_howto e = Some (fusion_howto R_FUSION_BRANCH)"
    "\<forall>rel p w. rela_of e rel \<longrightarrow> section_ok (li_bfd example_link) example_section p \<longrightarrow>
      insn_at (li_bfd example_link) p (unat (r_offset rel)) = Inr w \<longrightarrow> insn_place s' fx w \<longrightarrow>
      (\<exists>q w'. relocate_switch example_link example_section (fusion_howto (ELF32_R_TYPE (r_info rel))) rel 0x1000 p = Inr (bfd_reloc_ok, q) \<and>
        insn_at (li_bfd example_link) q (unat (r_offset rel)) = Inr w' \<and> decode w' = Some (B_insn 1 2 8 3))"
    unfolding ty(2) by blast
  define rel where "rel = \<lparr>r_offset = rel_address e, r_info = 0x10B, r_addend = rel_addend e\<rparr>"
  have "rela_of e rel" by (simp add: rela_of_def rel_def e(6) ty)
  moreover have "section_ok (li_bfd example_link) example_section (example_contents (word_bytes w))" by (rule example_ok(4)) simp
  moreover have "insn_at (li_bfd example_link) (example_contents (word_bytes w)) (unat (r_offset rel)) = Inr w"
    by (simp add: rel_def e(5) insn_at_word example_link_def)
  moreover have "li_bfd example_link = example_bfd" "ELF32_R_TYPE (r_info rel) = R_FUSION_BRANCH" "unat (r_offset rel) = 4"
    by (simp_all add: example_link_def rel_def ty e(5))
  ultimately have "\<exists>q w'. relocate_switch example_link example_section (fusion_howto R_FUSION_BRANCH) rel 0x1000 (example_contents (word_bytes w))
      = Inr (bfd_reloc_ok, q) \<and> insn_at example_bfd q 4 = Inr w' \<and> decode w' = Some (B_insn 1 2 8 3)"
    using e(7) [rule_format, of rel "example_contents (word_bytes w)" w] e(4) by (simp only:)
  moreover have "s\<lparr>gs_fixes := (gs_fixes s)[0 := fx']\<rparr> = s\<lparr>gs_fixes := [fx']\<rparr>" by (simp add: s_def)
  ultimately show ?thesis
    using e(1-4) unfolding rel_def s(2) [symmetric] s_def [symmetric] fx_def [symmetric] fr_def [symmetric]
    by (intro exI [of _ s]) (metis s(2) s_def)
qed

end
